(* ===== verification/Prelude.thy ===== *)
theory Prelude
  imports Main
begin

text \<open>
  Shared vocabulary of the development: the names of the model's basic types, the collections
  the component proofs use, and the list and option lemmas that several components share.

  \<^item> \<open>date\<close> is a calendar day, as a day number (see \<open>Civil_Date\<close>); \<open>uuid\<close> is an identifier,
    with 0 for the nil UUID; \<open>cents\<close> is a \<open>money.Amount\<close> read as a mathematical integer.
  \<^item> \<open>i64\<close> is the wrap-around of Go's \<open>int64\<close>; \<open>go_div\<close> and \<open>go_mod\<close> are Go's integer
    division and remainder, which truncate towards zero.
\<close>

type_synonym date = int
type_synonym uuid = nat
type_synonym cents = int

named_theorems date_simps "facts that evaluate calendar arithmetic"
named_theorems f64_simps "facts that evaluate binary64 arithmetic"
named_theorems keeps "preservation rules for database statements and handlers"

section \<open>Go's integers\<close>

definition i64 :: "int \<Rightarrow> int" where
  "i64 n = (n + 2 ^ 63) mod 2 ^ 64 - 2 ^ 63"

definition in_i64 :: "int \<Rightarrow> bool" where
  "in_i64 n \<longleftrightarrow> - (2 ^ 63) \<le> n \<and> n < 2 ^ 63"

text \<open>The range of an \<open>INTEGER\<close> column.\<close>

definition in_i32 :: "int \<Rightarrow> bool" where
  "in_i32 n \<longleftrightarrow> - (2 ^ 31) \<le> n \<and> n < 2 ^ 31"

lemma i64_id: "in_i64 n \<Longrightarrow> i64 n = n"
  by (simp add: i64_def in_i64_def)

lemma in_i64_i64 [simp]: "in_i64 (i64 n)"
proof -
  have "0 \<le> (n + 2 ^ 63) mod 2 ^ 64" "(n + 2 ^ 63) mod 2 ^ 64 < (2 :: int) ^ 64"
    by simp_all
  then show ?thesis by (simp add: i64_def in_i64_def)
qed

text \<open>A sum wrapped at every step is the sum wrapped once.\<close>

lemma i64_add: "i64 (i64 a + b) = i64 (a + b)" "i64 (a + i64 b) = i64 (a + b)"
proof -
  have left: "i64 (i64 x + y) = i64 (x + y)" for x y
  proof -
    have "i64 x + y + 2 ^ 63 = (x + 2 ^ 63) mod 2 ^ 64 + y" by (simp add: i64_def)
    moreover have "((x + 2 ^ 63) mod 2 ^ 64 + y) mod 2 ^ 64 = (x + 2 ^ 63 + y) mod 2 ^ 64" by (rule mod_add_left_eq)
    moreover have "x + 2 ^ 63 + y = x + y + 2 ^ 63" by simp
    ultimately show ?thesis unfolding i64_def [of "i64 x + y"] i64_def [of "x + y"] by (simp only:)
  qed
  show "i64 (i64 a + b) = i64 (a + b)" "i64 (a + i64 b) = i64 (a + b)"
    using left [of a b] left [of b a] by (simp_all add: add.commute)
qed

lemma i64_diff: "i64 (i64 a - b) = i64 (a - b)" "i64 (a - i64 b) = i64 (a - b)"
proof -
  show "i64 (i64 a - b) = i64 (a - b)" using i64_add(1) [of a "- b"] by simp
  have "a - i64 b + 2 ^ 63 = a + 2 ^ 63 + 2 ^ 63 - (b + 2 ^ 63) mod 2 ^ 64" by (simp add: i64_def)
  moreover have "(a + 2 ^ 63 + 2 ^ 63 - (b + 2 ^ 63) mod 2 ^ 64) mod 2 ^ 64 = (a + 2 ^ 63 + 2 ^ 63 - (b + 2 ^ 63)) mod 2 ^ 64"
    by (rule mod_diff_right_eq)
  moreover have "a + 2 ^ 63 + 2 ^ 63 - (b + 2 ^ 63) = a - b + 2 ^ 63" by simp
  ultimately show "i64 (a - i64 b) = i64 (a - b)" unfolding i64_def [of "a - i64 b"] i64_def [of "a - b"] by (simp only:)
qed

lemmas i64_sums = i64_add i64_diff

lemma i64_i64 [simp]: "i64 (i64 a) = i64 a"
  by (simp add: i64_id)

lemma i64_fold: "in_i64 r \<Longrightarrow> fold (\<lambda>x r. i64 (r + f x)) xs r = i64 (r + (\<Sum>x\<leftarrow>xs. f x))"
proof (induction xs arbitrary: r)
  case (Cons x xs)
  from Cons.IH [of "i64 (r + f x)"] show ?case by (simp add: i64_sums add.assoc)
qed (simp add: i64_id)

text \<open>Go's \<open>/\<close> and \<open>%\<close> truncate towards zero.\<close>

definition go_div :: "int \<Rightarrow> int \<Rightarrow> int" where
  "go_div a b = sgn a * sgn b * (\<bar>a\<bar> div \<bar>b\<bar>)"

definition go_mod :: "int \<Rightarrow> int \<Rightarrow> int" where
  "go_mod a b = a - go_div a b * b"

lemma go_div_nonneg: "0 \<le> a \<Longrightarrow> 0 < b \<Longrightarrow> go_div a b = a div b"
  by (cases "a = 0") (simp_all add: go_div_def sgn_if)

lemma go_mod_nonneg: "0 \<le> a \<Longrightarrow> 0 < b \<Longrightarrow> go_mod a b = a mod b"
  by (simp add: go_mod_def go_div_nonneg minus_div_mult_eq_mod)

section \<open>Lists\<close>

lemma sum_list_nonneg_int: "(\<And>x. x \<in> set xs \<Longrightarrow> 0 \<le> f x) \<Longrightarrow> 0 \<le> (\<Sum>x\<leftarrow>xs. (f x :: int))"
  by (induction xs) auto

lemma filter_eq_takeWhile_sorted:
  assumes "sorted_wrt (\<lambda>x y. P y \<longrightarrow> P x) xs"
  shows "filter P xs = takeWhile P xs"
  using assms by (induction xs) (auto simp: filter_empty_conv)

lemma sorted_wrt_nth_lessI:
  "(\<And>i j. i < j \<Longrightarrow> j < n \<Longrightarrow> R (f i) (f j)) \<Longrightarrow> sorted_wrt R (map f [0..<n])"
  by (simp add: sorted_wrt_iff_nth_less)

lemma filter_map_same:
  "(\<And>x. x \<in> set xs \<Longrightarrow> P (f x) = P x) \<Longrightarrow> (\<And>x. x \<in> set xs \<Longrightarrow> P x \<Longrightarrow> f x = x) \<Longrightarrow>
    filter P (map f xs) = filter P xs"
  by (induction xs) auto

lemma filter_filter_same:
  "(\<And>x. x \<in> set xs \<Longrightarrow> P x \<Longrightarrow> Q x) \<Longrightarrow> filter P (filter Q xs) = filter P xs"
  by (induction xs) auto

lemma distinct_map_keep: "(\<And>x. x \<in> set xs \<Longrightarrow> f (g x) = f x) \<Longrightarrow> distinct (map f xs) \<Longrightarrow> distinct (map f (map g xs))"
  by (simp add: comp_def cong: map_cong)

end
