(* ===== verification/Go_Text.thy ===== *)
theory Go_Text
  imports Prelude "HOL-Library.Sublist" "HOL-Library.Char_ord"
begin

text \<open>
  The string operations of Go's \<open>strings\<close>, \<open>strconv\<close> and \<open>fmt\<close> packages the program uses, on
  byte strings. A \<open>char\<close> is one byte; case folding and white space are those of ASCII, so text
  beyond ASCII is left as it is. \<open>dec\<close> renders a natural number as \<open>%d\<close> does and \<open>undec\<close> reads a
  string of digits back; \<open>parse_int64\<close> is \<open>strconv.ParseInt(s, 10, 64)\<close>.
\<close>

section \<open>Decimal digits\<close>

definition digit :: "nat \<Rightarrow> char" where
  "digit n = char_of (48 + n)"

definition digit_val :: "char \<Rightarrow> nat option" where
  "digit_val c = (let k = of_char c in if 48 \<le> k \<and> k \<le> (57 :: nat) then Some (k - 48) else None)"

fun dec :: "nat \<Rightarrow> string" where
  "dec n = (if n < 10 then [digit n] else dec (n div 10) @ [digit (n mod 10)])"

declare dec.simps [simp del]

fun undec_from :: "nat \<Rightarrow> string \<Rightarrow> nat option" where
  "undec_from a [] = Some a"
| "undec_from a (c # cs) = (case digit_val c of None \<Rightarrow> None | Some k \<Rightarrow> undec_from (10 * a + k) cs)"

definition undec :: "string \<Rightarrow> nat option" where
  "undec s = (if s = [] then None else undec_from 0 s)"

text \<open>\<open>fmt.Sprintf("%02d", n)\<close> and \<open>"%04d"\<close>.\<close>

definition pad :: "nat \<Rightarrow> string \<Rightarrow> string" where
  "pad w s = replicate (w - length s) (CHR ''0'') @ s"

definition dec_int :: "int \<Rightarrow> string" where
  "dec_int n = (if n < 0 then CHR ''-'' # dec (nat (- n)) else dec (nat n))"

definition parse_int64 :: "string \<Rightarrow> int option" where
  "parse_int64 s =
     (let (neg, ds) = (case s of [] \<Rightarrow> (False, [])
        | c # cs \<Rightarrow> if c = CHR ''-'' then (True, cs) else if c = CHR ''+'' then (False, cs) else (False, s))
      in case undec ds of None \<Rightarrow> None
         | Some n \<Rightarrow> let v = (if neg then - int n else int n) in if in_i64 v then Some v else None)"

lemma digit_val_digit [simp]: "n < 10 \<Longrightarrow> digit_val (digit n) = Some n"
  by (simp add: digit_val_def digit_def of_char_of)

lemma digit_val_lt: "digit_val c = Some k \<Longrightarrow> k < 10"
  by (auto simp: digit_val_def Let_def split: if_splits)

lemma digit_neqI: "digit_val c = None \<Longrightarrow> n < 10 \<Longrightarrow> digit n \<noteq> c"
  by auto

lemma digit_neq [simp]:
  "n < 10 \<Longrightarrow> digit n \<noteq> CHR ''.''" "n < 10 \<Longrightarrow> digit n \<noteq> CHR ''+''"
  "n < 10 \<Longrightarrow> digit n \<noteq> CHR ''-''" "n < 10 \<Longrightarrow> digit n \<noteq> CHR '' ''"
  by (rule digit_neqI; simp add: digit_val_def)+

lemma undec_from_append:
  "undec_from a (xs @ ys) = (case undec_from a xs of None \<Rightarrow> None | Some b \<Rightarrow> undec_from b ys)"
  by (induction xs arbitrary: a) (auto split: option.splits)

lemma undec_from_dec [simp]: "undec_from 0 (dec n) = Some n"
proof (induction n rule: dec.induct)
  case (1 n)
  show ?case
  proof (cases "n < 10")
    case True
    then show ?thesis by (simp add: dec.simps [of n])
  next
    case False
    with 1 have "undec_from 0 (dec (n div 10)) = Some (n div 10)" by simp
    then show ?thesis using False by (simp add: dec.simps [of n] undec_from_append)
  qed
qed

lemma dec_not_Nil [simp]: "dec n \<noteq> []"
  by (subst dec.simps) simp

lemma undec_dec [simp]: "undec (dec n) = Some n"
  by (simp add: undec_def)

lemma set_dec: "c \<in> set (dec n) \<Longrightarrow> \<exists>k < 10. c = digit k"
proof (induction n rule: dec.induct)
  case (1 n)
  show ?case
  proof (cases "n < 10")
    case True
    with "1.prems" show ?thesis by (auto simp: dec.simps [of n])
  next
    case False
    then have "c \<in> set (dec (n div 10)) \<or> c = digit (n mod 10)"
      using "1.prems" by (auto simp: dec.simps [of n])
    moreover have "n mod 10 < 10" by simp
    ultimately show ?thesis using "1.IH" False by blast
  qed
qed

lemma dec_no_sign [simp]:
  "CHR ''.'' \<notin> set (dec n)" "CHR ''+'' \<notin> set (dec n)" "CHR ''-'' \<notin> set (dec n)"
  "CHR '' '' \<notin> set (dec n)"
  using set_dec [of "CHR ''.''" n] set_dec [of "CHR ''+''" n] set_dec [of "CHR ''-''" n]
    set_dec [of "CHR '' ''" n] by (metis digit_neq)+

section \<open>The \<open>strings\<close> package\<close>

definition is_space :: "char \<Rightarrow> bool" where
  "is_space c \<longleftrightarrow> c = CHR '' '' \<or> (of_char c :: nat) \<in> {9, 10, 11, 12, 13}"

definition trim_space :: "string \<Rightarrow> string" where
  "trim_space s = rev (dropWhile is_space (rev (dropWhile is_space s)))"

definition to_lower_char :: "char \<Rightarrow> char" where
  "to_lower_char c = (let k = of_char c :: nat in if 65 \<le> k \<and> k \<le> 90 then char_of (k + 32) else c)"

definition to_lower :: "string \<Rightarrow> string" where
  "to_lower s = map to_lower_char s"

definition contains :: "string \<Rightarrow> string \<Rightarrow> bool" where
  "contains s sub \<longleftrightarrow> sublist sub s"

fun split_fields :: "string \<Rightarrow> string \<Rightarrow> string list" where
  "split_fields w [] = (if w = [] then [] else [rev w])"
| "split_fields w (c # cs) =
     (if is_space c then (if w = [] then split_fields [] cs else rev w # split_fields [] cs)
      else split_fields (c # w) cs)"

definition fields_of :: "string \<Rightarrow> string list" where
  "fields_of s = split_fields [] s"

text \<open>\<open>strings.EqualFold\<close>, and \<open>strings.Split(s, sep)\<close> at a one-byte separator.\<close>

definition equal_fold :: "string \<Rightarrow> string \<Rightarrow> bool" where
  "equal_fold s t \<longleftrightarrow> to_lower s = to_lower t"

fun split_on :: "char \<Rightarrow> string \<Rightarrow> string list" where
  "split_on c [] = [[]]"
| "split_on c (x # xs) =
     (if x = c then [] # split_on c xs
      else case split_on c xs of [] \<Rightarrow> [[x]] | w # ws \<Rightarrow> (x # w) # ws)"

text \<open>\<open>strings.Join(xs, sep)\<close>.\<close>

fun join_with :: "string \<Rightarrow> string list \<Rightarrow> string" where
  "join_with sep [] = []"
| "join_with sep [x] = x"
| "join_with sep (x # y # xs) = x @ sep @ join_with sep (y # xs)"

text \<open>\<open>%q\<close>: a string in double quotes with Go's escapes.\<close>

definition hex_digit :: "nat \<Rightarrow> char" where
  "hex_digit n = (if n < 10 then digit n else char_of (87 + n))"

definition quote_char :: "char \<Rightarrow> string" where
  "quote_char c = (let k = of_char c :: nat in
     if k = 34 \<or> k = 92 then [CHR 92, c]
     else if k = 7 then [CHR 92, CHR ''a''] else if k = 8 then [CHR 92, CHR ''b'']
     else if k = 9 then [CHR 92, CHR ''t''] else if k = 10 then [CHR 92, CHR ''n'']
     else if k = 11 then [CHR 92, CHR ''v''] else if k = 12 then [CHR 92, CHR ''f'']
     else if k = 13 then [CHR 92, CHR ''r'']
     else if k < 32 \<or> k = 127 then [CHR 92, CHR ''x'', hex_digit (k div 16), hex_digit (k mod 16)]
     else [c])"

definition go_quote :: "string \<Rightarrow> string" where
  "go_quote s = [CHR 34] @ concat (map quote_char s) @ [CHR 34]"

text \<open>\<open>strings.ToUpper\<close>.\<close>

definition to_upper_char :: "char \<Rightarrow> char" where
  "to_upper_char c = (let k = of_char c :: nat in if 97 \<le> k \<and> k \<le> 122 then char_of (k - 32) else c)"

definition to_upper :: "string \<Rightarrow> string" where
  "to_upper s = map to_upper_char s"

text \<open>
  \<open>fmt.Sprintf\<close> with integer operands, at the one verb the program gives it, \<open>%d\<close>; with too few or too
  many operands it writes what Go writes.
\<close>

fun sprintf :: "string \<Rightarrow> nat list \<Rightarrow> string" where
  "sprintf [] ns =
     (if ns = [] then [] else ''%!(EXTRA '' @ join_with '', '' (map (\<lambda>n. ''int='' @ dec n) ns) @ '')'')"
| "sprintf [c] ns = c # sprintf [] ns"
| "sprintf (c # d # cs) ns =
     (if c = CHR ''%'' \<and> d = CHR ''d'' then
        (case ns of [] \<Rightarrow> ''%!d(MISSING)'' @ sprintf cs [] | n # ns \<Rightarrow> dec n @ sprintf cs ns)
      else c # sprintf (d # cs) ns)"

text \<open>\<open>strings.Cut(s, sep)\<close> at a one-byte separator.\<close>

fun cut :: "char \<Rightarrow> string \<Rightarrow> string \<times> string \<times> bool" where
  "cut c [] = ([], [], False)"
| "cut c (x # xs) = (if x = c then ([], xs, True) else case cut c xs of (a, b, f) \<Rightarrow> (x # a, b, f))"

lemma cut_append [simp]: "c \<notin> set xs \<Longrightarrow> cut c (xs @ c # ys) = (xs, ys, True)"
  by (induction xs) auto

lemma cut_absent [simp]: "c \<notin> set xs \<Longrightarrow> cut c xs = (xs, [], False)"
  by (induction xs) auto

lemma dropWhile_hd: "xs \<noteq> [] \<Longrightarrow> \<not> P (hd xs) \<Longrightarrow> dropWhile P xs = xs"
  by (cases xs) auto

lemma trim_space_id:
  assumes "s = [] \<or> \<not> is_space (hd s) \<and> \<not> is_space (last s)"
  shows "trim_space s = s"
  using assms by (cases "s = []") (simp_all add: trim_space_def dropWhile_hd hd_rev)

lemma digit_not_space [simp]: "n < 10 \<Longrightarrow> \<not> is_space (digit n)"
proof -
  assume n: "n < 10"
  then have "of_char (digit n) = 48 + n" by (simp add: digit_def of_char_of)
  with n show ?thesis by (simp add: is_space_def)
qed

section \<open>Parsed digits\<close>

lemma undec_from_bound: "undec_from a s = Some n \<Longrightarrow> n < (a + 1) * 10 ^ length s"
proof (induction s arbitrary: a)
  case Nil
  then show ?case by simp
next
  case (Cons c s)
  then obtain k where k: "digit_val c = Some k" "undec_from (10 * a + k) s = Some n"
    by (auto split: option.splits)
  from Cons.IH [OF k(2)] have "n < (10 * a + k + 1) * 10 ^ length s" .
  also have "\<dots> \<le> (10 * (a + 1)) * 10 ^ length s"
    using digit_val_lt [OF k(1)] by (intro mult_right_mono) simp_all
  finally show ?case by (simp add: algebra_simps)
qed

text \<open>\<open>ParseInt\<close> of a string without a sign reads its digits.\<close>

lemma parse_int64_unsigned:
  assumes "CHR ''-'' \<notin> set s" "CHR ''+'' \<notin> set s"
  shows "parse_int64 s = (case undec s of None \<Rightarrow> None
     | Some n \<Rightarrow> if in_i64 (int n) then Some (int n) else None)"
  using assms by (cases s) (auto simp: parse_int64_def split: option.splits)

lemma set_pad [simp]: "c \<noteq> CHR ''0'' \<Longrightarrow> c \<notin> set s \<Longrightarrow> c \<notin> set (pad w s)"
  by (auto simp: pad_def)

lemma length_dec_small: "n < 100 \<Longrightarrow> length (dec n) \<le> 2"
  by (subst dec.simps) (auto simp: dec.simps [of "n div 10"])

lemma length_pad_2 [simp]: "n < 100 \<Longrightarrow> length (pad 2 (dec n)) = 2"
  using length_dec_small [of n] by (simp add: pad_def)

lemma undec_from_zeros [simp]: "undec_from 0 (replicate k (CHR ''0'') @ s) = undec_from 0 s"
  by (induction k) (simp_all add: digit_val_def)

lemma undec_pad [simp]: "undec (pad w (dec n)) = Some n"
  by (simp add: undec_def pad_def)

end
