(* ===== verification/Float64.thy ===== *)
theory Float64
  imports Prelude Complex_Main "HOL-Library.Log_Nat"
begin

text \<open>
  Go's \<open>float64\<close>, as far as the program computes with it: the conversion from integers, the
  arithmetic operators, \<open>math.Round\<close>, \<open>math.Pow\<close> with an integral exponent, comparisons, and the
  conversion back to \<open>int64\<close>. A finite value is the rational number it denotes, so every
  operator is the exact rational result followed by the one rounding of IEEE 754 (to nearest,
  ties to even, 53 bits, exponents down to \<open>-1074\<close>, overflow to infinity). The two zeros are
  identified: no expression of the program divides by a computed zero of a chosen sign.
  \<open>go_pow\<close> follows the loop of Go's \<open>math.Pow\<close> for an integral exponent. The
  lemmas bound the rounding error and show which values are exact.
\<close>

section \<open>Values and rounding\<close>

datatype float64 = Fin rat | PInf | NInf | NaN

definition pow2 :: "int \<Rightarrow> rat" where
  "pow2 e = (if 0 \<le> e then 2 ^ nat e else 1 / 2 ^ nat (- e))"

text \<open>The binary exponent of a positive rational, \<open>\<lfloor>log\<^sub>2 x\<rfloor>\<close>.\<close>

definition ilog2 :: "rat \<Rightarrow> int" where
  "ilog2 x = (case quotient_of x of (n, d) \<Rightarrow>
     (let k = bitlen n - bitlen d in if pow2 k \<le> x then k else k - 1))"

definition round_even :: "rat \<Rightarrow> int" where
  "round_even x =
     (let f = \<lfloor>x\<rfloor>; r = x - of_int f
      in if r < 1 / 2 then f else if 1 / 2 < r then f + 1 else if even f then f else f + 1)"

definition f64_ulp :: "rat \<Rightarrow> int" where
  "f64_ulp x = max (ilog2 \<bar>x\<bar> - 52) (- 1074)"

definition f64_round :: "rat \<Rightarrow> float64" where
  "f64_round x =
     (if x = 0 then Fin 0
      else let u = pow2 (f64_ulp x); y = of_int (round_even (\<bar>x\<bar> / u)) * u
           in if pow2 1024 \<le> y then (if 0 < x then PInf else NInf)
              else Fin (if x < 0 then - y else y))"

section \<open>Operators\<close>

definition f64_of_int :: "int \<Rightarrow> float64" where
  "f64_of_int n = f64_round (of_int n)"

fun f64_neg :: "float64 \<Rightarrow> float64" where
  "f64_neg (Fin a) = Fin (- a)"
| "f64_neg PInf = NInf"
| "f64_neg NInf = PInf"
| "f64_neg NaN = NaN"

definition f64_inf :: "bool \<Rightarrow> float64" where
  "f64_inf negative = (if negative then NInf else PInf)"

fun f64_negative :: "float64 \<Rightarrow> bool" where
  "f64_negative (Fin a) = (a < 0)"
| "f64_negative PInf = False"
| "f64_negative NInf = True"
| "f64_negative NaN = False"

fun f64_add :: "float64 \<Rightarrow> float64 \<Rightarrow> float64" where
  "f64_add (Fin a) (Fin b) = f64_round (a + b)"
| "f64_add NaN b = NaN"
| "f64_add a NaN = NaN"
| "f64_add PInf NInf = NaN"
| "f64_add NInf PInf = NaN"
| "f64_add PInf b = PInf"
| "f64_add NInf b = NInf"
| "f64_add a b = b"

definition f64_sub :: "float64 \<Rightarrow> float64 \<Rightarrow> float64" where
  "f64_sub a b = f64_add a (f64_neg b)"

fun f64_mul :: "float64 \<Rightarrow> float64 \<Rightarrow> float64" where
  "f64_mul (Fin a) (Fin b) = f64_round (a * b)"
| "f64_mul NaN b = NaN"
| "f64_mul a NaN = NaN"
| "f64_mul a b = (if a = Fin 0 \<or> b = Fin 0 then NaN
     else f64_inf (f64_negative a \<noteq> f64_negative b))"

fun f64_div :: "float64 \<Rightarrow> float64 \<Rightarrow> float64" where
  "f64_div (Fin a) (Fin b) =
     (if b = 0 then (if a = 0 then NaN else f64_inf (a < 0)) else f64_round (a / b))"
| "f64_div NaN b = NaN"
| "f64_div a NaN = NaN"
| "f64_div (Fin a) b = Fin 0"
| "f64_div a (Fin b) = f64_inf (f64_negative a \<noteq> (b < 0))"
| "f64_div a b = NaN"

text \<open>\<open>a \<le> b\<close> and \<open>a < b\<close> of Go; a comparison with NaN is false.\<close>

fun f64_le :: "float64 \<Rightarrow> float64 \<Rightarrow> bool" where
  "f64_le NaN b = False"
| "f64_le a NaN = False"
| "f64_le NInf b = True"
| "f64_le a PInf = True"
| "f64_le (Fin a) (Fin b) = (a \<le> b)"
| "f64_le a b = False"

definition f64_less :: "float64 \<Rightarrow> float64 \<Rightarrow> bool" where
  "f64_less a b \<longleftrightarrow> a \<noteq> NaN \<and> b \<noteq> NaN \<and> \<not> f64_le b a"

section \<open>The \<open>math\<close> package\<close>

text \<open>\<open>math.Round\<close>: to the nearest integer, halves away from zero.\<close>

definition round_away :: "rat \<Rightarrow> int" where
  "round_away x = (if x < 0 then - \<lfloor>- x + 1 / 2\<rfloor> else \<lfloor>x + 1 / 2\<rfloor>)"

fun math_round :: "float64 \<Rightarrow> float64" where
  "math_round (Fin a) = Fin (of_int (round_away a))"
| "math_round x = x"

fun math_abs :: "float64 \<Rightarrow> float64" where
  "math_abs (Fin a) = Fin \<bar>a\<bar>"
| "math_abs NInf = PInf"
| "math_abs x = x"

definition math_max :: "float64 \<Rightarrow> float64 \<Rightarrow> float64" where
  "math_max x y = (if x = PInf \<or> y = PInf then PInf else if x = NaN \<or> y = NaN then NaN
     else if f64_less y x then x else y)"

text \<open>
  The conversion \<open>int64(f)\<close>. Go leaves a value out of range to the implementation; the comments
  of \<open>internal/money/money.go\<close> rely on the result of amd64, \<open>math.MinInt64\<close>.
\<close>

fun f64_to_int64 :: "float64 \<Rightarrow> int" where
  "f64_to_int64 (Fin a) =
     (let n = (if a < 0 then - \<lfloor>- a\<rfloor> else \<lfloor>a\<rfloor>) in if in_i64 n then n else - (2 ^ 63))"
| "f64_to_int64 x = - (2 ^ 63)"

text \<open>
  \<open>math.Pow(x, y)\<close> for a finite positive \<open>x\<close> and an integral \<open>y\<close>: the exponents are collected
  apart from the significands, by repeated squaring, and put together by \<open>math.Ldexp\<close>.
\<close>

definition ldexp :: "float64 \<Rightarrow> int \<Rightarrow> float64" where
  "ldexp x e = (case x of Fin a \<Rightarrow> f64_round (a * pow2 e) | _ \<Rightarrow> x)"

function pow_loop :: "nat \<Rightarrow> float64 \<Rightarrow> int \<Rightarrow> float64 \<Rightarrow> int \<Rightarrow> float64 \<times> int" where
  "pow_loop i a1 ae x1 xe =
     (if i = 0 then (a1, ae)
      else if xe < - 4096 \<or> 4096 < xe then (a1, ae + xe)
      else
        let a1' = (if odd i then f64_mul a1 x1 else a1);
            ae' = (if odd i then ae + xe else ae);
            sq = f64_mul x1 x1
        in if f64_less sq (Fin (1 / 2))
           then pow_loop (i div 2) a1' ae' (f64_add sq sq) (2 * xe - 1)
           else pow_loop (i div 2) a1' ae' sq (2 * xe))"
  by pat_completeness auto
termination
  by (relation "measure (\<lambda>(i, _). i)") auto

declare pow_loop.simps [simp del]

definition go_pow :: "float64 \<Rightarrow> int \<Rightarrow> float64" where
  "go_pow x y =
     (if y = 0 \<or> x = Fin 1 then Fin 1
      else if y = 1 then x
      else case x of
          NaN \<Rightarrow> NaN
        | PInf \<Rightarrow> (if y < 0 then Fin 0 else PInf)
        | NInf \<Rightarrow> (if y < 0 then Fin 0 else f64_inf (odd y))
        | Fin a \<Rightarrow>
            (if a = 0 then (if y < 0 then PInf else Fin 0)
             else
               let xe = ilog2 \<bar>a\<bar> + 1;
                   (a1, ae) = pow_loop (nat \<bar>y\<bar>) (Fin 1) 0 (Fin (a / pow2 xe)) xe
               in if y < 0 then ldexp (f64_div (Fin 1) a1) (- ae) else ldexp a1 ae))"

section \<open>Lemmas\<close>

lemma pow2_pos [simp]: "0 < pow2 e"
  by (simp add: pow2_def)

lemma pow2_nonneg [simp]: "0 \<le> pow2 e"
  using pow2_pos [of e] by linarith

lemma pow2_neq_0 [simp]: "pow2 e \<noteq> 0"
  using pow2_pos [of e] by linarith

lemma pow2_powi: "pow2 e = 2 powi e"
  unfolding pow2_def power_int_def by (simp add: power_one_over)

lemma pow2_add: "pow2 (a + b) = pow2 a * pow2 b"
  by (simp add: pow2_powi power_int_add)

lemma pow2_diff: "pow2 (a - b) = pow2 a / pow2 b"
  by (simp add: pow2_powi power_int_diff)

lemma pow2_mono: "a \<le> b \<Longrightarrow> pow2 a \<le> pow2 b"
  by (simp add: pow2_powi power_int_increasing)

lemma pow2_less_iff: "pow2 a < pow2 b \<longleftrightarrow> a < b"
proof -
  have "pow2 a < pow2 b" if "a < b" for a b
    using that by (simp add: pow2_powi power_int_strict_increasing)
  then show ?thesis using pow2_mono [of b a] by (cases "a < b") auto
qed

lemma pow2_le_iff: "pow2 a \<le> pow2 b \<longleftrightarrow> a \<le> b"
  using pow2_less_iff [of b a] by (simp add: not_less [symmetric])

lemma pow2_nat: "0 \<le> e \<Longrightarrow> pow2 e = of_int (2 ^ nat e)"
  by (simp add: pow2_def)

lemma bitlen_pow2_bounds:
  assumes "0 < n"
  shows "pow2 (bitlen n - 1) \<le> of_int n" "of_int n < pow2 (bitlen n)"
proof -
  from assms have b: "1 \<le> bitlen n"
    using bitlen_nonneg [of n] bitlen_eq_zero_iff [of n] by linarith
  have "2 ^ nat (bitlen n - 1) \<le> n" "n < 2 ^ nat (bitlen n)"
    using bitlen_bounds [OF assms] by blast+
  then have "of_int (2 ^ nat (bitlen n - 1)) \<le> (of_int n :: rat)"
      "(of_int n :: rat) < of_int (2 ^ nat (bitlen n))"
    by (simp_all only: of_int_le_iff of_int_less_iff)
  then show "pow2 (bitlen n - 1) \<le> of_int n" "of_int n < pow2 (bitlen n)"
    using b by (simp_all only: pow2_nat)
qed

lemma ilog2_lower:
  assumes "0 < x"
  shows "pow2 (ilog2 x) \<le> x"
proof -
  obtain n d where q: "quotient_of x = (n, d)" by force
  have x: "x = of_int n / of_int d" and d: "0 < d"
    using quotient_of_div [OF q] quotient_of_denom_pos [OF q] by simp_all
  with assms have n: "0 < n" by (simp add: zero_less_divide_iff)
  have "pow2 (bitlen n - 1) / pow2 (bitlen d) \<le> x"
    unfolding x using bitlen_pow2_bounds [OF d] bitlen_pow2_bounds [OF n] d n
    by (intro frac_le) simp_all
  moreover have "bitlen n - bitlen d - 1 = (bitlen n - 1) - bitlen d" by simp
  ultimately have "pow2 (bitlen n - bitlen d - 1) \<le> x" by (simp only: pow2_diff)
  then show ?thesis by (simp add: ilog2_def q Let_def)
qed

lemma ilog2_le: "0 < x \<Longrightarrow> x \<le> pow2 k \<Longrightarrow> ilog2 x \<le> k"
  using ilog2_lower [of x] by (meson order_trans pow2_le_iff)

lemma ilog2_less: "0 < x \<Longrightarrow> x < pow2 k \<Longrightarrow> ilog2 x < k"
  using ilog2_lower [of x] by (meson order_le_less_trans pow2_less_iff)

lemma round_even_of_int [simp]: "round_even (of_int n) = n"
  by (simp add: round_even_def)

lemma round_even_cases: "round_even x = \<lfloor>x\<rfloor> \<or> round_even x = \<lfloor>x\<rfloor> + 1 \<and> of_int \<lfloor>x\<rfloor> < x"
  unfolding round_even_def Let_def by (auto intro: order_le_neq_trans)

lemma round_even_le: 
  assumes "x \<le> of_int n"
  shows "round_even x \<le> n"
proof -
  have "\<lfloor>x\<rfloor> \<le> n" using floor_mono [OF assms] by simp
  moreover have "\<lfloor>x\<rfloor> < n" if "of_int \<lfloor>x\<rfloor> < x"
    using less_le_trans [OF that assms] by simp
  ultimately show ?thesis using round_even_cases [of x] by auto
qed

lemma round_even_nonneg: "0 \<le> x \<Longrightarrow> 0 \<le> round_even x"
  using round_even_cases [of x] zero_le_floor [of x] by linarith

text \<open>A value no larger than a power of two in range is rounded to one no larger.\<close>

definition f64_within :: "rat \<Rightarrow> float64 \<Rightarrow> bool" where
  "f64_within b x \<longleftrightarrow> (\<exists>a. x = Fin a \<and> 0 \<le> a \<and> a \<le> b)"

lemma f64_round_within:
  assumes "0 \<le> x" "x \<le> pow2 k" "- 1074 \<le> k" "k < 1024"
  shows "f64_within (pow2 k) (f64_round x)"
proof (cases "x = 0")
  case True
  then show ?thesis by (simp add: f64_round_def f64_within_def)
next
  case False
  with assms have x: "0 < x" by simp
  define u where "u = pow2 (f64_ulp x)"
  define y where "y = of_int (round_even (x / u)) * u"
  have u: "0 < u" by (simp add: u_def)
  have le: "f64_ulp x \<le> k"
    using ilog2_le [OF x assms(2)] assms(3) x by (simp add: f64_ulp_def)
  have "x / u \<le> pow2 k / u" using assms(2) u by (simp add: divide_right_mono)
  also have "pow2 k / u = of_int (2 ^ nat (k - f64_ulp x))"
    using le by (simp only: u_def pow2_diff [symmetric] pow2_nat diff_ge_0_iff_ge)
  finally have "round_even (x / u) \<le> 2 ^ nat (k - f64_ulp x)" by (rule round_even_le)
  then have "of_int (round_even (x / u)) \<le> pow2 k / u"
    using \<open>pow2 k / u = _\<close> by (simp only: of_int_le_iff)
  then have "y \<le> pow2 k" using u by (simp add: y_def pos_le_divide_eq)
  moreover have "0 \<le> y"
    using x u round_even_nonneg [of "x / u"] by (simp add: y_def)
  moreover have "pow2 k < pow2 1024" using assms(4) by (simp only: pow2_less_iff)
  ultimately show ?thesis
    using x by (auto simp: f64_round_def f64_within_def u_def [symmetric] y_def [symmetric] Let_def)
qed

text \<open>Multiples of the unit in the last place are exact: integers of at most 53 bits and powers
  of two among them.\<close>

lemma f64_round_exact:
  assumes x: "x = of_int n * pow2 e" and "n \<noteq> 0" and "f64_ulp x \<le> e" and lt: "\<bar>x\<bar> < pow2 1024"
  shows "f64_round x = Fin x"
proof -
  define k where "k = nat (e - f64_ulp x)"
  have e: "pow2 e = pow2 (f64_ulp x) * of_int (2 ^ k)"
    using assms(3) pow2_add [of "f64_ulp x" "e - f64_ulp x"] pow2_nat [of "e - f64_ulp x"]
    by (simp add: k_def)
  have ax: "\<bar>x\<bar> = of_int (\<bar>n\<bar> * 2 ^ k) * pow2 (f64_ulp x)"
    by (subst x) (simp add: e abs_mult)
  then have "\<bar>x\<bar> / pow2 (f64_ulp x) = of_int (\<bar>n\<bar> * 2 ^ k)" by simp
  then have r: "of_int (round_even (\<bar>x\<bar> / pow2 (f64_ulp x))) * pow2 (f64_ulp x) = \<bar>x\<bar>"
    by (simp only: round_even_of_int ax)
  have "x \<noteq> 0" using x assms(2) by simp
  then show ?thesis using lt unfolding f64_round_def Let_def r by simp
qed

lemma f64_round_of_int:
  assumes "\<bar>n\<bar> < 2 ^ 53"
  shows "f64_round (of_int n) = Fin (of_int n)"
proof (cases "n = 0")
  case True
  then show ?thesis by (simp add: f64_round_def)
next
  case False
  let ?x = "of_int n :: rat"
  have x: "0 < \<bar>?x\<bar>" using False by simp
  have "of_int \<bar>n\<bar> < (of_int (2 ^ 53) :: rat)" using assms by (simp only: of_int_less_iff)
  then have lt: "\<bar>?x\<bar> < pow2 53" by (simp add: pow2_def)
  have "pow2 53 < pow2 1024" by (simp only: pow2_less_iff)
  with lt have "\<bar>?x\<bar> < pow2 1024" by linarith
  moreover have "f64_ulp ?x \<le> 0" using ilog2_less [OF x lt] by (simp add: f64_ulp_def)
  ultimately show ?thesis using False by (intro f64_round_exact [of _ n 0]) (simp_all add: pow2_def)
qed

lemma f64_of_int_exact: "\<bar>n\<bar> < 2 ^ 53 \<Longrightarrow> f64_of_int n = Fin (of_int n)"
  by (simp add: f64_of_int_def f64_round_of_int)

lemma f64_round_pow2:
  assumes "- 1074 \<le> k" "k < 1024"
  shows "f64_round (pow2 k) = Fin (pow2 k)"
proof (rule f64_round_exact [of _ 1 k])
  show "f64_ulp (pow2 k) \<le> k" using ilog2_le [of "pow2 k" k] assms(1) by (simp add: f64_ulp_def)
qed (use assms(2) in \<open>simp_all add: pow2_less_iff\<close>)

lemma f64_round_0 [f64_simps]: "f64_round 0 = Fin 0"
  by (simp add: f64_round_def)

lemma f64_round_1 [f64_simps]: "f64_round 1 = Fin 1"
  using f64_round_of_int [of 1] by simp

lemma f64_round_numeral [f64_simps]:
  "numeral k < (9007199254740992 :: int) \<Longrightarrow> f64_round (numeral k) = Fin (numeral k)"
  using f64_round_of_int [of "numeral k"] by simp

lemma f64_within_of_int:
  "0 \<le> n \<Longrightarrow> n \<le> 2 ^ k \<Longrightarrow> k < 1024 \<Longrightarrow> f64_within (pow2 (int k)) (f64_of_int n)"
  unfolding f64_of_int_def
  by (rule f64_round_within) (simp_all add: pow2_nat del: of_int_power)

lemma f64_within_mul:
  assumes "f64_within (pow2 j) x" "f64_within (pow2 k) y" "- 1074 \<le> j + k" "j + k < 1024"
  shows "f64_within (pow2 (j + k)) (f64_mul x y)"
proof -
  obtain a b where "x = Fin a" "0 \<le> a" "a \<le> pow2 j" "y = Fin b" "0 \<le> b" "b \<le> pow2 k"
    using assms(1,2) by (auto simp: f64_within_def)
  moreover from calculation have "a * b \<le> pow2 (j + k)" by (simp add: pow2_add mult_mono)
  ultimately show ?thesis using assms(3,4) by (simp add: f64_round_within)
qed

lemma f64_within_div:
  assumes "f64_within (pow2 j) x" "pow2 k \<le> b" "- 1074 \<le> j - k" "j - k < 1024"
  shows "f64_within (pow2 (j - k)) (f64_div x (Fin b))"
proof -
  obtain a where "x = Fin a" "0 \<le> a" "a \<le> pow2 j" using assms(1) by (auto simp: f64_within_def)
  moreover have "0 < b" using assms(2) pow2_pos [of k] by linarith
  moreover from calculation have "a / b \<le> pow2 (j - k)"
    unfolding pow2_diff using assms(2) by (intro frac_le) simp_all
  ultimately show ?thesis using assms(3,4) by (simp add: f64_round_within)
qed

lemma f64_within_to_int64:
  assumes "f64_within (pow2 (int k)) x" "k < 63"
  shows "0 \<le> f64_to_int64 (math_round x) \<and> f64_to_int64 (math_round x) \<le> 2 ^ k"
proof -
  obtain a where x: "x = Fin a" "0 \<le> a" "a \<le> of_int (2 ^ k)"
    using assms(1) by (auto simp: f64_within_def pow2_nat)
  define n where "n = \<lfloor>a + 1 / 2\<rfloor>"
  have "n \<le> 2 ^ k" using x(3) unfolding n_def by (simp add: floor_le_iff del: of_int_power)
  moreover have "0 \<le> n" using x(2) by (simp add: n_def)
  moreover have "(2 :: int) ^ k \<le> 2 ^ 62" using assms(2) by (intro power_increasing) simp_all
  moreover have "math_round x = Fin (of_int n)" using x(1,2) by (simp add: round_away_def n_def)
  ultimately show ?thesis by (simp add: in_i64_def)
qed

lemma f64_ulp_minus [simp]: "f64_ulp (- x) = f64_ulp x"
  by (simp add: f64_ulp_def)

lemma f64_round_minus: "f64_round (- x) = f64_neg (f64_round x)"
proof (cases "x = 0")
  case False
  then have "(0 < - x) = (\<not> 0 < x)" "(- x < 0) = (\<not> x < 0)" by auto
  then show ?thesis
    using False unfolding f64_round_def Let_def by (simp del: neg_0_less_iff_less neg_less_0_iff_less)
qed (simp add: f64_round_def)

lemma round_even_ge: "of_int n \<le> x \<Longrightarrow> n \<le> round_even x"
  using round_even_cases [of x] le_floor_iff [of n x] by linarith

text \<open>Rounding does not cross an integer from above, below \<open>2\<^sup>5\<^sup>3\<close>.\<close>

lemma f64_round_ge_int:
  assumes "0 \<le> n" "of_int n \<le> x" "x < pow2 53"
  shows "\<exists>y. f64_round x = Fin y \<and> of_int n \<le> y \<and> y \<le> pow2 53"
proof (cases "x = 0")
  case True
  then show ?thesis using assms by (auto simp: f64_round_def)
next
  case False
  moreover have "0 \<le> (of_int n :: rat)" using assms(1) by simp
  ultimately have x: "0 < x" using assms(2) by linarith
  have le: "f64_ulp x \<le> 0" using ilog2_less [OF x assms(3)] x by (simp add: f64_ulp_def)
  define k where "k = nat (- f64_ulp x)"
  have u: "pow2 (f64_ulp x) = 1 / 2 ^ k" using le by (simp add: pow2_def k_def)
  obtain y where y: "f64_round x = Fin y" "y \<le> pow2 53"
    using f64_round_within [of x 53] assms(3) x by (auto simp: f64_within_def)
  have "of_int (n * 2 ^ k) \<le> x / pow2 (f64_ulp x)" using assms(2) by (simp add: u)
  then have "n * 2 ^ k \<le> round_even (x / pow2 (f64_ulp x))" by (rule round_even_ge)
  then have "of_int (n * 2 ^ k) * pow2 (f64_ulp x)
      \<le> of_int (round_even (x / pow2 (f64_ulp x))) * pow2 (f64_ulp x)"
    by (intro mult_right_mono) (simp_all only: of_int_le_iff pow2_nonneg)
  also have "of_int (n * 2 ^ k) * pow2 (f64_ulp x) = of_int n" by (simp add: u)
  finally have "of_int n \<le> y"
    using y(1) x by (auto simp: f64_round_def Let_def split: if_splits)
  then show ?thesis using y by blast
qed

lemma f64_round_half [f64_simps]: "f64_round (1 / 2) = Fin (1 / 2)"
  using f64_round_pow2 [of "- 1"] by (simp add: pow2_def)

lemma ilog2_pow2:
  assumes "0 \<le> k"
  shows "ilog2 (pow2 k) = k"
proof -
  have x: "pow2 k = of_int (2 ^ nat k)" using assms by (rule pow2_nat)
  have "pow2 (bitlen (2 ^ nat k) - 1) \<le> pow2 k" "pow2 k < pow2 (bitlen (2 ^ nat k))"
    using bitlen_pow2_bounds [of "2 ^ nat k"] unfolding x by simp_all
  then have "bitlen (2 ^ nat k) = k + 1" by (simp add: pow2_le_iff pow2_less_iff)
  moreover have "quotient_of (pow2 k) = (2 ^ nat k, 1)" unfolding x Rat.of_int_def [symmetric] by (rule quotient_of_int)
  moreover have "pow2 (bitlen 1 - 1) \<le> pow2 0" "pow2 0 < pow2 (bitlen 1)"
    using bitlen_pow2_bounds [of 1] by (simp_all add: pow2_def [of 0])
  then have "bitlen (1 :: int) = 1" by (simp only: pow2_le_iff pow2_less_iff)
  ultimately show ?thesis by (simp add: ilog2_def Let_def)
qed

lemma f64_round_overflow:
  assumes "1024 \<le> k"
  shows "f64_round (pow2 k) = PInf"
proof -
  have u: "f64_ulp (pow2 k) = k - 52" using assms by (simp add: f64_ulp_def ilog2_pow2)
  have "pow2 k / pow2 (k - 52) = of_int (2 ^ 52)" by (simp add: pow2_diff) (simp add: pow2_def)
  then have "of_int (round_even (pow2 k / pow2 (k - 52))) * pow2 (k - 52) = pow2 k"
    by (simp only: round_even_of_int) (simp add: pow2_diff pow2_def [of 52])
  moreover have "pow2 1024 \<le> pow2 k" using assms by (simp only: pow2_le_iff)
  ultimately show ?thesis by (simp add: f64_round_def Let_def u)
qed

lemma f64_round_fractions:
  "f64_round (1 / 4) = Fin (1 / 4)" "f64_round (1 / 8) = Fin (1 / 8)"
  using f64_round_pow2 [of "- 2"] f64_round_pow2 [of "- 3"] by (simp_all add: pow2_def)

end
