(* ===== verification/Money.thy ===== *)
theory Money
  imports Go_Text Float64
begin

text \<open>
  Package \<open>money\<close> (\<open>backend/internal/money/money.go\<close>): an amount is an \<open>int64\<close> of minor units.
  An \<open>amount\<close> of the model is the integer it holds, and \<open>in_i64\<close> says that it fits; where the
  code negates an \<open>int64\<close> or reads it through \<open>uint64\<close>, the wrap-around is written out.
  \<open>Amount_String\<close>, \<open>Parse\<close>, \<open>FromFloat\<close>, \<open>UnmarshalJSON\<close> and \<open>Scan\<close> follow the functions of the same
  name branch by branch. Errors are values of \<open>money_error\<close>, one constructor per message.
\<close>

type_synonym amount = int

datatype money_error =
  EmptyAmount | InvalidAmount string | TooManyDecimals string | AmountOutOfRange string
  | ScanningBytes | ScanningString | UnsupportedScanType

definition MaxMinorUnits :: amount where
  "MaxMinorUnits = 2 ^ 62"

definition FromFloat :: "float64 \<Rightarrow> amount" where
  "FromFloat f = f64_to_int64 (math_round (f64_mul f (Fin 100)))"

definition Float64_of :: "amount \<Rightarrow> float64" where
  "Float64_of a = f64_div (f64_of_int a) (Fin 100)"

definition Abs_amount :: "amount \<Rightarrow> amount" where
  "Abs_amount a = (if a < 0 then i64 (- a) else a)"

text \<open>\<open>Amount.String\<close>: the magnitude is taken through \<open>uint64\<close>.\<close>

definition u64 :: "int \<Rightarrow> int" where
  "u64 n = n mod 2 ^ 64"

definition Amount_String :: "amount \<Rightarrow> string" where
  "Amount_String a =
     (let n = a;
          sign = (if n < 0 then ''-'' else []);
          units = (if n < 0 then u64 (- u64 n) else u64 n)
      in sign @ dec (nat (units div 100)) @ ''.'' @ pad 2 (dec (nat (units mod 100))))"

definition Parse :: "string \<Rightarrow> money_error + amount" where
  "Parse s0 =
     (let raw = trim_space s0 in
      if raw = [] then Inl EmptyAmount
      else
        let (neg, s) = (if hd raw = CHR ''-'' then (True, tl raw)
                        else if hd raw = CHR ''+'' then (False, tl raw) else (False, raw)) in
        if CHR ''+'' \<in> set s \<or> CHR ''-'' \<in> set s then Inl (InvalidAmount raw)
        else
          let (intPart, fracPart, hasFrac) = cut (CHR ''.'') s in
          if intPart = [] then Inl (InvalidAmount raw)
          else case parse_int64 intPart of
              None \<Rightarrow> Inl (InvalidAmount raw)
            | Some whole \<Rightarrow>
                (let frac = (if hasFrac then
                     (if fracPart = [] then Inl (InvalidAmount raw)
                      else if length fracPart > 2 then Inl (TooManyDecimals raw)
                      else case parse_int64 (fracPart @ replicate (2 - length fracPart) (CHR ''0'')) of
                          None \<Rightarrow> Inl (InvalidAmount raw) | Some f \<Rightarrow> Inr f)
                   else Inr 0)
                 in case frac of Inl e \<Rightarrow> Inl e
                    | Inr f \<Rightarrow>
                        if whole > go_div (MaxMinorUnits - f) 100 then Inl (AmountOutOfRange raw)
                        else let total = i64 (whole * 100 + f)
                             in Inr (if neg then i64 (- total) else total)))"

text \<open>
  The bound both float boundaries enforce before converting: NaN, the infinities and a magnitude
  above \<open>MaxMinorUnits\<close> are refused.
\<close>

definition cents_of_float :: "string \<Rightarrow> float64 \<Rightarrow> money_error + amount" where
  "cents_of_float s f =
     (let cents = math_round (f64_mul f (Fin 100)) in
      if cents = NaN \<or> cents = PInf \<or> cents = NInf
         \<or> f64_less (f64_of_int MaxMinorUnits) (math_abs cents)
      then Inl (AmountOutOfRange s) else Inr (f64_to_int64 cents))"

text \<open>
  \<open>UnmarshalJSON\<close>, with \<open>strconv.ParseFloat\<close> as the argument \<open>parse_float\<close>. \<open>trim_quotes\<close> is
  \<open>strings.Trim(s, "\"")\<close>.
\<close>

definition trim_quotes :: "string \<Rightarrow> string" where
  "trim_quotes s = rev (dropWhile (\<lambda>c. c = CHR 34) (rev (dropWhile (\<lambda>c. c = CHR 34) s)))"

definition UnmarshalJSON :: "(string \<Rightarrow> float64 option) \<Rightarrow> string \<Rightarrow> money_error + amount" where
  "UnmarshalJSON parse_float b =
     (let s = trim_space b in
      if s = ''null'' then Inr 0
      else let s = trim_quotes s in
        if s = [] then Inl EmptyAmount
        else case parse_float s of None \<Rightarrow> Inl (InvalidAmount s) | Some f \<Rightarrow> cents_of_float s f)"

text \<open>\<open>Scan\<close>, with \<open>strconv.FormatFloat(v, 'g', -1, 64)\<close> (used in a message) as the argument \<open>fmt\<close>.\<close>

datatype sql_value =
  SqlNull | SqlInt64 int | SqlInt32 int | SqlInt int | SqlBytes string | SqlString string
  | SqlFloat float64 | SqlOther

fun Scan :: "(float64 \<Rightarrow> string) \<Rightarrow> sql_value \<Rightarrow> money_error + amount" where
  "Scan fmt SqlNull = Inr 0"
| "Scan fmt (SqlInt64 v) = Inr v"
| "Scan fmt (SqlInt32 v) = Inr v"
| "Scan fmt (SqlInt v) = Inr v"
| "Scan fmt (SqlBytes v) = (case parse_int64 v of None \<Rightarrow> Inl ScanningBytes | Some n \<Rightarrow> Inr n)"
| "Scan fmt (SqlString v) = (case parse_int64 v of None \<Rightarrow> Inl ScanningString | Some n \<Rightarrow> Inr n)"
| "Scan fmt (SqlFloat v) = cents_of_float (fmt v) v"
| "Scan fmt SqlOther = Inl UnsupportedScanType"

section \<open>Lemmas\<close>

lemma magnitude_u64:
  "in_i64 a \<Longrightarrow> (if a < 0 then u64 (- u64 a) else u64 a) = \<bar>a\<bar>"
  by (simp add: u64_def in_i64_def mod_minus_eq)

lemma Amount_String_eq:
  assumes "in_i64 a"
  shows "Amount_String a = (if a < 0 then ''-'' else []) @ dec (nat (\<bar>a\<bar> div 100)) @ ''.''
     @ pad 2 (dec (nat (\<bar>a\<bar> mod 100)))"
  unfolding Amount_String_def Let_def magnitude_u64 [OF assms] ..

lemma set_Amount_String_body [simp]:
  "c \<noteq> CHR ''0'' \<Longrightarrow> c \<noteq> CHR ''.'' \<Longrightarrow> (\<And>n. c \<notin> set (dec n)) \<Longrightarrow>
    c \<notin> set (dec k @ ''.'' @ pad 2 (dec l))"
  by (auto simp: pad_def)

lemma hd_dec_digit: "\<exists>k < 10. hd (dec n @ s) = digit k"
  using set_dec [of "hd (dec n)" n] by simp

lemma last_pad_digit: "n < 100 \<Longrightarrow> \<exists>k < 10. last (s @ pad 2 (dec n)) = digit k"
  using set_dec [of "last (dec n)" n] by (simp add: pad_def)

lemma trim_Amount_String [simp]: "in_i64 a \<Longrightarrow> trim_space (Amount_String a) = Amount_String a"
proof (rule trim_space_id)
  assume a: "in_i64 a"
  let ?k = "nat (\<bar>a\<bar> div 100)" and ?l = "nat (\<bar>a\<bar> mod 100)"
  have l: "?l < 100" by simp
  have "\<not> is_space (hd (Amount_String a))"
  proof (cases "a < 0")
    case True
    then show ?thesis by (simp add: Amount_String_eq [OF a] is_space_def)
  next
    case False
    then have "hd (Amount_String a) = hd (dec ?k @ ''.'' @ pad 2 (dec ?l))"
      unfolding Amount_String_eq [OF a] by simp
    then show ?thesis using hd_dec_digit [of ?k "''.'' @ pad 2 (dec ?l)"] digit_not_space by metis
  qed
  moreover have "\<not> is_space (last (Amount_String a))"
    using last_pad_digit [OF l, of "(if a < 0 then ''-'' else []) @ dec ?k @ ''.''"]
    by (metis Amount_String_eq [OF a] append_assoc digit_not_space)
  ultimately show "Amount_String a = [] \<or> \<not> is_space (hd (Amount_String a))
     \<and> \<not> is_space (last (Amount_String a))" by blast
qed

lemma parse_int64_dec: "in_i64 (int n) \<Longrightarrow> parse_int64 (dec n) = Some (int n)"
  by (simp add: parse_int64_unsigned)

lemma parse_int64_pad: "n < 100 \<Longrightarrow> parse_int64 (pad 2 (dec n)) = Some (int n)"
  by (simp add: parse_int64_unsigned in_i64_def)

lemma Parse_body:
  assumes "in_i64 (int k)" "l < 100" "raw = sg @ dec k @ ''.'' @ pad 2 (dec l)"
    and "trim_space raw = raw" and "sg = [] \<or> sg = ''-''"
  shows "Parse raw = (if int k > go_div (MaxMinorUnits - int l) 100 then Inl (AmountOutOfRange raw)
     else Inr (if sg = ''-'' then i64 (- i64 (int k * 100 + int l)) else i64 (int k * 100 + int l)))"
proof -
  let ?b = "dec k @ ''.'' @ pad 2 (dec l)"
  have ns: "CHR ''+'' \<notin> set ?b" "CHR ''-'' \<notin> set ?b" by (rule set_Amount_String_body; simp)+
  have cut: "cut (CHR ''.'') ?b = (dec k, pad 2 (dec l), True)" by simp
  have sg: "(if hd raw = CHR ''-'' then (True, tl raw)
        else if hd raw = CHR ''+'' then (False, tl raw) else (False, raw)) = (sg = ''-'', ?b)"
    using assms(5) hd_dec_digit [of k "''.'' @ pad 2 (dec l)"]
    by (auto simp: assms(3))
  have ne: "raw \<noteq> []" "pad 2 (dec l) \<noteq> []" by (simp_all add: assms(3) pad_def)
  show ?thesis
    unfolding Parse_def Let_def assms(4) sg split_conv
    by (simp only: ns ne cut if_False if_True simp_thms split_conv dec_not_Nil option.case
        parse_int64_dec [OF assms(1)] length_pad_2 [OF assms(2)] sum.case)
       (simp add: parse_int64_pad [OF assms(2)])
qed

lemma units_bound:
  "in_i64 a \<Longrightarrow> in_i64 (\<bar>a\<bar> div 100)" "in_i64 a \<Longrightarrow> 0 \<le> \<bar>a\<bar> div 100"
  by (auto simp: in_i64_def pos_imp_zdiv_nonneg_iff)

lemma div_100_less: "(a :: int) div 100 < w \<longleftrightarrow> a < w * 100"
  using div_mult_mod_eq [of a 100] pos_mod_bound [of 100 a] pos_mod_sign [of 100 a]
  by (intro iffI; linarith)

lemma over_the_bound:
  assumes "0 \<le> f" "f < 100"
  shows "w > go_div (MaxMinorUnits - f) 100 \<longleftrightarrow> w * 100 + f > MaxMinorUnits"
proof -
  have "0 \<le> MaxMinorUnits - f" using assms by (simp add: MaxMinorUnits_def)
  then have "w > go_div (MaxMinorUnits - f) 100 \<longleftrightarrow> (MaxMinorUnits - f) div 100 < w"
    by (simp add: go_div_nonneg)
  also have "\<dots> \<longleftrightarrow> MaxMinorUnits - f < w * 100" by (rule div_100_less)
  finally show ?thesis by auto
qed

section \<open>Properties\<close>

lemma Parse_Amount_String:
  assumes "in_i64 a"
  shows "Parse (Amount_String a) =
    (if \<bar>a\<bar> \<le> MaxMinorUnits then Inr a else Inl (AmountOutOfRange (Amount_String a)))"
proof -
  let ?k = "nat (\<bar>a\<bar> div 100)" and ?l = "nat (\<bar>a\<bar> mod 100)"
  have "0 \<le> \<bar>a\<bar> div 100" by (rule units_bound(2) [OF assms])
  then have l: "?l < 100" and kl: "int ?k * 100 + int ?l = \<bar>a\<bar>" by simp_all
  have p: "Parse (Amount_String a) =
      (if int ?k > go_div (MaxMinorUnits - int ?l) 100 then Inl (AmountOutOfRange (Amount_String a))
       else Inr (if (if a < 0 then ''-'' else []) = ''-''
                 then i64 (- i64 (int ?k * 100 + int ?l)) else i64 (int ?k * 100 + int ?l)))"
    by (rule Parse_body [OF _ l Amount_String_eq [OF assms] trim_Amount_String [OF assms]])
       (use units_bound [OF assms] in auto)
  have "int ?k > go_div (MaxMinorUnits - int ?l) 100 \<longleftrightarrow> \<bar>a\<bar> > MaxMinorUnits"
    using over_the_bound [of "int ?l" "int ?k"] l kl by simp
  moreover have "i64 \<bar>a\<bar> = \<bar>a\<bar>" if "\<bar>a\<bar> \<le> MaxMinorUnits"
    using that by (intro i64_id) (simp add: in_i64_def MaxMinorUnits_def)
  moreover have "i64 (- \<bar>a\<bar>) = - \<bar>a\<bar>" if "\<bar>a\<bar> \<le> MaxMinorUnits"
    using that by (intro i64_id) (simp add: in_i64_def MaxMinorUnits_def)
  ultimately show ?thesis unfolding p kl by auto
qed

text \<open>C30. Printing and parsing an amount agree: for every stored \<open>int64\<close>, parsing its rendering
  gives the amount back when its magnitude is within \<open>MaxMinorUnits\<close>, and is refused as out of
  range (never wrapped) when it is not, down to \<open>math.MinInt64\<close>.\<close>

theorem Parse_of_String:
  assumes "in_i64 a"
  shows "Parse (Amount_String a) =
    (if \<bar>a\<bar> \<le> MaxMinorUnits then Inr a else Inl (AmountOutOfRange (Amount_String a)))"
  by (rule Parse_Amount_String [OF assms])

theorem Parse_of_String_witness:
  "Parse (Amount_String (- 125050)) = Inr (- 125050)
   \<and> Parse (Amount_String (- (2 ^ 63))) = Inl (AmountOutOfRange (Amount_String (- (2 ^ 63))))"
  using Parse_of_String [of "- 125050"] Parse_of_String [of "- (2 ^ 63)"]
  by (simp add: in_i64_def MaxMinorUnits_def)

lemma parse_int64_nonneg:
  assumes "CHR ''-'' \<notin> set s" "CHR ''+'' \<notin> set s" "parse_int64 s = Some v"
  shows "0 \<le> v \<and> v < 10 ^ length s"
proof -
  from assms obtain n where n: "undec s = Some n" "v = int n"
    by (auto simp: parse_int64_unsigned split: option.splits if_splits)
  then have "n < 10 ^ length s" using undec_from_bound [of 0 s n] by (simp add: undec_def split: if_splits)
  then show ?thesis using n by simp
qed

lemma set_cut: "cut c s = (a, b, f) \<Longrightarrow> set a \<subseteq> set s \<and> set b \<subseteq> set s"
  by (induction s arbitrary: a) (auto split: prod.splits if_splits)

text \<open>No string makes \<open>Parse\<close> produce an amount outside the supported range: whatever the
  input, an accepted amount has magnitude at most \<open>MaxMinorUnits\<close>, so \<open>whole * 100 + fraction\<close>
  never wrapped.\<close>

theorem Parse_bounded:
  assumes "Parse s = Inr a"
  shows "\<bar>a\<bar> \<le> MaxMinorUnits"
proof -
  define raw where "raw = trim_space s"
  obtain neg t where sg: "(if hd raw = CHR ''-'' then (True, tl raw)
      else if hd raw = CHR ''+'' then (False, tl raw) else (False, raw)) = (neg, t)" by force
  obtain ip fp hf where c: "cut (CHR ''.'') t = (ip, fp, hf)" by (cases "cut (CHR ''.'') t") auto
  have t: "CHR ''+'' \<notin> set t" "CHR ''-'' \<notin> set t" "raw \<noteq> []" "ip \<noteq> []"
    using assms by (auto simp: Parse_def Let_def raw_def [symmetric] sg c split: if_splits)
  obtain w where w: "parse_int64 ip = Some w"
    using assms t by (auto simp: Parse_def Let_def raw_def [symmetric] sg c split: option.splits)
  have "0 \<le> w"
    using parse_int64_nonneg [OF _ _ w] set_cut [OF c] t by blast
  let ?fp = "fp @ replicate (2 - length fp) (CHR ''0'')"
  obtain f where f: "f = 0 \<and> \<not> hf \<or> parse_int64 ?fp = Some f \<and> length fp \<le> 2 \<and> hf"
    and r: "\<not> w > go_div (MaxMinorUnits - f) 100"
      "a = (if neg then i64 (- i64 (w * 100 + f)) else i64 (w * 100 + f))"
    using assms t w
    by (auto simp: Parse_def Let_def raw_def [symmetric] sg c not_less
        split: if_splits option.splits sum.splits)
  have "0 \<le> f \<and> f < 100"
  proof (cases hf)
    case True
    with f have "parse_int64 ?fp = Some f" "length ?fp = 2" by auto
    moreover have "CHR ''-'' \<notin> set ?fp" "CHR ''+'' \<notin> set ?fp" using set_cut [OF c] t by auto
    ultimately show ?thesis using parse_int64_nonneg [of ?fp f] by simp
  next
    case False
    with f show ?thesis by simp
  qed
  then have "w * 100 + f \<le> MaxMinorUnits" using over_the_bound [of f w] r(1) by simp
  moreover from this \<open>0 \<le> w\<close> \<open>0 \<le> f \<and> f < 100\<close>
  have "i64 (w * 100 + f) = w * 100 + f" "i64 (- (w * 100 + f)) = - (w * 100 + f)"
    by (auto intro!: i64_id simp: in_i64_def MaxMinorUnits_def)
  ultimately show ?thesis
    using r(2) \<open>0 \<le> w\<close> \<open>0 \<le> f \<and> f < 100\<close> by (auto simp: algebra_simps)
qed

theorem Parse_bounded_witness:
  "Parse (Amount_String (2 ^ 62)) = Inr (2 ^ 62) \<and> \<bar>2 ^ 62\<bar> \<le> MaxMinorUnits"
proof -
  have p: "Parse (Amount_String (2 ^ 62)) = Inr (2 ^ 62)"
    using Parse_Amount_String [of "2 ^ 62"] by (simp add: in_i64_def MaxMinorUnits_def)
  show ?thesis using p Parse_bounded [OF p] by blast
qed

lemma f64_MaxMinorUnits: "f64_of_int MaxMinorUnits = Fin (2 ^ 62)"
  using f64_round_pow2 [of 62] by (simp add: f64_of_int_def MaxMinorUnits_def pow2_def)

text \<open>The float boundaries never wrap: when \<open>UnmarshalJSON\<close> accepts a number, whatever
  \<open>strconv.ParseFloat\<close> makes of the text, the stored amount is exactly the rounded number of cents
  and its magnitude is at most \<open>MaxMinorUnits\<close>; NaN, the infinities and every larger value are
  refused.\<close>

theorem UnmarshalJSON_exact:
  assumes "UnmarshalJSON parse_float b = Inr a"
  shows "\<bar>a\<bar> \<le> MaxMinorUnits \<and> (a = 0 \<or> (\<exists>f. parse_float (trim_quotes (trim_space b)) = Some f
     \<and> math_round (f64_mul f (Fin 100)) = Fin (of_int a)))"
proof (cases "trim_space b = ''null''")
  case True
  with assms show ?thesis by (simp add: UnmarshalJSON_def MaxMinorUnits_def)
next
  case False
  with assms obtain f where f: "parse_float (trim_quotes (trim_space b)) = Some f"
    and c: "cents_of_float (trim_quotes (trim_space b)) f = Inr a"
    by (auto simp: UnmarshalJSON_def Let_def split: if_splits option.splits)
  from c obtain x where x: "math_round (f64_mul f (Fin 100)) = Fin x"
      "\<not> f64_less (f64_of_int MaxMinorUnits) (Fin \<bar>x\<bar>)" "a = f64_to_int64 (Fin x)"
    by (cases "math_round (f64_mul f (Fin 100))")
       (auto simp: cents_of_float_def Let_def split: if_splits)
  from x(1) obtain n where n: "x = of_int n"
    by (cases "f64_mul f (Fin 100)") auto
  have "\<bar>x\<bar> \<le> of_int (2 ^ 62)" using x(2) by (simp add: f64_MaxMinorUnits f64_less_def)
  then have b: "\<bar>n\<bar> \<le> 2 ^ 62" unfolding n by (simp only: of_int_abs [symmetric] of_int_le_iff)
  then have "a = n" using x(3) n by (auto simp: in_i64_def Let_def ceiling_def [symmetric])
  with b x(1) n f show ?thesis by (auto simp: MaxMinorUnits_def)
qed

theorem UnmarshalJSON_exact_witness:
  "UnmarshalJSON (\<lambda>s. if s = ''12.5'' then Some (Fin (25 / 2)) else None) ''12.5'' = Inr 1250
   \<and> \<bar>1250\<bar> \<le> MaxMinorUnits"
proof -
  have "trim_space ''12.5'' = ''12.5''" "trim_quotes ''12.5'' = ''12.5''"
    by (simp_all add: trim_space_def trim_quotes_def is_space_def)
  then have u: "UnmarshalJSON (\<lambda>s. if s = ''12.5'' then Some (Fin (25 / 2)) else None) ''12.5''
      = Inr 1250"
    by (simp add: UnmarshalJSON_def cents_of_float_def f64_simps round_away_def f64_MaxMinorUnits
        f64_less_def in_i64_def floor_eq_iff)
  show ?thesis using u UnmarshalJSON_exact [OF u] by blast
qed

end
