(* ===== verification/Civil_Date.thy ===== *)
theory Civil_Date
  imports Prelude
begin

text \<open>
  Calendar days. The code handles dates as \<open>time.Time\<close> values at midnight UTC: every one comes
  from a \<open>DATE\<close> column, from \<open>time.Parse("2006-01-02", ...)\<close> or from \<open>dateOnly\<close>. A day is
  modelled by its number, with 0 for 0001-01-01, Go's zero time. \<open>time_date\<close> is
  \<open>time.Date(y, m, d, 0, 0, 0, 0, time.UTC)\<close> with Go's normalisation of months and days out of
  range, and \<open>year_of\<close>, \<open>month_of\<close>, \<open>day_of\<close> are the accessors. The lemmas show that the
  accessors and \<open>time_date\<close> are inverse to one another and that day numbers are ordered as
  dates are.
\<close>

section \<open>The proleptic Gregorian calendar\<close>

definition is_leap :: "int \<Rightarrow> bool" where
  "is_leap y \<longleftrightarrow> y mod 4 = 0 \<and> (y mod 100 \<noteq> 0 \<or> y mod 400 = 0)"

definition leap_day :: "int \<Rightarrow> int" where
  "leap_day y = (if is_leap y then 1 else 0)"

definition days_before_year :: "int \<Rightarrow> int" where
  "days_before_year y = 365 * (y - 1) + (y - 1) div 4 - (y - 1) div 100 + (y - 1) div 400"

definition days_before_month :: "int \<Rightarrow> int \<Rightarrow> int" where
  "days_before_month l m =
     (if m \<le> 1 then 0 else if m = 2 then 31 else if m = 3 then 59 + l else if m = 4 then 90 + l
      else if m = 5 then 120 + l else if m = 6 then 151 + l else if m = 7 then 181 + l
      else if m = 8 then 212 + l else if m = 9 then 243 + l else if m = 10 then 273 + l
      else if m = 11 then 304 + l else if m = 12 then 334 + l else 365 + l)"

definition month_in_year :: "int \<Rightarrow> int \<Rightarrow> int" where
  "month_in_year l r =
     (if r < 31 then 1 else if r < 59 + l then 2 else if r < 90 + l then 3
      else if r < 120 + l then 4 else if r < 151 + l then 5 else if r < 181 + l then 6
      else if r < 212 + l then 7 else if r < 243 + l then 8 else if r < 273 + l then 9
      else if r < 304 + l then 10 else if r < 334 + l then 11 else 12)"

text \<open>The year of a day number: an estimate from the mean year length, corrected by one.\<close>

definition year_of :: "date \<Rightarrow> int" where
  "year_of n =
     (let y = (400 * n) div 146097 + 1
      in if n < days_before_year y then y - 1
         else if days_before_year (y + 1) \<le> n then y + 1 else y)"

definition month_of :: "date \<Rightarrow> int" where
  "month_of n = month_in_year (leap_day (year_of n)) (n - days_before_year (year_of n))"

definition day_of :: "date \<Rightarrow> int" where
  "day_of n = n - days_before_year (year_of n)
     - days_before_month (leap_day (year_of n)) (month_of n) + 1"

text \<open>\<open>time.Date\<close>: months outside 1..12 carry into the year, days outside the month into it.\<close>

definition time_date :: "int \<Rightarrow> int \<Rightarrow> int \<Rightarrow> date" where
  "time_date y m d =
     (let y' = y + (m - 1) div 12; m' = (m - 1) mod 12 + 1
      in days_before_year y' + days_before_month (leap_day y') m' + (d - 1))"

text \<open>\<open>t.AddDate(years, months, days)\<close>.\<close>

definition add_date :: "date \<Rightarrow> int \<Rightarrow> int \<Rightarrow> int \<Rightarrow> date" where
  "add_date t ys ms ds = time_date (year_of t + ys) (month_of t + ms) (day_of t + ds)"

text \<open>The number of days of a month of a year.\<close>

definition month_length :: "int \<Rightarrow> int \<Rightarrow> int" where
  "month_length y m = days_before_month (leap_day y) (m + 1) - days_before_month (leap_day y) m"

section \<open>Helpers of \<open>handlers/transaction_summary.go\<close>\<close>

definition dateOnly :: "date \<Rightarrow> date" where
  "dateOnly t = time_date (year_of t) (month_of t) (day_of t)"

definition daysInMonth :: "int \<Rightarrow> int \<Rightarrow> int" where
  "daysInMonth y m = day_of (time_date y (m + 1) 0)"

definition billingDateInMonth :: "date \<Rightarrow> int \<Rightarrow> date" where
  "billingDateInMonth t day =
     (let y = year_of t; m = month_of t;
          day' = (if day > daysInMonth y m then daysInMonth y m else day)
      in time_date y m day')"

section \<open>Lemmas\<close>

lemma leap_day_range: "0 \<le> leap_day y" "leap_day y \<le> 1"
  by (simp_all add: leap_day_def)

lemma div_step: "0 < k \<Longrightarrow> y div k = (y - 1) div k + (if y mod k = 0 then 1 else (0 :: int))"
proof (cases "y mod k = 0")
  case True
  assume "0 < k"
  from True obtain q where "y = k * q" by auto
  moreover from this \<open>0 < k\<close> have "(y - 1) div k = q - 1"
    by (intro int_div_pos_eq [of _ _ _ "k - 1"]) (simp_all add: algebra_simps)
  ultimately show ?thesis using \<open>0 < k\<close> by simp
next
  case False
  assume "0 < k"
  then have "0 < y mod k" "y mod k < k"
    using False pos_mod_bound [of k y] pos_mod_sign [of k y] by linarith+
  then have "(y - 1) div k = y div k"
    by (intro int_div_pos_eq [of _ _ _ "y mod k - 1"]) (simp_all add: algebra_simps)
  then show ?thesis using False by simp
qed

lemma leap_day_count:
  "leap_day y = (if y mod 4 = 0 then 1 else 0) - (if y mod 100 = 0 then 1 else 0)
     + (if y mod 400 = 0 then 1 else 0)"
proof -
  have "100 dvd y" if "400 dvd y" by (rule dvd_trans [OF _ that]) simp
  moreover have "4 dvd y" if "100 dvd y" by (rule dvd_trans [OF _ that]) simp
  ultimately show ?thesis
    unfolding leap_day_def is_leap_def mod_eq_0_iff_dvd by (cases "4 dvd y"; cases "100 dvd y"; cases "400 dvd y") simp_all
qed

lemma days_before_year_Suc: "days_before_year (y + 1) = days_before_year y + 365 + leap_day y"
proof -
  have sum: "365 * y + A - B + C = 365 * (y - 1) + a - b + c + 365 + (i - j + k)"
    if "A = a + i" "B = b + j" "C = c + k" for A B C a b c i j k :: int
    using that by simp
  show ?thesis
    unfolding days_before_year_def leap_day_count add_diff_cancel_right'
    by (rule sum) (rule div_step, simp)+
qed

lemma days_before_year_mono_less: "y < z \<Longrightarrow> days_before_year y + 365 \<le> days_before_year z"
proof (induction "nat (z - y)" arbitrary: z)
  case 0
  then show ?case by simp
next
  case (Suc n)
  show ?case
  proof (cases "z = y + 1")
    case True
    then show ?thesis using days_before_year_Suc [of y] leap_day_range(1) [of y] by simp
  next
    case False
    then have "n = nat ((z - 1) - y)" "y < z - 1"
      using Suc.hyps(2) Suc.prems by simp_all
    then have "days_before_year y + 365 \<le> days_before_year (z - 1)" using Suc.hyps(1) by blast
    then show ?thesis
      using days_before_year_Suc [of "z - 1"] leap_day_range(1) [of "z - 1"] by simp
  qed
qed

lemma days_before_year_mono: "y \<le> z \<Longrightarrow> days_before_year y \<le> days_before_year z"
  using days_before_year_mono_less [of y z] by (cases "y = z") auto

lemma year_of_bounds: "days_before_year (year_of n) \<le> n \<and> n < days_before_year (year_of n + 1)"
proof -
  define y where "y = (400 * n) div 146097 + 1"
  have lo: "146097 * (y - 1) \<le> 400 * n" and hi: "400 * n < 146097 * y"
    using div_mult_mod_eq [of "400 * n" 146097] pos_mod_sign [of 146097 "400 * n"]
      pos_mod_bound [of 146097 "400 * n"] by (simp_all add: y_def)
  have bnd: "146097 * a - 700 \<le> 400 * days_before_year (a + 1) \<and>
      400 * days_before_year (a + 1) \<le> 146097 * a + 399" for a :: int
    using div_mult_mod_eq [of a 4] pos_mod_sign [of 4 a] pos_mod_bound [of 4 a]
      div_mult_mod_eq [of a 100] pos_mod_sign [of 100 a] pos_mod_bound [of 100 a]
      div_mult_mod_eq [of a 400] pos_mod_sign [of 400 a] pos_mod_bound [of 400 a]
    unfolding days_before_year_def by (intro conjI; simp)
  have "days_before_year (y - 1) \<le> n"
    using bnd [of "y - 2"] lo by simp
  moreover have "n < days_before_year (y + 2)"
    using bnd [of "y + 1"] hi by (simp add: add.commute)
  moreover have "days_before_year (y + 1) \<le> n \<Longrightarrow> days_before_year y \<le> n"
    using days_before_year_mono [of y "y + 1"] by simp
  ultimately show ?thesis
    unfolding year_of_def y_def [symmetric] Let_def by (auto simp: add.commute)
qed

lemma year_of_unique:
  assumes "days_before_year y \<le> n" and "n < days_before_year (y + 1)"
  shows "year_of n = y"
proof (rule ccontr)
  assume "year_of n \<noteq> y"
  then consider "year_of n + 1 \<le> y" | "y + 1 \<le> year_of n" by linarith
  then show False
    using year_of_bounds [of n] assms
      days_before_year_mono [of "year_of n + 1" y] days_before_year_mono [of "y + 1" "year_of n"]
    by cases linarith+
qed

lemma month_cases:
  "1 \<le> m \<Longrightarrow> m \<le> 12 \<Longrightarrow>
    m = (1 :: int) \<or> m = 2 \<or> m = 3 \<or> m = 4 \<or> m = 5 \<or> m = 6 \<or> m = 7 \<or> m = 8
    \<or> m = 9 \<or> m = 10 \<or> m = 11 \<or> m = 12"
  by presburger

lemma month_length_range: "28 \<le> month_length y m" "month_length y m \<le> 31"
  if "1 \<le> m" "m \<le> 12" for y m
proof -
  from month_cases [OF that] show "28 \<le> month_length y m" "month_length y m \<le> 31"
    using leap_day_range [of y] by (auto simp: month_length_def days_before_month_def)
qed

lemma month_in_year_bounds:
  assumes "0 \<le> r" "r < 365 + l" "0 \<le> l" "l \<le> 1"
  shows "1 \<le> month_in_year l r \<and> month_in_year l r \<le> 12
    \<and> days_before_month l (month_in_year l r) \<le> r
    \<and> r < days_before_month l (month_in_year l r + 1)"
  using assms by (simp add: month_in_year_def days_before_month_def)

lemma month_in_year_unique:
  assumes "1 \<le> m" "m \<le> 12" "0 \<le> l" "l \<le> 1"
    and "days_before_month l m \<le> r" "r < days_before_month l (m + 1)"
  shows "month_in_year l r = m"
proof -
  from month_cases [OF assms(1,2)] show ?thesis
    using assms(3-) by (elim disjE) (simp_all add: month_in_year_def days_before_month_def)
qed

lemma days_before_month_nonneg: "0 \<le> l \<Longrightarrow> 0 \<le> days_before_month l m"
  by (simp add: days_before_month_def)

lemma days_before_month_13 [simp]: "days_before_month l 13 = 365 + l"
  by (simp add: days_before_month_def)

lemma days_before_month_step:
  assumes "1 \<le> m" "m \<le> 12" "0 \<le> l" "l \<le> 1"
  shows "days_before_month l m \<le> days_before_month l (m + 1)"
  using month_cases [OF assms(1,2)] assms(3,4) by (elim disjE) (simp_all add: days_before_month_def)

lemma days_before_month_mono:
  assumes "m \<le> k" "1 \<le> m" "k \<le> 13" "0 \<le> l" "l \<le> 1"
  shows "days_before_month l m \<le> days_before_month l k"
  using assms(1,3)
proof (induction k rule: int_ge_induct)
  case base
  then show ?case by simp
next
  case (step i)
  then show ?case using days_before_month_step [of i l] assms by simp
qed

text \<open>A valid civil date.\<close>

definition valid_civil :: "int \<Rightarrow> int \<Rightarrow> int \<Rightarrow> bool" where
  "valid_civil y m d \<longleftrightarrow> 1 \<le> m \<and> m \<le> 12 \<and> 1 \<le> d \<and> d \<le> month_length y m"

lemma time_date_in_range:
  "1 \<le> m \<Longrightarrow> m \<le> 12 \<Longrightarrow>
    time_date y m d = days_before_year y + days_before_month (leap_day y) m + (d - 1)"
  by (simp add: time_date_def div_pos_pos_trivial mod_pos_pos_trivial)

lemma civil_valid: "valid_civil (year_of n) (month_of n) (day_of n)"
  using month_in_year_bounds [of "n - days_before_year (year_of n)" "leap_day (year_of n)"]
    year_of_bounds [of n] days_before_year_Suc [of "year_of n"] leap_day_range [of "year_of n"]
  by (simp add: valid_civil_def month_of_def day_of_def month_length_def)

lemma month_of_range [simp]: "1 \<le> month_of n" "month_of n \<le> 12"
  using civil_valid [of n] by (simp_all add: valid_civil_def)

lemma day_of_range: "1 \<le> day_of n" "day_of n \<le> month_length (year_of n) (month_of n)"
  using civil_valid [of n] by (simp_all add: valid_civil_def)

lemma time_date_civil [simp]: "time_date (year_of n) (month_of n) (day_of n) = n"
  by (simp add: time_date_in_range) (simp add: day_of_def)

lemma civil_time_date:
  assumes "valid_civil y m d"
  shows "year_of (time_date y m d) = y" "month_of (time_date y m d) = m"
    "day_of (time_date y m d) = d"
proof -
  let ?n = "time_date y m d"
  have n: "?n = days_before_year y + days_before_month (leap_day y) m + (d - 1)"
    using assms by (simp add: time_date_in_range valid_civil_def)
  have b: "0 \<le> days_before_month (leap_day y) m + (d - 1)"
      "days_before_month (leap_day y) m + (d - 1) < days_before_month (leap_day y) (m + 1)"
      "days_before_month (leap_day y) (m + 1) \<le> 365 + leap_day y"
    using assms days_before_month_nonneg [of "leap_day y" m] leap_day_range [of y]
      days_before_month_mono [of "m + 1" 13 "leap_day y"]
    by (auto simp: valid_civil_def month_length_def)
  show y: "year_of ?n = y"
    by (rule year_of_unique) (use n b days_before_year_Suc [of y] in simp_all)
  show m: "month_of ?n = m"
    unfolding month_of_def y
    by (rule month_in_year_unique)
       (use assms n b leap_day_range [of y] in \<open>simp_all add: valid_civil_def\<close>)
  show "day_of ?n = d"
    unfolding day_of_def y m by (simp add: n)
qed

lemma dateOnly_id [simp]: "dateOnly t = t"
  by (simp add: dateOnly_def)

text \<open>Day numbers are ordered as the dates are, lexicographically.\<close>

lemma time_date_less:
  assumes "valid_civil y m d" "valid_civil y' m' d'"
    and "y < y' \<or> y = y' \<and> (m < m' \<or> m = m' \<and> d < d')"
  shows "time_date y m d < time_date y' m' d'"
proof -
  have n: "time_date y m d < days_before_year y + days_before_month (leap_day y) (m + 1)"
      "time_date y' m' d' = days_before_year y' + days_before_month (leap_day y') m' + (d' - 1)"
      "time_date y m d = days_before_year y + days_before_month (leap_day y) m + (d - 1)"
    using assms(1,2) by (simp_all add: time_date_in_range valid_civil_def month_length_def)
  consider "y < y'" | "y = y'" "m < m'" | "y = y'" "m = m'" "d < d'" using assms(3) by blast
  then show ?thesis
  proof cases
    case 1
    have "days_before_month (leap_day y) (m + 1) \<le> 365 + leap_day y"
      using assms(1) days_before_month_mono [of "m + 1" 13 "leap_day y"] leap_day_range [of y]
      by (auto simp: valid_civil_def)
    moreover have "0 \<le> days_before_month (leap_day y') m' + (d' - 1)"
      using assms(2) days_before_month_nonneg [of "leap_day y'" m'] leap_day_range [of y']
      by (auto simp: valid_civil_def)
    ultimately show ?thesis
      using n days_before_year_Suc [of y] days_before_year_mono [of "y + 1" y'] 1 by simp
  next
    case 2
    then have "days_before_month (leap_day y) (m + 1) \<le> days_before_month (leap_day y) m'"
      using assms leap_day_range [of y] by (intro days_before_month_mono) (auto simp: valid_civil_def)
    then show ?thesis using n 2 assms(2) by (simp add: valid_civil_def)
  next
    case 3
    then show ?thesis using n by simp
  qed
qed

lemma daysInMonth_eq: "1 \<le> m \<Longrightarrow> m \<le> 12 \<Longrightarrow> daysInMonth y m = month_length y m"
proof -
  assume m: "1 \<le> m" "m \<le> 12"
  have "time_date y (m + 1) 0 = time_date y m (month_length y m)"
  proof (cases "m = 12")
    case True
    then show ?thesis
      using days_before_year_Suc [of y]
      by (simp add: time_date_def month_length_def days_before_month_def)
  next
    case False
    then show ?thesis using m by (simp add: time_date_in_range month_length_def)
  qed
  then show ?thesis
    using civil_time_date(3) [of y m "month_length y m"] month_length_range [OF m, of y] m
    by (simp add: daysInMonth_def valid_civil_def)
qed

text \<open>Months counted from year 0, in which adding months is addition.\<close>

definition month_index :: "date \<Rightarrow> int" where
  "month_index t = 12 * year_of t + (month_of t - 1)"

lemma time_date_month_index:
  "time_date (year_of t) (month_of t + k) d
     = time_date ((month_index t + k) div 12) ((month_index t + k) mod 12 + 1) d"
proof -
  have e: "month_index t + k = (month_of t + k - 1) + year_of t * 12"
    by (simp add: month_index_def)
  have "(month_index t + k) div 12 = year_of t + (month_of t + k - 1) div 12"
    unfolding e by (rule div_mult_self1) simp
  moreover have "(month_index t + k) mod 12 = (month_of t + k - 1) mod 12"
    unfolding e by (rule mod_mult_self1)
  ultimately show ?thesis by (simp add: time_date_def)
qed

lemma valid_civil_first: "1 \<le> m \<Longrightarrow> m \<le> 12 \<Longrightarrow> valid_civil y m 1"
  using month_length_range [of m y] by (simp add: valid_civil_def)

end
