(* ===== verification/Validation.thy ===== *)
theory Validation
  imports Civil_Date Go_Text
begin

text \<open>
  Date validation (\<open>backend/internal/validation/date.go\<close>): \<open>time.Parse("2006-01-02", value)\<close> and
  the ledger's window [1900-01-01, today + 1 year], which every write edge checks. A message is
  \<open>Inl\<close>, an accepted day \<open>Inr\<close>. \<open>now\<close> is the day of \<open>time.Now()\<close>.
\<close>

definition digits2 :: "char \<Rightarrow> char \<Rightarrow> int option" where
  "digits2 a b = (case (digit_val a, digit_val b) of
     (Some x, Some y) \<Rightarrow> Some (10 * int x + int y) | _ \<Rightarrow> None)"

definition parse_ymd :: "string \<Rightarrow> date option" where
  "parse_ymd s = (case s of
     [y1, y2, y3, y4, h1, m1, m2, h2, d1, d2] \<Rightarrow>
       (case (digits2 y1 y2, digits2 y3 y4, digits2 m1 m2, digits2 d1 d2) of
          (Some yh, Some yl, Some m, Some d) \<Rightarrow>
            (let y = 100 * yh + yl in
             if h1 = CHR ''-'' \<and> h2 = CHR ''-'' \<and> 1 \<le> m \<and> m \<le> 12 \<and> 1 \<le> d \<and> d \<le> month_length y m
             then Some (time_date y m d) else None)
        | _ \<Rightarrow> None)
   | _ \<Rightarrow> None)"

definition format_ymd :: "date \<Rightarrow> string" where
  "format_ymd t = pad 4 (dec_int (year_of t)) @ ''-'' @ pad 2 (dec_int (month_of t))
     @ ''-'' @ pad 2 (dec_int (day_of t))"

definition transactionDateMin :: date where
  "transactionDateMin = time_date 1900 1 1"

definition TransactionDateMax :: "date \<Rightarrow> date" where
  "TransactionDateMax now = add_date (time_date (year_of now) (month_of now) (day_of now)) 1 0 0"

definition CheckTransactionDate :: "string \<Rightarrow> date \<Rightarrow> string + date" where
  "CheckTransactionDate value now =
     (case parse_ymd value of
        None \<Rightarrow> Inl ''invalid date (expected YYYY-MM-DD)''
      | Some d \<Rightarrow>
          (let mx = TransactionDateMax now in
           if d < transactionDateMin \<or> mx < d
           then Inl (''date out of range (1900-01-01 to '' @ format_ymd mx @ '')'')
           else Inr d))"

lemma CheckTransactionDate_window:
  "CheckTransactionDate v now = Inr d \<Longrightarrow> transactionDateMin \<le> d \<and> d \<le> TransactionDateMax now"
  by (auto simp: CheckTransactionDate_def Let_def split: option.splits if_splits)

end
