(* ===== verification/Recurring.thy ===== *)
theory Recurring
  imports Validation Float64
begin

text \<open>
  The pure layer of recurring series (\<open>backend/handlers/recurring.go\<close>): the occurrence schedule,
  the resolvers of effective-dated terms, range validation and candidate scoring. A series and a
  term are records with the fields of \<open>models.RecurringSeries\<close> and \<open>models.RecurringSeriesTerm\<close>
  (the joined display names are left out). Times are days; \<open>now\<close> is the day of \<open>time.Now()\<close>.
\<close>

section \<open>Data\<close>

record recurring_series =
  rs_ID :: uuid
  rs_Name :: string
  rs_Description :: string
  rs_Type :: string
  rs_Frequency :: string
  rs_Interval :: int
  rs_CategoryID :: "uuid option"
  rs_PayeeID :: "uuid option"
  rs_Active :: bool
  rs_Notes :: string
  rs_AccountID :: uuid
  rs_Amount :: cents
  rs_StartDate :: date
  rs_EndDate :: "date option"
  rs_NextDueDate :: "date option"
  rs_MonthlyAmount :: cents

record series_term =
  tm_ID :: uuid
  tm_SeriesID :: uuid
  tm_StartDate :: date
  tm_EndDate :: "date option"
  tm_Amount :: cents
  tm_AccountID :: uuid

record parsed_range =
  pr_start :: date
  pr_end :: "date option"
  pr_amount :: cents
  pr_account :: uuid

record range_request =
  rr_StartDate :: string
  rr_EndDate :: string
  rr_Amount :: cents
  rr_AccountID :: uuid

record candidate =
  cd_ID :: uuid
  cd_AccountID :: uuid
  cd_Date :: date
  cd_Description :: string
  cd_Amount :: cents
  cd_Type :: string
  cd_CategoryID :: "uuid option"
  cd_PayeeID :: "uuid option"

definition maxRecurringSteps :: nat where "maxRecurringSteps = 20000"
definition maxRecurringCandidates :: nat where "maxRecurringCandidates = 5000"
definition defaultForecastCount :: int where "defaultForecastCount = 12"
definition maxForecastCount :: int where "maxForecastCount = 60"
definition defaultRecurringSuggestionLimit :: int where "defaultRecurringSuggestionLimit = 100"
definition maxRecurringSuggestionLimit :: int where "maxRecurringSuggestionLimit = 500"

section \<open>The schedule\<close>

definition recurringMaxDaysOff :: "recurring_series \<Rightarrow> float64" where
  "recurringMaxDaysOff s =
     (let period = (if rs_Frequency s = ''daily'' then Fin 1
            else if rs_Frequency s = ''weekly'' then Fin 7
            else if rs_Frequency s = ''monthly'' then f64_round (3044 / 100)
            else if rs_Frequency s = ''yearly'' then f64_round (36525 / 100)
            else f64_round (3044 / 100));
          period = (if rs_Interval s > 1 then f64_mul period (f64_of_int (rs_Interval s)) else period)
      in math_max (Fin 20) (f64_div period (Fin 2)))"

definition isValidRecurringFrequency :: "string \<Rightarrow> bool" where
  "isValidRecurringFrequency f \<longleftrightarrow> f \<in> {''daily'', ''weekly'', ''monthly'', ''yearly''}"

definition parseRecurringDate :: "date \<Rightarrow> string \<Rightarrow> string + date" where
  "parseRecurringDate now s =
     (case CheckTransactionDate (trim_space s) now of Inl msg \<Rightarrow> Inl msg | Inr t \<Rightarrow> Inr (dateOnly t))"

definition parseRecurringEnd :: "date \<Rightarrow> string \<Rightarrow> date \<Rightarrow> string + date option" where
  "parseRecurringEnd now s start =
     (if trim_space s = [] then Inr None
      else case parseRecurringDate now s of
          Inl e \<Rightarrow> Inl e
        | Inr en \<Rightarrow> if \<not> dateOnly start < en then Inl ''end date must be after start date''
                  else Inr (Some (dateOnly en)))"

definition addMonthsAnchored :: "date \<Rightarrow> int \<Rightarrow> date" where
  "addMonthsAnchored anchor months =
     (let y = year_of anchor; m = month_of anchor;
          first = add_date (time_date y m 1) 0 months 0;
          day = day_of anchor;
          last = daysInMonth (year_of first) (month_of first);
          day = (if day > last then last else day)
      in time_date (year_of first) (month_of first) day)"

definition recurringOccurrenceAt :: "date \<Rightarrow> string \<Rightarrow> int \<Rightarrow> nat \<Rightarrow> date" where
  "recurringOccurrenceAt anchor freq interval i =
     (let interval = (if interval < 1 then 1 else interval) in
      if freq = ''daily'' then add_date anchor 0 0 (int i * interval)
      else if freq = ''weekly'' then add_date anchor 0 0 (7 * int i * interval)
      else if freq = ''monthly'' then addMonthsAnchored anchor (int i * interval)
      else if freq = ''yearly'' then addMonthsAnchored anchor (int i * interval * 12)
      else anchor)"

text \<open>The series' occurrence \<open>i\<close>, and whether its exclusive end date stops the schedule there.\<close>

definition occ_of :: "recurring_series \<Rightarrow> nat \<Rightarrow> date" where
  "occ_of s i = recurringOccurrenceAt (dateOnly (rs_StartDate s)) (rs_Frequency s) (rs_Interval s) i"

definition past_end :: "recurring_series \<Rightarrow> date \<Rightarrow> bool" where
  "past_end s occ = (case rs_EndDate s of None \<Rightarrow> False | Some e \<Rightarrow> \<not> occ < dateOnly e)"

function upcoming_loop :: "recurring_series \<Rightarrow> date \<Rightarrow> int \<Rightarrow> nat \<Rightarrow> date list \<Rightarrow> date list" where
  "upcoming_loop s from count i out =
     (if i < maxRecurringSteps \<and> int (length out) < count then
        let occ = occ_of s i in
        if past_end s occ then out
        else if occ < from then upcoming_loop s from count (Suc i) out
        else upcoming_loop s from count (Suc i) (out @ [occ])
      else out)"
  by pat_completeness auto
termination
  by (relation "measure (\<lambda>(s, from, count, i, out). maxRecurringSteps - i)") auto

declare upcoming_loop.simps [simp del]

definition recurringUpcoming :: "recurring_series \<Rightarrow> date \<Rightarrow> int \<Rightarrow> date list" where
  "recurringUpcoming s from count =
     (if count \<le> 0 then [] else upcoming_loop s (dateOnly from) count 0 [])"

definition nextRecurringOccurrence :: "recurring_series \<Rightarrow> date \<Rightarrow> date option" where
  "nextRecurringOccurrence s from =
     (case recurringUpcoming s from 1 of [] \<Rightarrow> None | d # _ \<Rightarrow> Some d)"

definition recurringMonthlyAmount :: "recurring_series \<Rightarrow> cents" where
  "recurringMonthlyAmount s =
     (let interval = (if rs_Interval s < 1 then 1 else rs_Interval s); cents = rs_Amount s in
      if rs_Frequency s = ''daily'' then go_div (i64 (cents * 365)) (12 * interval)
      else if rs_Frequency s = ''weekly'' then go_div (i64 (cents * 52)) (12 * interval)
      else if rs_Frequency s = ''yearly'' then go_div cents (12 * interval)
      else go_div cents interval)"

text \<open>
  \<open>math.Abs(a.Sub(b).Hours() / 24)\<close>: \<open>Sub\<close> saturates at the largest \<open>time.Duration\<close> (about 292
  years), and \<open>Hours\<close> splits the nanoseconds into whole hours and a remainder.
\<close>

definition duration_hours :: "int \<Rightarrow> float64" where
  "duration_hours ns = f64_add (f64_of_int (go_div ns 3600000000000))
     (f64_div (f64_of_int (go_mod ns 3600000000000)) (Fin 3600000000000))"

definition time_sub :: "date \<Rightarrow> date \<Rightarrow> int" where
  "time_sub a b = max (- (2 ^ 63)) (min (2 ^ 63 - 1) ((a - b) * 86400000000000))"

definition days_apart :: "date \<Rightarrow> date \<Rightarrow> float64" where
  "days_apart a b = math_abs (f64_div (duration_hours (time_sub a b)) (Fin 24))"

definition MaxFloat64 :: float64 where
  "MaxFloat64 = Fin ((2 ^ 53 - 1) * 2 ^ 971)"

function nearest_loop ::
  "recurring_series \<Rightarrow> date \<Rightarrow> nat \<Rightarrow> date \<Rightarrow> float64 \<Rightarrow> bool \<Rightarrow> date \<times> float64 \<times> bool" where
  "nearest_loop s d i best bestDiff found =
     (if i < maxRecurringSteps then
        let occ = occ_of s i in
        if past_end s occ then (best, bestDiff, found)
        else
          let diff = days_apart occ d;
              (best, bestDiff, found) =
                (if f64_less diff bestDiff then (occ, diff, True) else (best, bestDiff, found))
          in if d < occ then (best, bestDiff, found)
             else nearest_loop s d (Suc i) best bestDiff found
      else (best, bestDiff, found))"
  by pat_completeness auto
termination
  by (relation "measure (\<lambda>(s, d, i, best, bestDiff, found). maxRecurringSteps - i)") auto

declare nearest_loop.simps [simp del]

definition nearestRecurringOccurrence :: "recurring_series \<Rightarrow> date \<Rightarrow> date \<times> float64 \<times> bool" where
  "nearestRecurringOccurrence s d = nearest_loop s (dateOnly d) 0 0 MaxFloat64 False"

definition recurringDescriptionMatches :: "recurring_series \<Rightarrow> string \<Rightarrow> bool" where
  "recurringDescriptionMatches s desc =
     (\<exists>word \<in> set (fields_of (to_lower (rs_Name s))). 3 \<le> length word \<and> contains (to_lower desc) word)"

definition calculateRecurringScore :: "recurring_series \<Rightarrow> candidate \<Rightarrow> float64 \<Rightarrow> float64" where
  "calculateRecurringScore s txn daysOff =
     (let score = f64_sub (Fin 100) (f64_mul daysOff (Fin 8));
          score = (if recurringDescriptionMatches s (cd_Description txn)
                   then f64_add score (Fin 15) else score);
          score = (if rs_CategoryID s \<noteq> None \<and> cd_CategoryID txn \<noteq> None
                      \<and> rs_CategoryID s = cd_CategoryID txn then f64_add score (Fin 10) else score);
          score = (if rs_PayeeID s \<noteq> None \<and> cd_PayeeID txn \<noteq> None
                      \<and> rs_PayeeID s = cd_PayeeID txn then f64_add score (Fin 10) else score);
          score = (if f64_less score (Fin 0) then Fin 0 else score);
          score = (if f64_less (Fin 100) score then Fin 100 else score)
      in score)"

definition clampQueryInt :: "string \<Rightarrow> int \<Rightarrow> int \<Rightarrow> int \<Rightarrow> int" where
  "clampQueryInt q def minVal maxVal =
     (let v = (case parse_int64 q of None \<Rightarrow> def | Some v \<Rightarrow> if v < minVal then def else v)
      in if v > maxVal then maxVal else v)"

section \<open>Terms\<close>

fun recurringTermContaining :: "series_term list \<Rightarrow> date \<Rightarrow> series_term option" where
  "recurringTermContaining [] d = None"
| "recurringTermContaining (t # ts) d =
     (if d < tm_StartDate t then None
      else if (case tm_EndDate t of None \<Rightarrow> True | Some e \<Rightarrow> d < e) then Some t
      else recurringTermContaining ts d)"

fun term_at_loop :: "series_term option \<Rightarrow> series_term list \<Rightarrow> date \<Rightarrow> series_term option" where
  "term_at_loop latestBefore [] d = latestBefore"
| "term_at_loop latestBefore (t # ts) d =
     (if d < tm_StartDate t then latestBefore
      else if (case tm_EndDate t of None \<Rightarrow> True | Some e \<Rightarrow> d < e) then Some t
      else term_at_loop (Some t) ts d)"

definition recurringTermAt :: "series_term list \<Rightarrow> date \<Rightarrow> series_term option" where
  "recurringTermAt terms d =
     (if terms = [] then None
      else case term_at_loop None terms d of Some t \<Rightarrow> Some t | None \<Rightarrow> Some (hd terms))"

fun recurringTermsOverlap :: "series_term list \<Rightarrow> date \<Rightarrow> date option \<Rightarrow> uuid \<Rightarrow> bool" where
  "recurringTermsOverlap [] start en excludeID = False"
| "recurringTermsOverlap (t # ts) start en excludeID =
     (if tm_ID t = excludeID then recurringTermsOverlap ts start en excludeID
      else if (case tm_EndDate t of None \<Rightarrow> False | Some e \<Rightarrow> \<not> start < e)
      then recurringTermsOverlap ts start en excludeID
      else if (case en of None \<Rightarrow> False | Some e \<Rightarrow> \<not> tm_StartDate t < e)
      then recurringTermsOverlap ts start en excludeID
      else True)"

definition deriveRecurringSeries ::
  "date \<Rightarrow> recurring_series \<Rightarrow> series_term list \<Rightarrow> recurring_series" where
  "deriveRecurringSeries now s terms =
     (if terms = [] then s
      else let s = s\<lparr>rs_StartDate := dateOnly (tm_StartDate (hd terms)),
                    rs_EndDate := tm_EndDate (last terms)\<rparr>
           in case recurringTermAt terms now of
                None \<Rightarrow> s
              | Some cur \<Rightarrow> s\<lparr>rs_AccountID := tm_AccountID cur, rs_Amount := tm_Amount cur\<rparr>)"

section \<open>Supplied ranges\<close>

definition seriesRangesOverlap :: "parsed_range \<Rightarrow> parsed_range \<Rightarrow> bool" where
  "seriesRangesOverlap a b \<longleftrightarrow>
     \<not> (case pr_end a of None \<Rightarrow> False | Some e \<Rightarrow> \<not> pr_start b < e)
     \<and> \<not> (case pr_end b of None \<Rightarrow> False | Some e \<Rightarrow> \<not> pr_start a < e)"

fun parse_ranges :: "date \<Rightarrow> range_request list \<Rightarrow> string + parsed_range list" where
  "parse_ranges now [] = Inr []"
| "parse_ranges now (r # rs) =
     (if rr_Amount r \<le> 0 then Inl ''amount must be positive''
      else case parseRecurringDate now (rr_StartDate r) of
          Inl e \<Rightarrow> Inl e
        | Inr start \<Rightarrow>
            (case parseRecurringEnd now (rr_EndDate r) start of
               Inl e \<Rightarrow> Inl e
             | Inr en \<Rightarrow>
                 (case parse_ranges now rs of
                    Inl e \<Rightarrow> Inl e
                  | Inr ps \<Rightarrow> Inr (\<lparr>pr_start = start, pr_end = en, pr_amount = rr_Amount r,
                                  pr_account = rr_AccountID r\<rparr> # ps))))"

fun any_overlap :: "parsed_range list \<Rightarrow> bool" where
  "any_overlap [] = False"
| "any_overlap (r # rs) = (list_ex (seriesRangesOverlap r) rs \<or> any_overlap rs)"

definition errRecurringRangeOverlap :: string where
  "errRecurringRangeOverlap = ''term date range overlaps an existing term''"

text \<open>
  \<open>sort.Slice\<close> leaves the order of equal starts open; two non-empty ranges with the same start
  overlap, so every such order ends in the same error and the stable \<open>sort_key\<close> stands for it.
\<close>

definition parseSeriesRanges :: "date \<Rightarrow> range_request list \<Rightarrow> string + parsed_range list" where
  "parseSeriesRanges now reqs =
     (if reqs = [] then Inl ''at least one range is required''
      else case parse_ranges now reqs of
          Inl e \<Rightarrow> Inl e
        | Inr ps \<Rightarrow> (let out = sort_key pr_start ps in
             if any_overlap out then Inl errRecurringRangeOverlap else Inr out))"

fun primary_loop :: "parsed_range \<Rightarrow> parsed_range list \<Rightarrow> date \<Rightarrow> parsed_range" where
  "primary_loop primary [] today = primary"
| "primary_loop primary (r # rs) today =
     (if today < pr_start r then primary
      else if (case pr_end r of None \<Rightarrow> True | Some e \<Rightarrow> today < e) then r
      else primary_loop r rs today)"

definition primaryRange :: "parsed_range list \<Rightarrow> date \<Rightarrow> parsed_range" where
  "primaryRange ranges today = primary_loop (hd ranges) ranges (dateOnly today)"

section \<open>Matching attached transactions and ranking candidates\<close>

definition recurringMatchedOccurrences ::
  "recurring_series \<Rightarrow> date list \<Rightarrow> float64 \<Rightarrow> date list" where
  "recurringMatchedOccurrences s attached windowDays =
     concat (map (\<lambda>a. case nearestRecurringOccurrence s a of (occ, daysOff, ok) \<Rightarrow>
        if \<not> ok \<or> f64_less windowDays daysOff then [] else [dateOnly occ]) attached)"

record suggestion =
  sg_Txn :: candidate
  sg_Score :: float64
  sg_OccurrenceDate :: date
  sg_DaysOff :: float64
  sg_Range :: uuid

definition score_candidates ::
  "recurring_series \<Rightarrow> series_term list \<Rightarrow> candidate list \<Rightarrow> suggestion list" where
  "score_candidates series terms txns =
     concat (map (\<lambda>txn. case recurringTermContaining terms (cd_Date txn) of
          None \<Rightarrow> []
        | Some active \<Rightarrow>
            if cd_AccountID txn \<noteq> tm_AccountID active \<or> cd_Amount txn \<noteq> tm_Amount active then []
            else case nearestRecurringOccurrence series (cd_Date txn) of (occ, daysOff, ok) \<Rightarrow>
              if \<not> ok \<or> f64_less (recurringMaxDaysOff series) daysOff then []
              else [\<lparr>sg_Txn = txn, sg_Score = calculateRecurringScore series txn daysOff,
                     sg_OccurrenceDate = occ, sg_DaysOff = daysOff, sg_Range = tm_ID active\<rparr>]) txns)"

definition ranks_before :: "suggestion \<Rightarrow> suggestion \<Rightarrow> bool" where
  "ranks_before a b \<longleftrightarrow>
     (if sg_Score a \<noteq> sg_Score b then f64_less (sg_Score b) (sg_Score a)
      else sg_OccurrenceDate b < sg_OccurrenceDate a)"

text \<open>\<open>sort.SliceStable\<close>.\<close>

fun insert_stable :: "('a \<Rightarrow> 'a \<Rightarrow> bool) \<Rightarrow> 'a \<Rightarrow> 'a list \<Rightarrow> 'a list" where
  "insert_stable lt x [] = [x]"
| "insert_stable lt x (y # ys) = (if lt y x then y # insert_stable lt x ys else x # y # ys)"

definition stable_sort :: "('a \<Rightarrow> 'a \<Rightarrow> bool) \<Rightarrow> 'a list \<Rightarrow> 'a list" where
  "stable_sort lt xs = foldr (insert_stable lt) xs []"

text \<open>The page: state is (suggestions, seenOccurrence, seenRange).\<close>

type_synonym page = "suggestion list \<times> date list \<times> uuid list"

definition page_add :: "suggestion \<Rightarrow> page \<Rightarrow> page" where
  "page_add sc p = (case p of (out, seenOcc, seenRange) \<Rightarrow>
     let key = dateOnly (sg_OccurrenceDate sc) in
     if key \<in> set seenOcc then p
     else (out @ [sc], key # seenOcc, sg_Range sc # seenRange))"

fun page_ranges :: "int \<Rightarrow> suggestion list \<Rightarrow> page \<Rightarrow> page" where
  "page_ranges limit [] p = p"
| "page_ranges limit (sc # scs) p =
     (if int (length (fst p)) \<ge> limit then p
      else page_ranges limit scs (if sg_Range sc \<in> set (snd (snd p)) then p else page_add sc p))"

fun page_fill :: "int \<Rightarrow> suggestion list \<Rightarrow> page \<Rightarrow> page" where
  "page_fill limit [] p = p"
| "page_fill limit (sc # scs) p =
     (if int (length (fst p)) \<ge> limit then p else page_fill limit scs (page_add sc p))"

definition suggestion_page :: "int \<Rightarrow> suggestion list \<Rightarrow> suggestion list" where
  "suggestion_page limit found =
     (let scored = stable_sort ranks_before found
      in fst (page_fill limit scored (page_ranges limit scored ([], [], []))))"

end
