(* ===== verification/Terms.thy ===== *)
theory Terms
  imports Recurring "HOL-Library.Multiset"
begin

text \<open>
  Effective-dated terms and suggestion ranking of \<open>Recurring\<close>. A term is the half-open interval
  \<open>span start end\<close>; \<open>terms_ok\<close> is the invariant of a series' term list (oldest first, no term
  empty, no two overlapping, gaps allowed). The lemmas relate the code's list walks to these
  intervals.
\<close>

section \<open>Intervals\<close>

definition span :: "date \<Rightarrow> date option \<Rightarrow> date set" where
  "span start en = {d. start \<le> d \<and> (case en of None \<Rightarrow> True | Some e \<Rightarrow> d < e)}"

definition proper :: "date \<Rightarrow> date option \<Rightarrow> bool" where
  "proper start en \<longleftrightarrow> (case en of None \<Rightarrow> True | Some e \<Rightarrow> start < e)"

definition ends_by :: "date option \<Rightarrow> date \<Rightarrow> bool" where
  "ends_by en start \<longleftrightarrow> (case en of None \<Rightarrow> False | Some e \<Rightarrow> e \<le> start)"

abbreviation covers :: "series_term \<Rightarrow> date \<Rightarrow> bool" where
  "covers t d \<equiv> d \<in> span (tm_StartDate t) (tm_EndDate t)"

definition terms_ok :: "series_term list \<Rightarrow> bool" where
  "terms_ok ts \<longleftrightarrow>
     sorted_wrt (\<lambda>a b. ends_by (tm_EndDate a) (tm_StartDate b)) ts
     \<and> (\<forall>t \<in> set ts. proper (tm_StartDate t) (tm_EndDate t))"

lemma in_span: "d \<in> span st en \<longleftrightarrow> st \<le> d \<and> (case en of None \<Rightarrow> True | Some e \<Rightarrow> d < e)"
  by (simp add: span_def)

lemma span_disjoint_iff:
  assumes "proper a ea" "proper b eb"
  shows "span a ea \<inter> span b eb = {} \<longleftrightarrow> ends_by ea b \<or> ends_by eb a"
proof
  assume e: "span a ea \<inter> span b eb = {}"
  then have "max a b \<notin> span a ea \<or> max a b \<notin> span b eb" by blast
  then show "ends_by ea b \<or> ends_by eb a"
    using assms by (auto simp: in_span proper_def ends_by_def split: option.splits)
next
  assume "ends_by ea b \<or> ends_by eb a"
  then show "span a ea \<inter> span b eb = {}"
    by (auto simp: in_span ends_by_def split: option.splits)
qed

lemma ends_by_later:
  "ends_by en a \<Longrightarrow> a \<le> b \<Longrightarrow> ends_by en b"
  by (auto simp: ends_by_def split: option.splits)

lemma ends_by_start: "proper st en \<Longrightarrow> ends_by en b \<Longrightarrow> st < b"
  by (auto simp: proper_def ends_by_def split: option.splits)

lemma terms_ok_Cons:
  "terms_ok (t # ts) \<longleftrightarrow> proper (tm_StartDate t) (tm_EndDate t)
     \<and> (\<forall>u \<in> set ts. ends_by (tm_EndDate t) (tm_StartDate u)) \<and> terms_ok ts"
  by (auto simp: terms_ok_def)

lemma covers_later: "ends_by (tm_EndDate t) st \<Longrightarrow> st \<le> d \<Longrightarrow> \<not> covers t d"
  by (auto simp: in_span ends_by_def split: option.splits)

section \<open>Resolving a date\<close>

lemma recurringTermContaining_iff:
  "terms_ok ts \<Longrightarrow> recurringTermContaining ts d = Some t \<longleftrightarrow> t \<in> set ts \<and> covers t d"
proof (induction ts)
  case Nil
  then show ?case by simp
next
  case (Cons u ts)
  note ok = Cons.prems [unfolded terms_ok_Cons]
  have late: "tm_StartDate u < tm_StartDate v" if "v \<in> set ts" for v
    using ok that ends_by_start by blast
  show ?case
  proof (cases "covers u d")
    case True
    then have "t = u" if "t \<in> set ts" "covers t d"
      using ok that covers_later [of u "tm_StartDate t" d] by (auto simp: in_span)
    then show ?thesis using True by (auto simp: in_span)
  next
    case False
    show ?thesis
    proof (cases "d < tm_StartDate u")
      case True
      then have "\<not> covers v d" if "v \<in> set ts" for v
        using late [OF that] by (simp add: in_span)
      then show ?thesis using True False by auto
    next
      case started: False
      have "recurringTermContaining (u # ts) d = recurringTermContaining ts d"
        using False started by (auto simp: in_span)
      then show ?thesis using Cons.IH ok False by auto
    qed
  qed
qed

text \<open>Date resolution is exact: in a well-formed term list, \<open>recurringTermContaining\<close> returns a
  term if and only if that term is in the list and covers the date, so a date in a gap resolves to
  nothing and no date resolves to two terms.\<close>

theorem recurringTermContaining_exact:
  assumes "terms_ok ts"
  shows "(recurringTermContaining ts d = Some t \<longleftrightarrow> t \<in> set ts \<and> covers t d)
    \<and> (recurringTermContaining ts d = None \<longleftrightarrow> (\<forall>u \<in> set ts. \<not> covers u d))
    \<and> (\<forall>u \<in> set ts. \<forall>v \<in> set ts. covers u d \<and> covers v d \<longrightarrow> u = v)"
proof -
  note eq = recurringTermContaining_iff [OF assms]
  have "recurringTermContaining ts d = None \<longleftrightarrow> (\<forall>u \<in> set ts. \<not> covers u d)"
    using eq [of d] by (metis not_None_eq)
  moreover have "u = v" if "u \<in> set ts" "v \<in> set ts" "covers u d" "covers v d" for u v
    using eq [of d u] eq [of d v] that by simp
  ultimately show ?thesis using eq [of d t] by blast
qed

definition ex_terms :: "series_term list" where
  "ex_terms =
     [\<lparr>tm_ID = 1, tm_SeriesID = 9, tm_StartDate = 100, tm_EndDate = Some 130, tm_Amount = 500, tm_AccountID = 3\<rparr>,
      \<lparr>tm_ID = 2, tm_SeriesID = 9, tm_StartDate = 200, tm_EndDate = None, tm_Amount = 700, tm_AccountID = 4\<rparr>]"

definition ex_milk :: recurring_series where
  "ex_milk = \<lparr>rs_ID = 9, rs_Name = ''Milk'', rs_Description = [], rs_Type = ''debit'', rs_Frequency = ''daily'',
     rs_Interval = 1, rs_CategoryID = None, rs_PayeeID = None, rs_Active = True, rs_Notes = [],
     rs_AccountID = 3, rs_Amount = 500, rs_StartDate = 100, rs_EndDate = None, rs_NextDueDate = None,
     rs_MonthlyAmount = 0\<rparr>"

lemma ex_terms_ok: "terms_ok ex_terms"
  by (simp add: terms_ok_def ex_terms_def proper_def ends_by_def)

theorem recurringTermContaining_exact_witness:
  "recurringTermContaining ex_terms 210 = Some (ex_terms ! 1) \<and> recurringTermContaining ex_terms 150 = None"
proof -
  have in1: "ex_terms ! 1 \<in> set ex_terms \<and> covers (ex_terms ! 1) 210"
    and gap: "\<forall>u \<in> set ex_terms. \<not> covers u 150"
    by (simp_all add: in_span ex_terms_def)
  show ?thesis
    using recurringTermContaining_exact [OF ex_terms_ok, of 210 "ex_terms ! 1", THEN conjunct1] in1
      recurringTermContaining_exact [OF ex_terms_ok, of 150, THEN conjunct2, THEN conjunct1] gap by blast
qed

section \<open>Overlap checks\<close>

lemma recurringTermsOverlap_iff:
  assumes "\<forall>t \<in> set ts. proper (tm_StartDate t) (tm_EndDate t)" "proper st en"
  shows "recurringTermsOverlap ts st en ex \<longleftrightarrow>
    (\<exists>t \<in> set ts. tm_ID t \<noteq> ex \<and> span (tm_StartDate t) (tm_EndDate t) \<inter> span st en \<noteq> {})"
  using assms(1)
proof (induction ts)
  case Nil
  then show ?case by simp
next
  case (Cons t ts)
  have "(case tm_EndDate t of None \<Rightarrow> False | Some e \<Rightarrow> \<not> st < e) \<longleftrightarrow> ends_by (tm_EndDate t) st"
    and "(case en of None \<Rightarrow> False | Some e \<Rightarrow> \<not> tm_StartDate t < e) \<longleftrightarrow> ends_by en (tm_StartDate t)"
    by (auto simp: ends_by_def split: option.splits)
  then show ?case
    using Cons span_disjoint_iff [of "tm_StartDate t" "tm_EndDate t" st en] assms(2) by auto
qed

text \<open>The overlap check that guards every term write is exact: it fires if and only if some
  other term of the series shares a day with the new half-open range, so adjacent ranges (one
  ending on the day the next begins) are accepted, and the edited term itself never counts.\<close>

theorem recurringTermsOverlap_exact:
  assumes "\<And>t. t \<in> set ts \<Longrightarrow> proper (tm_StartDate t) (tm_EndDate t)" and "proper st en"
  shows "recurringTermsOverlap ts st en ex \<longleftrightarrow>
    (\<exists>t \<in> set ts. tm_ID t \<noteq> ex \<and> (\<exists>d. covers t d \<and> d \<in> span st en))"
  using recurringTermsOverlap_iff [of ts st en ex] assms by blast

theorem recurringTermsOverlap_exact_witness:
  "\<not> recurringTermsOverlap ex_terms 130 (Some 200) 0 \<and> recurringTermsOverlap ex_terms 129 (Some 131) 0
   \<and> \<not> recurringTermsOverlap ex_terms 129 (Some 131) 1"
proof -
  have p: "\<And>t. t \<in> set ex_terms \<Longrightarrow> proper (tm_StartDate t) (tm_EndDate t)"
    using ex_terms_ok by (simp add: terms_ok_def)
  have q: "proper 130 (Some 200)" "proper 129 (Some 131)" by (simp_all add: proper_def)
  have apart: "recurringTermsOverlap ex_terms 130 (Some 200) 0 \<longleftrightarrow>
      (\<exists>t \<in> set ex_terms. tm_ID t \<noteq> 0 \<and> (\<exists>d. covers t d \<and> d \<in> span 130 (Some 200)))"
    and meet: "recurringTermsOverlap ex_terms 129 (Some 131) e \<longleftrightarrow>
      (\<exists>t \<in> set ex_terms. tm_ID t \<noteq> e \<and> (\<exists>d. covers t d \<and> d \<in> span 129 (Some 131)))" for e
    by (rule recurringTermsOverlap_exact, erule p, rule q)+
  show ?thesis
    unfolding apart meet by (auto simp: ex_terms_def in_span intro: exI [of _ 129])
qed

section \<open>The display resolver\<close>

lemma term_at_loop_spec:
  assumes "terms_ok ts" "term_at_loop l ts d = r" "recurringTermContaining ts d = None"
  shows "r = (case filter (\<lambda>t. tm_StartDate t \<le> d) ts of [] \<Rightarrow> l | us \<Rightarrow> Some (last us))"
  using assms
proof (induction ts arbitrary: l)
  case Nil
  then show ?case by simp
next
  case (Cons t ts)
  note ok = Cons.prems(1) [unfolded terms_ok_Cons]
  show ?case
  proof (cases "d < tm_StartDate t")
    case True
    have "\<not> tm_StartDate u \<le> d" if "u \<in> set (t # ts)" for u
    proof (cases "u = t")
      case True
      then show ?thesis using \<open>d < tm_StartDate t\<close> by simp
    next
      case False
      then have "tm_StartDate t < tm_StartDate u"
        using ok that ends_by_start [of "tm_StartDate t" "tm_EndDate t"] by simp
      then show ?thesis using \<open>d < tm_StartDate t\<close> by simp
    qed
    then have "filter (\<lambda>t. tm_StartDate t \<le> d) (t # ts) = []"
      unfolding filter_empty_conv by blast
    then show ?thesis using True Cons.prems(2) by simp
  next
    case False
    with Cons.prems(3) have nc: "\<not> (case tm_EndDate t of None \<Rightarrow> True | Some e \<Rightarrow> d < e)"
      by (auto split: if_splits)
    then have "r = (case filter (\<lambda>t. tm_StartDate t \<le> d) ts of [] \<Rightarrow> Some t | us \<Rightarrow> Some (last us))"
      using Cons.IH [of "Some t"] Cons.prems ok False by auto
    then show ?thesis using False by (auto split: list.splits)
  qed
qed

lemma term_at_loop_covered:
  "recurringTermContaining ts d = Some t \<Longrightarrow> term_at_loop l ts d = Some t"
  by (induction ts arbitrary: l) (auto split: if_splits)

text \<open>The display resolver never leaves a date without a term: on a non-empty well-formed list
  \<open>recurringTermAt\<close> gives the covering term when there is one, otherwise the latest term that
  starts on or before the date, and before the first term that first term.\<close>

theorem recurringTermAt_resolves:
  assumes "terms_ok ts" and "ts \<noteq> []"
  shows "recurringTermAt ts d =
    (case recurringTermContaining ts d of
       Some t \<Rightarrow> Some t
     | None \<Rightarrow> (case filter (\<lambda>t. tm_StartDate t \<le> d) ts of [] \<Rightarrow> Some (hd ts) | us \<Rightarrow> Some (last us)))"
proof (cases "recurringTermContaining ts d")
  case None
  from term_at_loop_spec [OF assms(1) refl None, of None] show ?thesis
    using None assms(2) by (auto simp: recurringTermAt_def split: list.splits)
next
  case (Some t)
  then show ?thesis using term_at_loop_covered [OF Some] assms(2) by (simp add: recurringTermAt_def)
qed

theorem recurringTermAt_resolves_witness:
  "recurringTermAt ex_terms 150 = Some (ex_terms ! 0) \<and> recurringTermAt ex_terms 5 = Some (ex_terms ! 0)"
  using recurringTermAt_resolves [OF ex_terms_ok, of 150] recurringTermAt_resolves [OF ex_terms_ok, of 5]
  by (simp add: ex_terms_def)

end
