(* ===== verification/Ranges.thy ===== *)
theory Ranges
  imports Terms
begin

text \<open>
  The ranges a create or update request supplies (\<open>parseSeriesRanges\<close>, \<open>seriesRangesOverlap\<close>,
  \<open>primaryRange\<close>) and the denormalised summary of a series (\<open>deriveRecurringSeries\<close>). The lemmas
  say that accepted ranges are sorted, pairwise disjoint and the request's own, so that the rows
  written from them form a well-formed term list.
\<close>

section \<open>Parsing\<close>

definition range_proper :: "parsed_range \<Rightarrow> bool" where
  "range_proper r \<longleftrightarrow> proper (pr_start r) (pr_end r)"

lemma parseRecurringEnd_proper:
  "parseRecurringEnd now s st = Inr en \<Longrightarrow> proper st en"
  by (auto simp: parseRecurringEnd_def proper_def split: if_splits sum.splits)

lemma parse_ranges_sound:
  "parse_ranges now reqs = Inr ps \<Longrightarrow>
     map (\<lambda>r. (pr_amount r, pr_account r)) ps = map (\<lambda>r. (rr_Amount r, rr_AccountID r)) reqs
     \<and> (\<forall>p \<in> set ps. 0 < pr_amount p \<and> range_proper p)
     \<and> (\<forall>r \<in> set reqs. \<exists>d. parseRecurringDate now (rr_StartDate r) = Inr d \<and> d \<in> pr_start ` set ps)"
proof (induction reqs arbitrary: ps)
  case Nil
  then show ?case by simp
next
  case (Cons r reqs)
  then obtain start en qs where "0 < rr_Amount r" "parseRecurringDate now (rr_StartDate r) = Inr start"
    "parseRecurringEnd now (rr_EndDate r) start = Inr en" "parse_ranges now reqs = Inr qs"
    "ps = \<lparr>pr_start = start, pr_end = en, pr_amount = rr_Amount r, pr_account = rr_AccountID r\<rparr> # qs"
    by (auto split: if_splits sum.splits)
  then show ?case using Cons.IH [of qs] parseRecurringEnd_proper [of now "rr_EndDate r" start en]
    by (auto simp: range_proper_def)
qed

section \<open>Overlap\<close>

lemma seriesRangesOverlap_iff:
  "range_proper a \<Longrightarrow> range_proper b \<Longrightarrow>
    seriesRangesOverlap a b \<longleftrightarrow> span (pr_start a) (pr_end a) \<inter> span (pr_start b) (pr_end b) \<noteq> {}"
  using span_disjoint_iff [of "pr_start a" "pr_end a" "pr_start b" "pr_end b"]
  by (auto simp: seriesRangesOverlap_def range_proper_def ends_by_def split: option.splits)

lemma ordered_disjoint:
  "range_proper a \<Longrightarrow> range_proper b \<Longrightarrow> pr_start a \<le> pr_start b \<Longrightarrow> \<not> seriesRangesOverlap a b \<Longrightarrow>
    ends_by (pr_end a) (pr_start b)"
  by (auto simp: seriesRangesOverlap_def range_proper_def proper_def ends_by_def split: option.splits)

definition ranges_ok :: "parsed_range list \<Rightarrow> bool" where
  "ranges_ok rs \<longleftrightarrow> sorted_wrt (\<lambda>a b. ends_by (pr_end a) (pr_start b)) rs \<and> (\<forall>r \<in> set rs. range_proper r)"

lemma any_overlap_sorted:
  assumes "\<forall>r \<in> set rs. range_proper r" "sorted_wrt (\<lambda>a b. pr_start a \<le> pr_start b) rs" "\<not> any_overlap rs"
  shows "sorted_wrt (\<lambda>a b. ends_by (pr_end a) (pr_start b)) rs"
  using assms by (induction rs) (auto simp: list_ex_iff intro!: ordered_disjoint)

lemma ranges_ok_starts: "ranges_ok rs \<Longrightarrow> sorted_wrt (\<lambda>a b. pr_start a < pr_start b) rs"
  unfolding ranges_ok_def range_proper_def
  by (induction rs) (auto dest: ends_by_start)

lemma parseSeriesRanges_ok:
  assumes "parseSeriesRanges now reqs = Inr out"
  shows "ranges_ok out \<and> out \<noteq> [] \<and> (\<forall>r \<in> set out. 0 < pr_amount r)"
proof -
  obtain ps where ps: "reqs \<noteq> []" "parse_ranges now reqs = Inr ps" "out = sort_key pr_start ps"
    "\<not> any_overlap out"
    using assms by (auto simp: parseSeriesRanges_def Let_def split: if_splits sum.splits)
  have "length ps = length reqs" using parse_ranges_sound [OF ps(2)] by (metis length_map)
  then have "ps \<noteq> []" using ps(1) by auto
  then have "out \<noteq> []" using ps(3) set_sort [of pr_start ps] by (metis set_empty)
  moreover have "sorted_wrt (\<lambda>a b. pr_start a \<le> pr_start b) out"
    using sorted_sort_key [of pr_start ps] by (simp add: ps(3) sorted_map)
  ultimately show ?thesis
    using ps parse_ranges_sound [OF ps(2)] any_overlap_sorted [of out]
    by (auto simp: ranges_ok_def)
qed

text \<open>C24. Accepted ranges are well formed: if \<open>parseSeriesRanges\<close> accepts a request, its result is
  in strictly increasing start order, every range is non-empty and has a positive amount, no two
  share a day, and it holds the amounts and accounts of the request, each exactly once.\<close>

theorem parseSeriesRanges_sound:
  assumes "parseSeriesRanges now reqs = Inr out"
  shows "sorted_wrt (\<lambda>a b. pr_start a < pr_start b \<and> ends_by (pr_end a) (pr_start b)) out
    \<and> out \<noteq> [] \<and> (\<forall>r \<in> set out. 0 < pr_amount r \<and> range_proper r)
    \<and> mset (map (\<lambda>r. (pr_amount r, pr_account r)) out) = mset (map (\<lambda>r. (rr_Amount r, rr_AccountID r)) reqs)"
proof -
  note ok = parseSeriesRanges_ok [OF assms]
  obtain ps where "parse_ranges now reqs = Inr ps" "out = sort_key pr_start ps"
    using assms by (auto simp: parseSeriesRanges_def Let_def split: if_splits sum.splits)
  then have "mset (map (\<lambda>r. (pr_amount r, pr_account r)) out)
      = mset (map (\<lambda>r. (rr_Amount r, rr_AccountID r)) reqs)"
    using parse_ranges_sound [of now reqs ps] by (metis mset_map mset_sort)
  then show ?thesis using ok ranges_ok_starts [of out] by (auto simp: ranges_ok_def sorted_wrt_iff_nth_less)
qed

definition ex_requests :: "range_request list" where
  "ex_requests =
     [\<lparr>rr_StartDate = ''2024-03-01'', rr_EndDate = [], rr_Amount = 700, rr_AccountID = 4\<rparr>,
      \<lparr>rr_StartDate = ''2024-01-01'', rr_EndDate = ''2024-03-01'', rr_Amount = 500, rr_AccountID = 3\<rparr>]"

definition ex_ranges :: "parsed_range list" where
  "ex_ranges =
     [\<lparr>pr_start = time_date 2024 1 1, pr_end = Some (time_date 2024 3 1), pr_amount = 500, pr_account = 3\<rparr>,
      \<lparr>pr_start = time_date 2024 3 1, pr_end = None, pr_amount = 700, pr_account = 4\<rparr>]"

lemma ex_requests_parse: "parseSeriesRanges (time_date 2024 6 1) ex_requests = Inr ex_ranges"
  by code_simp

theorem parseSeriesRanges_sound_witness: "\<not> seriesRangesOverlap (ex_ranges ! 0) (ex_ranges ! 1)
    \<and> ends_by (pr_end (ex_ranges ! 0)) (pr_start (ex_ranges ! 1))"
  using parseSeriesRanges_sound [OF ex_requests_parse]
  by (auto simp: ex_ranges_def seriesRangesOverlap_def)

section \<open>The primary range\<close>

lemma primary_loop_spec:
  assumes "ranges_ok rs"
  shows "primary_loop p rs d =
    (case filter (\<lambda>r. pr_start r \<le> d) rs of [] \<Rightarrow> p | us \<Rightarrow> last us)"
  using assms
proof (induction rs arbitrary: p)
  case Nil
  then show ?case by simp
next
  case (Cons r rs)
  have ok: "ranges_ok rs" and ends: "\<forall>u \<in> set rs. ends_by (pr_end r) (pr_start u)"
    using Cons.prems by (simp_all add: ranges_ok_def)
  have later: "\<forall>u \<in> set rs. pr_start r < pr_start u" using ranges_ok_starts [OF Cons.prems] by simp
  show ?case
  proof (cases "d < pr_start r")
    case True
    then have "filter (\<lambda>r. pr_start r \<le> d) rs = []" using later by (auto simp: filter_empty_conv)
    then show ?thesis using True by simp
  next
    case started: False
    show ?thesis
    proof (cases "case pr_end r of None \<Rightarrow> True | Some e \<Rightarrow> d < e")
      case True
      then have "filter (\<lambda>r. pr_start r \<le> d) rs = []"
        using ends by (auto simp: filter_empty_conv ends_by_def split: option.splits)
      then show ?thesis using True started by simp
    next
      case False
      then show ?thesis using Cons.IH [OF ok, of r] started by (auto split: list.splits)
    qed
  qed
qed

text \<open>The range that drives a new series' payee and category is the right one: the latest range
  that has started by today, which is the covering one when today is covered, and before all of
  them the first range.\<close>

theorem primaryRange_spec:
  assumes "parseSeriesRanges now reqs = Inr out"
  shows "primaryRange out today =
      (case filter (\<lambda>r. pr_start r \<le> today) out of [] \<Rightarrow> hd out | us \<Rightarrow> last us)
    \<and> (\<forall>r \<in> set out. today \<in> span (pr_start r) (pr_end r) \<longrightarrow> primaryRange out today = r)"
proof -
  have ok: "ranges_ok out" using parseSeriesRanges_ok [OF assms] by simp
  have eq: "primaryRange out today =
      (case filter (\<lambda>r. pr_start r \<le> today) out of [] \<Rightarrow> hd out | us \<Rightarrow> last us)"
    using primary_loop_spec [OF ok] by (simp add: primaryRange_def)
  have "primary_loop p rs today = r"
    if "ranges_ok rs" "r \<in> set rs" "today \<in> span (pr_start r) (pr_end r)" for p rs r
    using that
  proof (induction rs arbitrary: p)
    case Nil
    then show ?case by simp
  next
    case (Cons u rs)
    then have "ranges_ok rs" and u: "\<forall>v \<in> set rs. ends_by (pr_end u) (pr_start v)" "range_proper u"
      by (simp_all add: ranges_ok_def)
    show ?case
    proof (cases "r = u")
      case True
      then show ?thesis using Cons.prems(3) by (auto simp: in_span)
    next
      case False
      then have "r \<in> set rs" using Cons.prems(2) by simp
      with u(1) have e: "ends_by (pr_end u) (pr_start r)" by blast
      have "pr_start r \<le> today" using Cons.prems(3) by (simp add: in_span)
      then have "primary_loop p (u # rs) today = primary_loop u rs today"
        using e ends_by_start [OF u(2) [unfolded range_proper_def] e]
        by (auto simp: ends_by_def split: option.splits)
      then show ?thesis using Cons.IH [OF \<open>ranges_ok rs\<close> \<open>r \<in> set rs\<close> Cons.prems(3)] by simp
    qed
  qed
  then have "\<forall>r \<in> set out. today \<in> span (pr_start r) (pr_end r) \<longrightarrow> primaryRange out today = r"
    using ok by (simp add: primaryRange_def)
  with eq show ?thesis by blast
qed

theorem primaryRange_spec_witness: "primaryRange ex_ranges (time_date 2024 3 1) = ex_ranges ! 1"
  using primaryRange_spec [OF ex_requests_parse, of "time_date 2024 3 1", THEN conjunct2]
  by (simp add: ex_ranges_def in_span)

section \<open>The derived summary\<close>

lemma terms_ok_first:
  assumes "terms_ok ts" "t \<in> set ts"
  shows "tm_StartDate (hd ts) \<le> tm_StartDate t"
proof (cases ts)
  case Nil
  then show ?thesis using assms(2) by simp
next
  case (Cons u us)
  have "tm_StartDate u < tm_StartDate t" if "t \<in> set us"
    using assms(1) that Cons ends_by_start [of "tm_StartDate u" "tm_EndDate u"] by (simp add: terms_ok_Cons)
  then show ?thesis using assms(2) Cons by force
qed

lemma terms_ok_final:
  assumes "terms_ok ts" "t \<in> set ts"
  shows "t = last ts \<or> ends_by (tm_EndDate t) (tm_StartDate (last ts))"
  using assms
proof (induction ts)
  case Nil
  then show ?case by simp
next
  case (Cons u us)
  show ?case
  proof (cases "us = []")
    case True
    then show ?thesis using Cons.prems(2) by simp
  next
    case False
    then have "last us \<in> set us" by simp
    then show ?thesis using Cons False unfolding terms_ok_Cons by (cases "t = u") simp_all
  qed
qed

lemma recurringTermAt_member:
  assumes "terms_ok ts" "ts \<noteq> []"
  obtains c where "recurringTermAt ts d = Some c" "c \<in> set ts"
    "\<And>t. t \<in> set ts \<Longrightarrow> covers t d \<Longrightarrow> c = t"
proof (cases "recurringTermContaining ts d")
  case None
  have nc: "\<not> covers t d" if "t \<in> set ts" for t
    using recurringTermContaining_iff [OF assms(1), of d t] None that by simp
  show ?thesis
  proof (cases "filter (\<lambda>t. tm_StartDate t \<le> d) ts")
    case Nil
    then have "recurringTermAt ts d = Some (hd ts)"
      using term_at_loop_spec [OF assms(1) refl None, of None] assms(2) by (simp add: recurringTermAt_def)
    then show ?thesis by (rule that) (use nc assms(2) in auto)
  next
    case (Cons u us)
    then have "set (u # us) \<subseteq> set ts" using filter_is_subset [of "\<lambda>t. tm_StartDate t \<le> d" ts] by simp
    then have "last (u # us) \<in> set ts" using last_in_set [of "u # us"] by blast
    have "recurringTermAt ts d = Some (last (u # us))"
      using term_at_loop_spec [OF assms(1) refl None, of None] assms(2) Cons by (simp add: recurringTermAt_def)
    then show ?thesis using \<open>last (u # us) \<in> set ts\<close> by (rule that) (use nc in auto)
  qed
next
  case (Some t)
  then have t: "t \<in> set ts" using recurringTermContaining_iff [OF assms(1)] by blast
  have eq: "t = u" if "u \<in> set ts" "covers u d" for u
    using recurringTermContaining_iff [OF assms(1), of d u] that Some by simp
  have "recurringTermAt ts d = Some t"
    using term_at_loop_covered [OF Some] assms(2) by (simp add: recurringTermAt_def)
  from that [OF this t eq] show ?thesis .
qed

text \<open>The derived summary of a series agrees with its terms: its start is the earliest start, its
  end is the end of the last term (open if that is open, and otherwise no term outlives it), and
  the account and amount shown are those of one of its terms, the covering one if today is
  covered.\<close>

theorem deriveRecurringSeries_spec:
  fixes now :: date and s :: recurring_series
  assumes "terms_ok ts" and "ts \<noteq> []"
  defines "s' \<equiv> deriveRecurringSeries now s ts"
  shows "(\<forall>t \<in> set ts. rs_StartDate s' \<le> tm_StartDate t)
    \<and> rs_EndDate s' = tm_EndDate (last ts)
    \<and> (\<forall>t \<in> set ts. \<forall>d. covers t d \<longrightarrow> d \<in> span (rs_StartDate s') (rs_EndDate s'))
    \<and> (\<exists>t \<in> set ts. rs_AccountID s' = tm_AccountID t \<and> rs_Amount s' = tm_Amount t)
    \<and> (\<forall>t \<in> set ts. covers t now \<longrightarrow> rs_AccountID s' = tm_AccountID t \<and> rs_Amount s' = tm_Amount t)"
proof -
  obtain c where c: "recurringTermAt ts now = Some c" "c \<in> set ts"
    "\<And>t. t \<in> set ts \<Longrightarrow> covers t now \<Longrightarrow> c = t"
    using recurringTermAt_member [OF assms(1,2)] by blast
  have s': "rs_StartDate s' = tm_StartDate (hd ts)" "rs_EndDate s' = tm_EndDate (last ts)"
    "rs_AccountID s' = tm_AccountID c" "rs_Amount s' = tm_Amount c"
    using assms(2) c(1) by (simp_all add: s'_def deriveRecurringSeries_def Let_def)
  note first = terms_ok_first [OF assms(1)] and final = terms_ok_final [OF assms(1)]
  have p: "proper (tm_StartDate (last ts)) (tm_EndDate (last ts))"
    using assms(1,2) by (simp add: terms_ok_def)
  have inside: "d \<in> span (tm_StartDate (hd ts)) (tm_EndDate (last ts))" if "t \<in> set ts" "covers t d" for t d
  proof (cases "t = last ts")
    case True
    then show ?thesis using first [OF that(1)] that(2) by (simp add: in_span)
  next
    case False
    then have "ends_by (tm_EndDate t) (tm_StartDate (last ts))" using final [OF that(1)] by simp
    then show ?thesis
      using p first [OF that(1)] that(2) by (auto simp: in_span ends_by_def proper_def split: option.splits)
  qed
  have "\<exists>t \<in> set ts. rs_AccountID s' = tm_AccountID t \<and> rs_Amount s' = tm_Amount t"
    using s'(3,4) c(2) by blast
  moreover have "rs_AccountID s' = tm_AccountID t \<and> rs_Amount s' = tm_Amount t"
    if "t \<in> set ts" "covers t now" for t
    using s'(3,4) c(3) [OF that] by simp
  ultimately show ?thesis using first inside unfolding s'(1,2) by blast
qed

theorem deriveRecurringSeries_spec_witness:
  "rs_StartDate (deriveRecurringSeries 150 ex_milk ex_terms) \<le> 100
   \<and> rs_EndDate (deriveRecurringSeries 150 ex_milk ex_terms) = None"
  using deriveRecurringSeries_spec [OF ex_terms_ok, of 150 ex_milk] by (simp add: ex_terms_def)

end
