(* ===== verification/Ratelimit.thy ===== *)
theory Ratelimit
  imports Go_Text Validation Complex_Main
begin

text \<open>
  The keyed token-bucket limiter of \<open>backend/internal/ratelimit\<close> and the login throttle built on
  it (\<open>backend/handlers/ratelimit.go\<close>). Times are nanoseconds. \<open>rate.NewLimiter\<close> and
  \<open>(*rate.Limiter).AllowN\<close> belong to golang.org/x/time/rate and are the arguments \<open>newLimiter\<close>
  and \<open>allowN\<close>; the map of entries is the list of its pairs in the order a \<open>range\<close> over it visits
  them, which Go leaves open, so every statement is about an arbitrary such list.
\<close>

section \<open>State\<close>

record 'r config =
  cf_Rate :: 'r
  cf_Burst :: int
  cf_TTL :: int
  cf_MaxKeys :: int

record 'b entry =
  en_limiter :: 'b
  en_lastSeen :: int

record ('r, 'b) limiter =
  lm_entries :: "(string \<times> 'b entry) list"
  lm_cfg :: "'r config"

definition defaultMaxKeys :: int where "defaultMaxKeys = 10000"

definition minute :: int where "minute = 60000000000"

definition DefaultConfig :: "(int \<Rightarrow> 'r) \<Rightarrow> 'r config" where
  "DefaultConfig every = \<lparr>cf_Rate = every (6 * 1000000000), cf_Burst = 5, cf_TTL = 10 * minute,
     cf_MaxKeys = defaultMaxKeys\<rparr>"

definition DefaultFailureConfig :: "(int \<Rightarrow> 'r) \<Rightarrow> 'r config" where
  "DefaultFailureConfig every = \<lparr>cf_Rate = every (30 * 1000000000), cf_Burst = 50, cf_TTL = 10 * minute,
     cf_MaxKeys = defaultMaxKeys\<rparr>"

definition New :: "'r config \<Rightarrow> ('r, 'b) limiter" where
  "New cfg =
     (let cfg = (if cf_Burst cfg < 1 then cfg\<lparr>cf_Burst := 1\<rparr> else cfg);
          cfg = (if cf_TTL cfg \<le> 0 then cfg\<lparr>cf_TTL := 10 * minute\<rparr> else cfg);
          cfg = (if cf_MaxKeys cfg < 1 then cfg\<lparr>cf_MaxKeys := defaultMaxKeys\<rparr> else cfg)
      in \<lparr>lm_entries = [], lm_cfg = cfg\<rparr>)"

section \<open>Operations\<close>

definition evictLocked :: "int \<Rightarrow> ('r, 'b) limiter \<Rightarrow> ('r, 'b) limiter" where
  "evictLocked now l =
     (let cutoff = now - cf_TTL (lm_cfg l)
      in l\<lparr>lm_entries := filter (\<lambda>(k, e). \<not> en_lastSeen e < cutoff) (lm_entries l)\<rparr>)"

fun stalest_loop :: "string \<Rightarrow> int \<Rightarrow> (string \<times> 'b entry) list \<Rightarrow> string" where
  "stalest_loop stalestKey stalestSeen [] = stalestKey"
| "stalest_loop stalestKey stalestSeen ((k, e) # es) =
     (if stalestKey = [] \<or> en_lastSeen e < stalestSeen then stalest_loop k (en_lastSeen e) es
      else stalest_loop stalestKey stalestSeen es)"

definition delete_key :: "string \<Rightarrow> (string \<times> 'b) list \<Rightarrow> (string \<times> 'b) list" where
  "delete_key key es = filter (\<lambda>(k, e). k \<noteq> key) es"

definition evictStalestLocked :: "('r, 'b) limiter \<Rightarrow> ('r, 'b) limiter" where
  "evictStalestLocked l =
     (let stalestKey = stalest_loop [] 0 (lm_entries l)
      in if stalestKey \<noteq> [] then l\<lparr>lm_entries := delete_key stalestKey (lm_entries l)\<rparr> else l)"

definition make_room :: "int \<Rightarrow> ('r, 'b) limiter \<Rightarrow> ('r, 'b) limiter" where
  "make_room now l =
     (if int (length (lm_entries l)) \<ge> cf_MaxKeys (lm_cfg l) then
        let l = evictLocked now l
        in if int (length (lm_entries l)) \<ge> cf_MaxKeys (lm_cfg l) then evictStalestLocked l else l
      else l)"

definition put_entry :: "string \<Rightarrow> 'b \<Rightarrow> (string \<times> 'b) list \<Rightarrow> (string \<times> 'b) list" where
  "put_entry key e es =
     (if map_of es key = None then es @ [(key, e)] else map (\<lambda>(k, d). if k = key then (k, e) else (k, d)) es)"

text \<open>The entries are pointers in Go, so the mutation of \<open>e.limiter\<close> and \<open>e.lastSeen\<close> is a
  replacement of the key's entry. A nil limiter allows everything and has no state.\<close>

definition Allow ::
  "('r \<Rightarrow> int \<Rightarrow> 'b) \<Rightarrow> ('b \<Rightarrow> int \<Rightarrow> bool \<times> 'b) \<Rightarrow> int \<Rightarrow> string \<Rightarrow> ('r, 'b) limiter option
    \<Rightarrow> bool \<times> ('r, 'b) limiter option" where
  "Allow newLimiter allowN now key lm =
     (case lm of None \<Rightarrow> (True, None)
      | Some l \<Rightarrow>
          let (l, bucket) =
                (case map_of (lm_entries l) key of
                   Some e \<Rightarrow> (l, en_limiter e)
                 | None \<Rightarrow> (make_room now l, newLimiter (cf_Rate (lm_cfg l)) (cf_Burst (lm_cfg l))));
              (ok, bucket') = allowN bucket now
          in (ok, Some (l\<lparr>lm_entries := put_entry key \<lparr>en_limiter = bucket', en_lastSeen = now\<rparr> (lm_entries l)\<rparr>)))"

definition Reset :: "string \<Rightarrow> ('r, 'b) limiter option \<Rightarrow> ('r, 'b) limiter option" where
  "Reset key lm = map_option (\<lambda>l. l\<lparr>lm_entries := delete_key key (lm_entries l)\<rparr>) lm"

definition Evict :: "int \<Rightarrow> ('r, 'b) limiter option \<Rightarrow> ('r, 'b) limiter option" where
  "Evict now lm = map_option (evictLocked now) lm"

section \<open>The login throttle\<close>

definition authFailureKey :: "string \<Rightarrow> string \<Rightarrow> string" where
  "authFailureKey action email = action @ '':fail:'' @ to_lower (trim_space email)"

definition allowAuthAttempt where
  "allowAuthAttempt newLimiter allowN now action ip lm
     = Allow newLimiter allowN now (action @ '':ip:'' @ ip) lm"

definition recordAuthFailure where
  "recordAuthFailure newLimiter allowN now action email lm
     = Allow newLimiter allowN now (authFailureKey action email) lm"

definition refundAuthFailures where
  "refundAuthFailures action email lm = Reset (authFailureKey action email) lm"

section \<open>Invariant\<close>

definition limiter_ok :: "('r, 'b) limiter \<Rightarrow> bool" where
  "limiter_ok l \<longleftrightarrow> distinct (map fst (lm_entries l)) \<and> [] \<notin> fst ` set (lm_entries l)
     \<and> 1 \<le> cf_MaxKeys (lm_cfg l) \<and> int (length (lm_entries l)) \<le> cf_MaxKeys (lm_cfg l)
     \<and> 1 \<le> cf_Burst (lm_cfg l) \<and> 0 < cf_TTL (lm_cfg l)"

lemma limiter_ok_New: "limiter_ok (New cfg)"
  by (auto simp: limiter_ok_def New_def Let_def defaultMaxKeys_def minute_def)

lemma distinct_filter_keys: "distinct (map fst es) \<Longrightarrow> distinct (map fst (filter P es))"
  by (induction es) auto

lemma limiter_ok_filter:
  assumes "limiter_ok l"
  shows "limiter_ok (l\<lparr>lm_entries := filter P (lm_entries l)\<rparr>)"
proof -
  have "length (filter P (lm_entries l)) \<le> length (lm_entries l)" by simp
  then have "int (length (filter P (lm_entries l))) \<le> int (length (lm_entries l))" by simp
  then show ?thesis
    using assms distinct_filter_keys [of "lm_entries l" P] by (auto simp: limiter_ok_def simp del: length_filter_le)
qed

lemma limiter_ok_evictLocked: "limiter_ok l \<Longrightarrow> limiter_ok (evictLocked now l)"
  by (simp add: evictLocked_def Let_def limiter_ok_filter)

lemma limiter_ok_evictStalest: "limiter_ok l \<Longrightarrow> limiter_ok (evictStalestLocked l)"
  by (simp add: evictStalestLocked_def Let_def limiter_ok_filter delete_key_def)

lemma limiter_ok_Reset: "limiter_ok l \<Longrightarrow> limiter_ok (l\<lparr>lm_entries := delete_key key (lm_entries l)\<rparr>)"
  by (simp add: delete_key_def limiter_ok_filter)

text \<open>The key found is one of the map, last seen no later than any other.\<close>

lemma stalest_loop_least:
  assumes "[] \<notin> fst ` set es" "key \<noteq> []" "(key, d) \<in> set es0" "en_lastSeen d = seen"
  shows "\<exists>e. (stalest_loop key seen es, e) \<in> set es0 \<union> set es
    \<and> en_lastSeen e \<le> seen \<and> (\<forall>(k, f) \<in> set es. en_lastSeen e \<le> en_lastSeen f)"
  using assms
proof (induction es arbitrary: key seen d es0)
  case Nil
  then show ?case by auto
next
  case (Cons p es)
  obtain k f where p: "p = (k, f)" by force
  show ?case
  proof (cases "en_lastSeen f < seen")
    case True
    have "\<exists>e. (stalest_loop k (en_lastSeen f) es, e) \<in> set [(k, f)] \<union> set es
        \<and> en_lastSeen e \<le> en_lastSeen f \<and> (\<forall>(k, f) \<in> set es. en_lastSeen e \<le> en_lastSeen f)"
      by (rule Cons.IH [of k f "[(k, f)]"]) (use Cons.prems(1) p in auto)
    then show ?thesis using True p by fastforce
  next
    case False
    have "\<exists>e. (stalest_loop key seen es, e) \<in> set es0 \<union> set es
        \<and> en_lastSeen e \<le> seen \<and> (\<forall>(k, f) \<in> set es. en_lastSeen e \<le> en_lastSeen f)"
      by (rule Cons.IH [of key d es0]) (use Cons.prems in auto)
    then show ?thesis using False Cons.prems(2) p by fastforce
  qed
qed

lemma stalest_found:
  assumes "[] \<notin> fst ` set es" "es \<noteq> []"
  shows "stalest_loop [] 0 es \<noteq> [] \<and> (\<exists>e. (stalest_loop [] 0 es, e) \<in> set es
    \<and> (\<forall>(k, f) \<in> set es. en_lastSeen e \<le> en_lastSeen f))"
proof -
  obtain k0 e0 rest where es: "es = (k0, e0) # rest" using assms(2) by (cases es) auto
  then have k0: "k0 \<noteq> []" "[] \<notin> fst ` set rest" using assms(1) by auto
  obtain e where e: "(stalest_loop k0 (en_lastSeen e0) rest, e) \<in> set es" "en_lastSeen e \<le> en_lastSeen e0"
    "\<forall>(k, f) \<in> set rest. en_lastSeen e \<le> en_lastSeen f"
    using stalest_loop_least [OF k0(2,1), of e0 es "en_lastSeen e0"] es by auto
  have "stalest_loop k0 (en_lastSeen e0) rest \<noteq> []"
    using e(1) assms(1) by force
  moreover have "\<forall>(k, f) \<in> set es. en_lastSeen e \<le> en_lastSeen f" using e(2,3) es by simp
  moreover have eq: "stalest_loop [] 0 es = stalest_loop k0 (en_lastSeen e0) rest" by (simp add: es)
  ultimately show ?thesis unfolding eq using e(1) by blast
qed

lemma delete_key_length:
  assumes "distinct (map fst es)" "(k, e) \<in> set es"
  shows "Suc (length (delete_key k es)) = length es"
  using assms
proof (induction es)
  case Nil
  then show ?case by simp
next
  case (Cons p es)
  show ?case
  proof (cases "fst p = k")
    case True
    then have "k \<notin> fst ` set es" using Cons.prems(1) by simp
    then have "\<forall>q \<in> set es. fst q \<noteq> k" by blast
    then have "delete_key k es = es" by (auto simp: delete_key_def intro!: filter_True)
    then show ?thesis using True by (cases p) (simp add: delete_key_def)
  next
    case False
    then show ?thesis using Cons by (cases p) (auto simp: delete_key_def)
  qed
qed

lemma make_room_ok:
  assumes "limiter_ok l"
  shows "limiter_ok (make_room now l)" and "lm_cfg (make_room now l) = lm_cfg l"
    and "int (length (lm_entries (make_room now l))) < cf_MaxKeys (lm_cfg l)"
    and "set (lm_entries (make_room now l)) \<subseteq> set (lm_entries l)"
proof -
  let ?m = "evictLocked now l"
  have m: "limiter_ok ?m" "lm_cfg ?m = lm_cfg l"
    using assms by (simp_all add: limiter_ok_evictLocked) (simp add: evictLocked_def Let_def)
  show "limiter_ok (make_room now l)"
    using assms m by (simp add: make_room_def Let_def limiter_ok_evictStalest)
  show "lm_cfg (make_room now l) = lm_cfg l"
    by (simp add: make_room_def Let_def evictStalestLocked_def evictLocked_def)
  show "set (lm_entries (make_room now l)) \<subseteq> set (lm_entries l)"
    by (auto simp: make_room_def Let_def evictStalestLocked_def evictLocked_def delete_key_def)
  show "int (length (lm_entries (make_room now l))) < cf_MaxKeys (lm_cfg l)"
  proof (cases "int (length (lm_entries l)) \<ge> cf_MaxKeys (lm_cfg l)
      \<and> int (length (lm_entries ?m)) \<ge> cf_MaxKeys (lm_cfg l)")
    case True
    then have "lm_entries ?m \<noteq> []" using m by (auto simp: limiter_ok_def)
    moreover have "[] \<notin> fst ` set (lm_entries ?m)" using m(1) by (simp add: limiter_ok_def)
    ultimately obtain e where "stalest_loop [] 0 (lm_entries ?m) \<noteq> []"
        "(stalest_loop [] 0 (lm_entries ?m), e) \<in> set (lm_entries ?m)"
      using stalest_found by blast
    then have "Suc (length (lm_entries (evictStalestLocked ?m))) = length (lm_entries ?m)"
      using delete_key_length [of "lm_entries ?m" _ e] m(1)
      by (simp add: evictStalestLocked_def Let_def limiter_ok_def)
    moreover have "int (length (lm_entries ?m)) \<le> cf_MaxKeys (lm_cfg l)"
      using m by (simp add: limiter_ok_def)
    ultimately show ?thesis using True m(2) by (simp add: make_room_def Let_def)
  next
    case False
    then show ?thesis using m(2) by (auto simp: make_room_def Let_def)
  qed
qed

lemma replace_keys: "map fst (map (\<lambda>(k, d). if k = key then (k, e) else (k, d)) es) = map fst es"
  by (induction es) auto

lemma put_entry_keys: "fst ` set (put_entry key e es) = insert key (fst ` set es)"
proof (cases "map_of es key")
  case None
  then show ?thesis by (simp add: put_entry_def)
next
  case (Some d)
  then have "key \<in> fst ` set es" by (metis map_of_eq_None_iff option.distinct(1))
  moreover have "fst ` set (put_entry key e es) = set (map fst es)"
    unfolding put_entry_def set_map [symmetric] by (simp only: Some replace_keys option.distinct if_False)
  ultimately show ?thesis by (simp add: insert_absorb)
qed

lemma put_entry_distinct:
  "distinct (map fst es) \<Longrightarrow> distinct (map fst (put_entry key e es))"
  by (auto simp: put_entry_def map_of_eq_None_iff replace_keys simp del: map_map)

lemma put_entry_length:
  "length (put_entry key e es) = (if map_of es key = None then Suc (length es) else length es)"
  by (simp add: put_entry_def)

lemma put_entry_lookup [simp]: "map_of (put_entry key e es) key = Some e"
proof (cases "map_of es key")
  case None
  then show ?thesis by (simp add: put_entry_def map_add_def)
next
  case (Some d)
  then have "map_of (map (\<lambda>(k, d). if k = key then (k, e) else (k, d)) es) key = Some e"
    by (induction es) (auto split: if_splits)
  then show ?thesis using Some by (simp add: put_entry_def)
qed

lemma Allow_eq:
  fixes newLimiter allowN now key l
  defines "b \<equiv> (case map_of (lm_entries l) key of Some e \<Rightarrow> en_limiter e
      | None \<Rightarrow> newLimiter (cf_Rate (lm_cfg l)) (cf_Burst (lm_cfg l)))"
    and "l1 \<equiv> (if map_of (lm_entries l) key = None then make_room now l else l)"
  shows "Allow newLimiter allowN now key (Some l) = (fst (allowN b now),
    Some (l1\<lparr>lm_entries := put_entry key \<lparr>en_limiter = snd (allowN b now), en_lastSeen = now\<rparr> (lm_entries l1)\<rparr>))"
  unfolding b_def l1_def
  by (cases "map_of (lm_entries l) key") (simp_all add: Allow_def Let_def split_beta)

lemma limiter_ok_Allow:
  assumes "limiter_ok l" "key \<noteq> []" "Allow newLimiter allowN now key (Some l) = (ok, lm')"
  shows "\<exists>l' e. lm' = Some l' \<and> limiter_ok l' \<and> lm_cfg l' = lm_cfg l
    \<and> map_of (lm_entries l') key = Some e \<and> en_lastSeen e = now"
proof (cases "map_of (lm_entries l) key")
  case (Some e)
  then have "fst ` set (put_entry key d (lm_entries l)) = fst ` set (lm_entries l)" for d
    using put_entry_keys [of key d "lm_entries l"] by (metis insert_absorb map_of_eq_None_iff option.distinct(1))
  then show ?thesis
    using assms Some by (auto simp: Allow_def limiter_ok_def Let_def put_entry_distinct put_entry_length split: prod.splits)
next
  case None
  then have "key \<notin> fst ` set (lm_entries l)" by (simp add: map_of_eq_None_iff)
  then have new: "map_of (lm_entries (make_room now l)) key = None"
    using make_room_ok(4) [OF assms(1), of now] by (auto simp: map_of_eq_None_iff)
  obtain d where lm': "lm' = Some ((make_room now l)\<lparr>lm_entries :=
      put_entry key \<lparr>en_limiter = d, en_lastSeen = now\<rparr> (lm_entries (make_room now l))\<rparr>)"
    using assms(3) None by (auto simp: Allow_def Let_def split: prod.splits)
  have "limiter_ok ((make_room now l)\<lparr>lm_entries :=
      put_entry key \<lparr>en_limiter = d, en_lastSeen = now\<rparr> (lm_entries (make_room now l))\<rparr>)"
    using make_room_ok [OF assms(1), of now] assms(2) new
    by (simp add: limiter_ok_def put_entry_distinct put_entry_length put_entry_keys)
  then show ?thesis using lm' make_room_ok(2) [OF assms(1), of now] by simp
qed


section \<open>Sequences of requests\<close>

text \<open>The limiter's life: the operations the server and the janitor perform, each at its own time.\<close>

datatype op = Attempt string string | Failure string string | Refund string string | Tick

fun step_op where
  "step_op newLimiter allowN now (Attempt action ip) lm
     = snd (allowAuthAttempt newLimiter allowN now action ip lm)"
| "step_op newLimiter allowN now (Failure action email) lm
     = snd (recordAuthFailure newLimiter allowN now action email lm)"
| "step_op newLimiter allowN now (Refund action email) lm = refundAuthFailures action email lm"
| "step_op newLimiter allowN now Tick lm = Evict now lm"

fun run_ops where
  "run_ops newLimiter allowN [] lm = lm"
| "run_ops newLimiter allowN ((now, o1) # ops) lm
     = run_ops newLimiter allowN ops (step_op newLimiter allowN now o1 lm)"

lemma step_op_ok:
  assumes "limiter_ok l"
  shows "\<exists>l'. step_op newLimiter allowN now o1 (Some l) = Some l' \<and> limiter_ok l' \<and> lm_cfg l' = lm_cfg l"
proof (cases o1)
  case (Attempt action ip)
  obtain ok lm' where a: "Allow newLimiter allowN now (action @ '':ip:'' @ ip) (Some l) = (ok, lm')" by force
  from limiter_ok_Allow [OF assms _ a] show ?thesis using a by (auto simp: Attempt allowAuthAttempt_def)
next
  case (Failure action email)
  obtain ok lm' where a: "Allow newLimiter allowN now (authFailureKey action email) (Some l) = (ok, lm')" by force
  from limiter_ok_Allow [OF assms _ a] show ?thesis
    using a by (auto simp: Failure recordAuthFailure_def authFailureKey_def)
next
  case (Refund action email)
  then show ?thesis using limiter_ok_Reset [OF assms] by (simp add: refundAuthFailures_def Reset_def)
next
  case Tick
  then show ?thesis using limiter_ok_evictLocked [OF assms] by (simp add: Evict_def evictLocked_def Let_def)
qed

lemma run_ops_ok:
  "limiter_ok l \<Longrightarrow> \<exists>l'. run_ops newLimiter allowN ops (Some l) = Some l' \<and> limiter_ok l' \<and> lm_cfg l' = lm_cfg l"
proof (induction ops arbitrary: l)
  case Nil
  then show ?case by simp
next
  case (Cons p ops)
  obtain now o1 where p: "p = (now, o1)" by force
  obtain l1 where l1: "step_op newLimiter allowN now o1 (Some l) = Some l1" "limiter_ok l1" "lm_cfg l1 = lm_cfg l"
    using step_op_ok [OF Cons.prems] by blast
  from Cons.IH [OF l1(2)] show ?case using l1 p by simp
qed

lemma attempt_served:
  assumes "limiter_ok l"
  shows "\<exists>l' e. snd (allowAuthAttempt newLimiter allowN now action ip (Some l)) = Some l'
    \<and> limiter_ok l' \<and> lm_cfg l' = lm_cfg l
    \<and> map_of (lm_entries l') (action @ '':ip:'' @ ip) = Some e \<and> en_lastSeen e = now"
proof -
  obtain ok lm' where a: "Allow newLimiter allowN now (action @ '':ip:'' @ ip) (Some l) = (ok, lm')" by force
  have ne: "action @ '':ip:'' @ ip \<noteq> []" by simp
  from limiter_ok_Allow [OF assms ne a] a show ?thesis by (auto simp: allowAuthAttempt_def)
qed

definition max_keys :: "'r config \<Rightarrow> int" where
  "max_keys cfg = (if cf_MaxKeys cfg < 1 then defaultMaxKeys else cf_MaxKeys cfg)"

lemma New_MaxKeys: "cf_MaxKeys (lm_cfg (New cfg)) = max_keys cfg"
  by (simp add: New_def Let_def max_keys_def)

text \<open>C25. The limiter's memory is bounded whatever is thrown at it: after any sequence of login
  attempts, failures, refunds and janitor ticks on a fresh limiter, it tracks at most \<open>MaxKeys\<close>
  keys (10,000 when the configured cap is not positive), each once, and the next attempt of any client is still served (its bucket is in the map,
  stamped with the current time), so the cap itself never refuses anyone.\<close>

theorem limiter_bounded:
  "\<exists>l. run_ops newLimiter allowN ops (Some (New cfg)) = Some l
    \<and> distinct (map fst (lm_entries l)) \<and> int (length (lm_entries l)) \<le> max_keys cfg
    \<and> (\<exists>l' e. snd (allowAuthAttempt newLimiter allowN now action ip (Some l)) = Some l'
        \<and> map_of (lm_entries l') (action @ '':ip:'' @ ip) = Some e \<and> en_lastSeen e = now
        \<and> int (length (lm_entries l')) \<le> max_keys cfg)"
proof -
  from run_ops_ok [OF limiter_ok_New]
  obtain l where l: "run_ops newLimiter allowN ops (Some (New cfg)) = Some l" "limiter_ok l"
      "cf_MaxKeys (lm_cfg l) = max_keys cfg" using New_MaxKeys by metis
  from attempt_served [OF l(2)]
  obtain l' e where l': "snd (allowAuthAttempt newLimiter allowN now action ip (Some l)) = Some l'"
      "limiter_ok l'" "lm_cfg l' = lm_cfg l"
      "map_of (lm_entries l') (action @ '':ip:'' @ ip) = Some e" "en_lastSeen e = now" by metis
  have "distinct (map fst (lm_entries l))" "int (length (lm_entries l)) \<le> max_keys cfg"
      "int (length (lm_entries l')) \<le> max_keys cfg"
    using l(2) l'(2) unfolding limiter_ok_def l'(3) l(3) by simp_all
  then show ?thesis using l(1) l'(1,4,5) by metis
qed

section \<open>Eviction\<close>

text \<open>A bucket is only ever lost for a reason: when serving a request drops the entry of some
  other key, that entry had been idle longer than the TTL, or it was the least recently used of all
  the entries still within the TTL.\<close>

theorem evicted_for_a_reason:
  assumes "limiter_ok l" and "(k, e) \<in> set (lm_entries l)"
    and "Allow newLimiter allowN now key (Some l) = (ok, Some l')" and "k \<noteq> key"
    and "(k, e) \<notin> set (lm_entries l')"
  shows "en_lastSeen e < now - cf_TTL (lm_cfg l)
    \<or> (\<forall>(k', f) \<in> set (lm_entries l). en_lastSeen f < now - cf_TTL (lm_cfg l) \<or> en_lastSeen e \<le> en_lastSeen f)"
proof -
  let ?m = "evictLocked now l"
  have keep: "(k, e) \<in> set (put_entry key d es)" if "(k, e) \<in> set es" for d es
    using that assms(4) by (force simp: put_entry_def)
  have gone: "(k, e) \<notin> set (lm_entries (make_room now l))"
  proof (cases "map_of (lm_entries l) key")
    case None
    then show ?thesis using assms(3,5) keep by (auto simp: Allow_def Let_def split: prod.splits)
  next
    case (Some d)
    then show ?thesis using assms(2,3,5) keep by (auto simp: Allow_def Let_def split: prod.splits)
  qed
  have m: "limiter_ok ?m" using assms(1) by (rule limiter_ok_evictLocked)
  have in_m: "(k', f) \<in> set (lm_entries ?m) \<longleftrightarrow>
      (k', f) \<in> set (lm_entries l) \<and> \<not> en_lastSeen f < now - cf_TTL (lm_cfg l)" for k' f
    by (auto simp: evictLocked_def Let_def)
  show ?thesis
  proof (cases "(k, e) \<in> set (lm_entries ?m)")
    case False
    then show ?thesis using in_m [of k e] assms(2) by blast
  next
    case True
    then have ev: "make_room now l = evictStalestLocked ?m"
      using gone assms(2) by (auto simp: make_room_def Let_def split: if_splits)
    have "[] \<notin> fst ` set (lm_entries ?m)" "lm_entries ?m \<noteq> []"
      using m True by (auto simp: limiter_ok_def)
    from stalest_found [OF this] obtain e0 where e0: "(stalest_loop [] 0 (lm_entries ?m), e0) \<in> set (lm_entries ?m)"
        "\<forall>(k', f) \<in> set (lm_entries ?m). en_lastSeen e0 \<le> en_lastSeen f" by blast
    have "k = stalest_loop [] 0 (lm_entries ?m)"
      using gone True unfolding ev by (auto simp: evictStalestLocked_def Let_def delete_key_def split: if_splits)
    then have "e = e0" using e0(1) True m by (auto simp: limiter_ok_def dest: eq_key_imp_eq_value)
    then show ?thesis using e0(2) in_m by auto
  qed
qed

definition ex_full :: "(unit, int) limiter" where
  "ex_full = \<lparr>lm_entries = [(''b'', \<lparr>en_limiter = 3, en_lastSeen = 7\<rparr>), (''a'', \<lparr>en_limiter = 1, en_lastSeen = 5\<rparr>)],
     lm_cfg = \<lparr>cf_Rate = (), cf_Burst = 5, cf_TTL = 100, cf_MaxKeys = 2\<rparr>\<rparr>"

text \<open>A bucket that never refills, for the concrete instances.\<close>

definition ex_new :: "unit \<Rightarrow> int \<Rightarrow> int" where "ex_new r b = b"

definition ex_allow :: "int \<Rightarrow> int \<Rightarrow> bool \<times> int" where
  "ex_allow n now = (if 1 \<le> n then (True, n - 1) else (False, n))"

theorem evicted_for_a_reason_witness:
  "5 \<le> en_lastSeen (snd (hd (lm_entries ex_full)))"
proof -
  have ok: "limiter_ok ex_full" by (simp add: limiter_ok_def ex_full_def)
  have a: "Allow ex_new ex_allow 10 ''c'' (Some ex_full) = (True, Some (ex_full\<lparr>lm_entries :=
      [(''b'', \<lparr>en_limiter = 3, en_lastSeen = 7\<rparr>), (''c'', \<lparr>en_limiter = 4, en_lastSeen = 10\<rparr>)]\<rparr>))"
    by (simp add: Allow_def ex_full_def ex_new_def ex_allow_def make_room_def evictLocked_def Let_def
        evictStalestLocked_def delete_key_def put_entry_def)
  show ?thesis
    using evicted_for_a_reason [OF ok _ a, of "''a''" "\<lparr>en_limiter = 1, en_lastSeen = 5\<rparr>"]
    by (simp add: ex_full_def)
qed

section \<open>The failure budget\<close>

text \<open>
  What golang.org/x/time/rate documents of a limiter, with \<open>level b t\<close> the tokens it holds at time
  \<open>t\<close>: a new one is full, and \<open>AllowN(t, 1)\<close> takes one token if there is one and otherwise refuses
  and takes none.
\<close>

definition bucket_laws ::
  "('r \<Rightarrow> int \<Rightarrow> 'b) \<Rightarrow> ('b \<Rightarrow> int \<Rightarrow> bool \<times> 'b) \<Rightarrow> ('b \<Rightarrow> int \<Rightarrow> rat) \<Rightarrow> bool" where
  "bucket_laws newLimiter allowN level \<longleftrightarrow>
     (\<forall>r n t. 1 \<le> n \<longrightarrow> level (newLimiter r n) t = of_int n)
     \<and> (\<forall>b t. 1 \<le> level b t \<longrightarrow> fst (allowN b t) \<and> level (snd (allowN b t)) t = level b t - 1)
     \<and> (\<forall>b t. level b t < 1 \<longrightarrow> \<not> fst (allowN b t) \<and> level (snd (allowN b t)) t = level b t)"

fun failures where
  "failures newLimiter allowN now action email 0 lm = ([], lm)"
| "failures newLimiter allowN now action email (Suc n) lm =
     (case recordAuthFailure newLimiter allowN now action email lm of (ok, lm') \<Rightarrow>
        case failures newLimiter allowN now action email n lm' of (oks, lm'') \<Rightarrow> (ok # oks, lm''))"

definition level_at where
  "level_at newLimiter level now key l =
     (case map_of (lm_entries l) key of
        Some e \<Rightarrow> level (en_limiter e) now
      | None \<Rightarrow> of_int (cf_Burst (lm_cfg l)))"

lemma Allow_level:
  assumes "bucket_laws newLimiter allowN level" "1 \<le> cf_Burst (lm_cfg l)"
    and "Allow newLimiter allowN now key (Some l) = (ok, lm')"
  shows "\<exists>l'. lm' = Some l' \<and> lm_cfg l' = lm_cfg l
    \<and> (ok \<longleftrightarrow> 1 \<le> level_at newLimiter level now key l)
    \<and> level_at newLimiter level now key l' = level_at newLimiter level now key l - (if ok then 1 else 0)"
proof -
  define b where "b = (case map_of (lm_entries l) key of Some e \<Rightarrow> en_limiter e
      | None \<Rightarrow> newLimiter (cf_Rate (lm_cfg l)) (cf_Burst (lm_cfg l)))"
  have lv: "level b now = level_at newLimiter level now key l"
    using assms(1,2) by (cases "map_of (lm_entries l) key") (simp_all add: b_def level_at_def bucket_laws_def)
  note eq = Allow_eq [of newLimiter allowN now key l, folded b_def, unfolded assms(3) prod.inject]
  have "(ok \<longleftrightarrow> 1 \<le> level b now) \<and> level (snd (allowN b now)) now = level b now - (if ok then 1 else 0)"
  proof (cases "1 \<le> level b now")
    case True
    then show ?thesis using assms(1) eq unfolding bucket_laws_def by simp
  next
    case False
    then show ?thesis using assms(1) eq unfolding bucket_laws_def by (simp add: not_le)
  qed
  moreover have "lm_cfg (if map_of (lm_entries l) key = None then make_room now l else l) = lm_cfg l"
    by (simp add: make_room_def Let_def evictStalestLocked_def evictLocked_def)
  ultimately show ?thesis using eq lv by (simp add: level_at_def)
qed

lemma failures_level:
  assumes "bucket_laws newLimiter allowN level" "1 \<le> cf_Burst (lm_cfg l)"
    and "level_at newLimiter level now (authFailureKey action email) l = of_int m" "0 \<le> m"
  shows "fst (failures newLimiter allowN now action email n (Some l)) = map (\<lambda>i. int i < m) [0..<n]"
  using assms(2-)
proof (induction n arbitrary: l m)
  case 0
  then show ?case by simp
next
  case (Suc n)
  let ?key = "authFailureKey action email"
  obtain ok lm' where a: "Allow newLimiter allowN now ?key (Some l) = (ok, lm')" by force
  obtain l' where l': "lm' = Some l'" "lm_cfg l' = lm_cfg l" "ok \<longleftrightarrow> 1 \<le> m"
      "level_at newLimiter level now ?key l' = of_int (if ok then m - 1 else m)"
    using Allow_level [OF assms(1) Suc.prems(1) a] Suc.prems(2) by auto
  have "fst (failures newLimiter allowN now action email n (Some l'))
      = map (\<lambda>i. int i < (if ok then m - 1 else m)) [0..<n]"
    by (rule Suc.IH) (use l' Suc.prems in \<open>auto split: if_splits\<close>)
  moreover have "[0..<Suc n] = 0 # map Suc [0..<n]" by (simp only: map_Suc_upt upt_conv_Cons zero_less_Suc)
  ultimately show ?case
    using a l'(1,3) Suc.prems(3) by (auto simp: recordAuthFailure_def split: prod.splits)
qed

text \<open>C26. A correct password always restores the full failure budget: right after
  \<open>refundAuthFailures\<close>, exactly the next \<open>Burst\<close> rejected attempts of that identity at one instant
  are answered with a verdict and every later one is throttled, whatever the state was before and
  however the address is spelled (case and surrounding blanks).\<close>

theorem failure_budget_restored:
  assumes "bucket_laws newLimiter allowN level" and "limiter_ok l"
    and "to_lower (trim_space email) = to_lower (trim_space email')"
  shows "fst (failures newLimiter allowN now action email' n (refundAuthFailures action email (Some l)))
    = map (\<lambda>i. int i < cf_Burst (lm_cfg l)) [0..<n]"
proof -
  define l0 where "l0 = l\<lparr>lm_entries := delete_key (authFailureKey action email') (lm_entries l)\<rparr>"
  have key: "authFailureKey action email = authFailureKey action email'"
    using assms(3) by (simp add: authFailureKey_def)
  have "map_of (lm_entries l0) (authFailureKey action email') = None"
    by (auto simp: l0_def delete_key_def map_of_eq_None_iff)
  then have "level_at newLimiter level now (authFailureKey action email') l0 = of_int (cf_Burst (lm_cfg l))"
    by (simp add: level_at_def l0_def)
  then have "fst (failures newLimiter allowN now action email' n (Some l0))
      = map (\<lambda>i. int i < cf_Burst (lm_cfg l)) [0..<n]"
    using assms(2) by (intro failures_level [OF assms(1)]) (simp_all add: l0_def limiter_ok_def)
  then show ?thesis by (simp add: refundAuthFailures_def Reset_def key l0_def)
qed

lemma ex_bucket_laws: "bucket_laws ex_new ex_allow (\<lambda>b t. of_int b)"
  by (simp add: bucket_laws_def ex_new_def ex_allow_def)

theorem failure_budget_restored_witness:
  "fst (failures ex_new ex_allow 10 ''login'' ''A@x '' 7 (refundAuthFailures ''login'' ''a@X'' (Some ex_full)))
    = [True, True, True, True, True, False, False]"
proof -
  have "limiter_ok ex_full" by (simp add: limiter_ok_def ex_full_def)
  moreover have "to_lower (trim_space ''a@X'') = to_lower (trim_space ''A@x '')" by code_simp
  ultimately have "fst (failures ex_new ex_allow 10 ''login'' ''A@x '' 7 (refundAuthFailures ''login'' ''a@X'' (Some ex_full)))
    = map (\<lambda>i. int i < cf_Burst (lm_cfg ex_full)) [0..<7]"
    by (rule failure_budget_restored [OF ex_bucket_laws])
  also have "\<dots> = [True, True, True, True, True, False, False]"
    by (simp add: ex_full_def upt_rec)
  finally show ?thesis .
qed

end
