(* ===== verification/Schedule.thy ===== *)
theory Schedule
  imports Recurring
begin

text \<open>
  The occurrence schedule of \<open>Recurring\<close>: month arithmetic never drifts from the anchor's day,
  occurrences are ordered, \<open>recurringUpcoming\<close> is the filtered prefix of the schedule, and
  \<open>nearestRecurringOccurrence\<close> finds a closest occurrence although it stops at the first one
  after the date.
\<close>

section \<open>Month arithmetic\<close>

lemma month_index_civil:
  "valid_civil y m d \<Longrightarrow> month_index (time_date y m d) = 12 * y + (m - 1)"
  by (simp add: month_index_def civil_time_date)

lemma month_of_index: "1 \<le> (k :: int) mod 12 + 1" "k mod 12 + 1 \<le> 12"
  using pos_mod_sign [of 12 k] pos_mod_bound [of 12 k] by simp_all

lemma addMonthsAnchored_eq:
  "addMonthsAnchored t k =
     (let Y = (month_index t + k) div 12; M = (month_index t + k) mod 12 + 1
      in time_date Y M (min (day_of t) (month_length Y M)))"
proof -
  define Y M where "Y = (month_index t + k) div 12" and "M = (month_index t + k) mod 12 + 1"
  have M: "1 \<le> M" "M \<le> 12" using month_of_index by (simp_all add: M_def)
  have f0: "valid_civil (year_of t) (month_of t) 1" by (rule valid_civil_first) simp_all
  have "add_date (time_date (year_of t) (month_of t) 1) 0 k 0 = time_date Y M 1"
    using civil_time_date [OF f0] time_date_month_index [of t k 1]
    by (simp add: add_date_def Y_def M_def)
  moreover have "year_of (time_date Y M 1) = Y" "month_of (time_date Y M 1) = M"
    using civil_time_date [OF valid_civil_first [OF M]] by simp_all
  ultimately show ?thesis
    by (simp add: addMonthsAnchored_def Let_def daysInMonth_eq [OF M] min_def
        flip: Y_def M_def)
qed

lemma addMonthsAnchored_civil:
  defines "Y t k \<equiv> (month_index t + k) div 12" and "M t k \<equiv> (month_index t + k) mod 12 + 1"
  shows "year_of (addMonthsAnchored t k) = Y t k" "month_of (addMonthsAnchored t k) = M t k"
    "day_of (addMonthsAnchored t k) = min (day_of t) (month_length (Y t k) (M t k))"
proof -
  have M: "1 \<le> M t k" "M t k \<le> 12" using month_of_index by (simp_all add: M_def)
  have "valid_civil (Y t k) (M t k) (min (day_of t) (month_length (Y t k) (M t k)))"
    using month_length_range [OF M, of "Y t k"] day_of_range(1) [of t] M
    by (simp add: valid_civil_def)
  note v = civil_time_date [OF this]
  show "year_of (addMonthsAnchored t k) = Y t k" "month_of (addMonthsAnchored t k) = M t k"
    "day_of (addMonthsAnchored t k) = min (day_of t) (month_length (Y t k) (M t k))"
    using v by (simp_all add: addMonthsAnchored_eq Let_def flip: Y_def M_def)
qed

lemma month_index_addMonthsAnchored [simp]:
  "month_index (addMonthsAnchored t k) = month_index t + k"
  by (simp add: month_index_def [of "addMonthsAnchored t k"] addMonthsAnchored_civil)

lemma month_index_less: "month_index a < month_index b \<Longrightarrow> a < b"
proof -
  assume lt: "month_index a < month_index b"
  have "year_of a < year_of b \<or> year_of a = year_of b \<and> month_of a < month_of b"
    using lt month_of_range [of a] month_of_range [of b] unfolding month_index_def by linarith
  then have "time_date (year_of a) (month_of a) (day_of a)
      < time_date (year_of b) (month_of b) (day_of b)"
    by (intro time_date_less civil_valid) auto
  then show ?thesis by simp
qed

lemma addMonthsAnchored_less: "j < k \<Longrightarrow> addMonthsAnchored t j < addMonthsAnchored t k"
  by (rule month_index_less) simp

lemma addMonthsAnchored_0 [simp]: "addMonthsAnchored t 0 = t"
proof -
  have "(month_of t - 1) div 12 = 0" "(month_of t - 1) mod 12 = month_of t - 1"
    using month_of_range [of t] by (simp_all add: div_pos_pos_trivial mod_pos_pos_trivial del: month_of_range)
  then have Y: "month_index t div 12 = year_of t" and M: "month_index t mod 12 + 1 = month_of t"
    by (simp_all add: month_index_def)
  show ?thesis
    using day_of_range(2) [of t] by (simp add: addMonthsAnchored_eq Let_def Y M min_absorb1)
qed

lemma add_days_eq [simp]: "add_date t 0 0 n = t + n"
proof -
  show ?thesis by (simp add: add_date_def time_date_in_range) (simp add: day_of_def)
qed

text \<open>Anchored month arithmetic never drifts: adding \<open>k\<close> months to an anchor lands exactly \<open>k\<close>
  calendar months later, on the anchor's own day of the month clamped to the length of that month,
  and a larger \<open>k\<close> gives a strictly later day; a series anchored on the 31st returns to the 31st
  after every short month.\<close>

theorem addMonthsAnchored_no_drift:
  "month_index (addMonthsAnchored t k) = month_index t + k
   \<and> day_of (addMonthsAnchored t k)
       = min (day_of t) (daysInMonth (year_of (addMonthsAnchored t k)) (month_of (addMonthsAnchored t k)))
   \<and> (j < k \<longleftrightarrow> addMonthsAnchored t j < addMonthsAnchored t k)"
proof -
  have "daysInMonth (year_of (addMonthsAnchored t k)) (month_of (addMonthsAnchored t k))
      = month_length (year_of (addMonthsAnchored t k)) (month_of (addMonthsAnchored t k))"
    by (rule daysInMonth_eq) simp_all
  moreover have "j < k" if "addMonthsAnchored t j < addMonthsAnchored t k"
    using that addMonthsAnchored_less [of k j t] by (cases j k rule: linorder_cases) auto
  ultimately show ?thesis
    using addMonthsAnchored_less [of j k t] by (auto simp: addMonthsAnchored_civil)
qed

section \<open>Occurrences are ordered\<close>

lemma occurrence_less:
  assumes "isValidRecurringFrequency freq" "i < j"
  shows "recurringOccurrenceAt a freq n i < recurringOccurrenceAt a freq n j"
proof -
  define k where "k = (if n < 1 then 1 else n)"
  have k: "int i * k < int j * k" "0 < k" using assms(2) by (auto simp: k_def)
  then have "7 * (int i * k) < 7 * (int j * k)" "int i * k * 12 < int j * k * 12" by linarith+
  then show ?thesis
    using assms(1) k
    by (auto simp: recurringOccurrenceAt_def Let_def isValidRecurringFrequency_def mult.assoc
        intro!: addMonthsAnchored_less simp flip: k_def)
qed

lemma occurrence_mono: "i \<le> j \<Longrightarrow> recurringOccurrenceAt a freq n i \<le> recurringOccurrenceAt a freq n j"
proof (cases "isValidRecurringFrequency freq")
  case True
  assume "i \<le> j"
  then show ?thesis using occurrence_less [OF True, of i j a n] by (cases "i = j") auto
next
  case False
  then show ?thesis by (simp add: recurringOccurrenceAt_def isValidRecurringFrequency_def Let_def)
qed

lemma occ_of_mono: "i \<le> j \<Longrightarrow> occ_of s i \<le> occ_of s j"
  unfolding occ_of_def by (rule occurrence_mono)

lemma past_end_mono: "past_end s a \<Longrightarrow> a \<le> b \<Longrightarrow> past_end s b"
  by (auto simp: past_end_def split: option.splits)

text \<open>The schedule is strictly ordered and starts at its anchor: for every supported frequency
  and any interval (non-positive ones are read as 1), occurrence \<open>i\<close> precedes occurrence \<open>j\<close>
  whenever \<open>i < j\<close>, and occurrence 0 is the start date.\<close>

theorem occurrences_strictly_increasing:
  assumes "isValidRecurringFrequency freq" and "i < j"
  shows "recurringOccurrenceAt a freq n i < recurringOccurrenceAt a freq n j
    \<and> recurringOccurrenceAt a freq n 0 = a"
  using occurrence_less [OF assms] by (simp add: recurringOccurrenceAt_def Let_def)

theorem occurrences_strictly_increasing_witness:
  "recurringOccurrenceAt 738885 ''monthly'' 1 3 < recurringOccurrenceAt 738885 ''monthly'' 1 4
   \<and> recurringOccurrenceAt 738885 ''monthly'' 1 0 = 738885"
  by (rule occurrences_strictly_increasing) (simp_all add: isValidRecurringFrequency_def)

section \<open>Upcoming occurrences\<close>

definition schedule_from :: "recurring_series \<Rightarrow> nat \<Rightarrow> date list" where
  "schedule_from s i = takeWhile (\<lambda>occ. \<not> past_end s occ) (map (occ_of s) [i..<maxRecurringSteps])"

lemma schedule_from_step:
  "schedule_from s i = (if i < maxRecurringSteps \<and> \<not> past_end s (occ_of s i)
     then occ_of s i # schedule_from s (Suc i) else [])"
  by (cases "i < maxRecurringSteps") (simp_all add: schedule_from_def upt_conv_Cons)

lemma upcoming_loop_eq:
  "upcoming_loop s from c i out
     = out @ take (nat c - length out) (filter (\<lambda>occ. from \<le> occ) (schedule_from s i))"
proof (induction s "from" c i out rule: upcoming_loop.induct)
  case (1 s "from" c i out)
  show ?case
  proof (cases "i < maxRecurringSteps \<and> int (length out) < c")
    case False
    then show ?thesis
      by (subst upcoming_loop.simps) (auto simp: schedule_from_step [of s i])
  next
    case True
    then have "nat c - length out = Suc (nat c - Suc (length out))" by linarith
    then show ?thesis
      using 1 True
      by (subst upcoming_loop.simps) (auto simp: Let_def schedule_from_step [of s i])
  qed
qed

text \<open>C23. \<open>recurringUpcoming\<close> returns exactly the first \<open>count\<close> occurrences on or after \<open>from\<close> of
  the schedule cut off at its exclusive end date (and at the generator's step bound): none is
  skipped, none is invented, and none falls on or after the end.\<close>

theorem recurringUpcoming_spec:
  "recurringUpcoming s from count =
     take (nat count) (filter (\<lambda>occ. from \<le> occ)
       (takeWhile (\<lambda>occ. \<not> past_end s occ) (map (occ_of s) [0..<maxRecurringSteps])))"
  by (simp add: recurringUpcoming_def upcoming_loop_eq schedule_from_def)

section \<open>The nearest occurrence\<close>

definition hours24 :: "int \<Rightarrow> float64" where
  "hours24 ns = f64_div (duration_hours ns) (Fin 24)"

lemma go_div_minus: "go_div (- a) b = - go_div a b"
  by (simp add: go_div_def)

lemma go_mod_minus: "go_mod (- a) b = - go_mod a b"
  by (simp add: go_mod_def go_div_minus)

lemma f64_neg_round_add: "f64_add (f64_neg x) (f64_neg y) = f64_neg (f64_add x y)"
  by (cases x; cases y) (simp_all add: f64_round_minus [symmetric])

lemma f64_neg_div_pos: "0 < b \<Longrightarrow> f64_div (f64_neg x) (Fin b) = f64_neg (f64_div x (Fin b))"
  by (cases x) (simp_all add: f64_round_minus [symmetric] f64_inf_def)

lemma hours24_minus: "hours24 (- ns) = f64_neg (hours24 ns)"
  unfolding hours24_def duration_hours_def go_div_minus go_mod_minus f64_of_int_def of_int_minus
    f64_round_minus
  by (simp add: f64_neg_round_add f64_neg_div_pos)

lemma math_abs_neg [simp]: "math_abs (f64_neg x) = math_abs x"
  by (cases x) simp_all

lemma days_apart_abs: "days_apart a b = math_abs (hours24 \<bar>time_sub a b\<bar>)"
  unfolding days_apart_def hours24_def [symmetric]
  by (cases "0 \<le> time_sub a b") (simp_all add: hours24_minus [of "- time_sub a b", simplified])

lemma hours24_whole_days:
  assumes "0 \<le> k" "k \<le> 106751"
  shows "hours24 (k * 86400000000000) = Fin (of_int k)"
proof -
  have "k * 86400000000000 = 24 * k * 3600000000000" by simp
  then have "go_div (k * 86400000000000) 3600000000000 = 24 * k"
    using assms by (simp add: go_div_nonneg)
  then have "go_div (k * 86400000000000) 3600000000000 = 24 * k"
      "go_mod (k * 86400000000000) 3600000000000 = 0"
    by (simp_all add: go_mod_def)
  moreover have "f64_of_int (24 * k) = Fin (of_int (24 * k))" "f64_of_int 0 = Fin 0"
      "f64_round (of_int (24 * k)) = Fin (of_int (24 * k))" "f64_round (of_int k) = Fin (of_int k)"
    using assms by (simp_all add: f64_of_int_exact f64_round_of_int del: of_int_mult)
  ultimately show ?thesis
    by (simp add: hours24_def duration_hours_def f64_round_0)
qed

lemma days_apart_exact:
  assumes "\<bar>a - b\<bar> \<le> 106751"
  shows "days_apart a b = Fin (of_int \<bar>a - b\<bar>)"
proof -
  have t: "time_sub a b = (a - b) * 86400000000000" using assms by (auto simp: time_sub_def)
  have "\<bar>time_sub a b\<bar> = \<bar>a - b\<bar> * 86400000000000" unfolding t abs_mult by simp
  then show ?thesis using hours24_whole_days [of "\<bar>a - b\<bar>"] assms by (simp add: days_apart_abs)
qed

lemma hours24_saturated:
  assumes "106751 * 86400000000000 \<le> ns" "ns \<le> 2 ^ 63"
  shows "\<exists>y. hours24 ns = Fin y \<and> 106751 \<le> y \<and> y \<le> pow2 53"
proof -
  define h r where "h = ns div 3600000000000" and "r = ns mod 3600000000000"
  have ns: "ns = h * 3600000000000 + r" "0 \<le> r" "r < 3600000000000"
    by (simp_all add: h_def r_def)
  have h: "2562024 \<le> h" "h \<le> 2562047" using assms ns by simp_all
  have gd: "go_div ns 3600000000000 = h" "go_mod ns 3600000000000 = r"
    using assms by (simp_all add: go_div_nonneg go_mod_nonneg h_def r_def)
  have "f64_of_int r = Fin (of_int r)" using ns by (intro f64_of_int_exact) simp
  moreover have "(of_int r :: rat) \<le> of_int 3600000000000" using ns by (simp only: of_int_le_iff)
  moreover from calculation have "f64_within (pow2 0) (f64_round (of_int r / 3600000000000))"
    using ns(2) by (intro f64_round_within) (simp_all add: pow2_def)
  ultimately have "f64_within (pow2 0) (f64_div (f64_of_int r) (Fin 3600000000000))"
    by simp
  then obtain q where q: "f64_div (f64_of_int r) (Fin 3600000000000) = Fin q" "0 \<le> q" "q \<le> 1"
    by (auto simp: f64_within_def pow2_def)
  have hf: "f64_of_int h = Fin (of_int h)" using h by (intro f64_of_int_exact) simp
  have hq: "of_int 2562024 \<le> (of_int h :: rat)" "(of_int h :: rat) \<le> of_int 2562047"
    using h by (simp_all only: of_int_le_iff)
  obtain z where z: "f64_round (of_int h + q) = Fin z" "of_int 2562024 \<le> z" "z \<le> pow2 53"
    using f64_round_ge_int [of 2562024 "of_int h + q"] hq q by (auto simp: pow2_def)
  have "of_int 106751 \<le> z / 24" "z / 24 < pow2 53" using z by (simp_all add: pow2_def)
  then obtain y where "f64_round (z / 24) = Fin y" "of_int 106751 \<le> y" "y \<le> pow2 53"
    using f64_round_ge_int [of 106751 "z / 24"] by auto
  then show ?thesis by (simp add: hours24_def duration_hours_def gd hf q(1) z(1))
qed

lemma days_apart_far:
  assumes "106751 < \<bar>a - b\<bar>"
  shows "\<exists>y. days_apart a b = Fin y \<and> 106751 \<le> y \<and> y \<le> pow2 53"
proof -
  have "106751 * 86400000000000 \<le> \<bar>time_sub a b\<bar>" "\<bar>time_sub a b\<bar> \<le> 2 ^ 63"
    using assms by (auto simp: time_sub_def max_def min_def abs_if split: if_splits)
  from hours24_saturated [OF this] show ?thesis by (auto simp: days_apart_abs)
qed

text \<open>The distance a date is measured by: its value as a rational, always finite.\<close>

definition day_dist :: "date \<Rightarrow> date \<Rightarrow> rat" where
  "day_dist a b = (case days_apart a b of Fin y \<Rightarrow> y | _ \<Rightarrow> 0)"

lemma days_apart_dist: "days_apart a b = Fin (day_dist a b)"
  using days_apart_exact [of a b] days_apart_far [of a b]
  by (cases "\<bar>a - b\<bar> \<le> 106751") (auto simp: day_dist_def)

lemma dist_bounds: "0 \<le> day_dist a b" "day_dist a b \<le> pow2 53"
proof -
  have "0 \<le> day_dist a b \<and> day_dist a b \<le> pow2 53"
  proof (cases "\<bar>a - b\<bar> \<le> 106751")
    case True
    then have "(of_int \<bar>a - b\<bar> :: rat) \<le> of_int 106751" by (simp only: of_int_le_iff)
    then show ?thesis using days_apart_exact [OF True] by (simp add: day_dist_def pow2_def)
  next
    case False
    then show ?thesis using days_apart_far [of a b] by (auto simp: day_dist_def)
  qed
  then show "0 \<le> day_dist a b" "day_dist a b \<le> pow2 53" by simp_all
qed

lemma dist_mono_after:
  assumes "d \<le> a" "a \<le> b"
  shows "day_dist a d \<le> day_dist b d"
proof (cases "\<bar>b - d\<bar> \<le> 106751")
  case True
  then show ?thesis
    using assms days_apart_exact [of a d] days_apart_exact [of b d] by (simp add: day_dist_def)
next
  case far: False
  show ?thesis
  proof (cases "\<bar>a - d\<bar> \<le> 106751")
    case True
    have "(of_int \<bar>a - d\<bar> :: rat) \<le> of_int 106751" using True by (simp only: of_int_le_iff)
    then show ?thesis
      using days_apart_exact [OF True] days_apart_far [of b d] far by (auto simp: day_dist_def)
  next
    case False
    then have "time_sub a d = 2 ^ 63 - 1" "time_sub b d = 2 ^ 63 - 1"
      using far assms by (simp_all add: time_sub_def)
    then show ?thesis by (simp add: day_dist_def days_apart_def)
  qed
qed

definition scheduled :: "recurring_series \<Rightarrow> nat \<Rightarrow> bool" where
  "scheduled s j \<longleftrightarrow> j < maxRecurringSteps \<and> \<not> past_end s (occ_of s j)"

lemma scheduled_mono: "scheduled s j \<Longrightarrow> i \<le> j \<Longrightarrow> scheduled s i"
  using past_end_mono [OF _ occ_of_mono [of i j s]] by (auto simp: scheduled_def)

text \<open>What a (best, distance, found) triple promises about a set of occurrence numbers.\<close>

definition nearest_among ::
  "recurring_series \<Rightarrow> date \<Rightarrow> (nat \<Rightarrow> bool) \<Rightarrow> date \<times> float64 \<times> bool \<Rightarrow> bool" where
  "nearest_among s d J r \<longleftrightarrow> (case r of (best, diff, found) \<Rightarrow>
     (found \<longleftrightarrow> (\<exists>j. J j))
     \<and> (found \<longrightarrow> (\<exists>j. J j \<and> best = occ_of s j) \<and> diff = days_apart best d
         \<and> (\<forall>j. J j \<longrightarrow> f64_le diff (days_apart (occ_of s j) d)))
     \<and> (\<not> found \<longrightarrow> diff = MaxFloat64))"

lemma f64_less_Fin [simp]: "f64_less (Fin a) (Fin b) \<longleftrightarrow> a < b"
  by (auto simp: f64_less_def)

lemma days_apart_less_Max [simp]: "f64_less (days_apart a b) MaxFloat64"
proof -
  have "pow2 53 < (2 ^ 53 - 1) * 2 ^ 971" by (simp add: pow2_def)
  then show ?thesis using dist_bounds(2) [of a b] by (simp add: days_apart_dist MaxFloat64_def)
qed

lemma day_dist_less_Max [simp]: "f64_less (Fin (day_dist a b)) MaxFloat64"
  using days_apart_less_Max by (simp only: days_apart_dist)

lemma nearest_among_step:
  assumes "nearest_among s d (\<lambda>j. j < i) (best, diff, found)"
  shows "nearest_among s d (\<lambda>j. j < Suc i)
    (if f64_less (days_apart (occ_of s i) d) diff then (occ_of s i, days_apart (occ_of s i) d, True)
     else (best, diff, found))"
proof (cases found)
  case False
  with assms have "i = 0" "diff = MaxFloat64" by (auto simp: nearest_among_def)
  then show ?thesis by (auto simp: nearest_among_def days_apart_dist)
next
  case True
  with assms obtain j where j: "j < i" "best = occ_of s j" "diff = days_apart best d"
      "\<And>k. k < i \<Longrightarrow> f64_le diff (days_apart (occ_of s k) d)"
    by (auto simp: nearest_among_def)
  show ?thesis
  proof (cases "f64_less (days_apart (occ_of s i) d) diff")
    case less: True
    have "f64_le (days_apart (occ_of s i) d) (days_apart (occ_of s k) d)" if "k < Suc i" for k
      using that j(3) j(4) [of k] less by (cases "k = i") (auto simp: days_apart_dist)
    then show ?thesis using less by (auto simp: nearest_among_def)
  next
    case not_less: False
    have "f64_le diff (days_apart (occ_of s k) d)" if "k < Suc i" for k
      using that j(3) j(4) [of k] not_less by (cases "k = i") (auto simp: days_apart_dist)
    moreover have "\<exists>k < Suc i. best = occ_of s k" using j(1,2) less_SucI by blast
    ultimately show ?thesis using not_less True j(3) by (auto simp: nearest_among_def)
  qed
qed

lemma nearest_among_all:
  assumes "nearest_among s d (\<lambda>j. j < i) r" "\<And>j. j < i \<Longrightarrow> scheduled s j"
    and "\<And>j. scheduled s j \<Longrightarrow> i \<le> j \<Longrightarrow> 0 < i \<and> d < occ_of s (i - 1)"
  shows "nearest_among s d (scheduled s) r"
proof -
  obtain best diff found where r: "r = (best, diff, found)" by (cases r) auto
  show ?thesis
  proof (cases "i = 0")
    case True
    then have "\<not> scheduled s j" for j using assms(3) [of j] by auto
    then show ?thesis using assms(1) True by (auto simp: nearest_among_def r)
  next
    case False
    then have f: "found" using assms(1) by (auto simp: nearest_among_def r)
    have le: "f64_le diff (days_apart (occ_of s j) d)" if j: "scheduled s j" for j
    proof (cases "j < i")
      case True
      then show ?thesis using assms(1) f by (auto simp: nearest_among_def r)
    next
      case ge: False
      then have "d < occ_of s (i - 1)" using assms(3) [OF j] by simp
      then have "day_dist (occ_of s (i - 1)) d \<le> day_dist (occ_of s j) d"
        using occ_of_mono [of "i - 1" j s] ge by (intro dist_mono_after) auto
      moreover have "f64_le diff (days_apart (occ_of s (i - 1)) d)" "diff = days_apart best d"
        using assms(1) f False by (auto simp: nearest_among_def r)
      ultimately show ?thesis by (simp add: days_apart_dist)
    qed
    then show ?thesis using assms(1,2) f by (auto simp: nearest_among_def r)
  qed
qed

lemma nearest_loop_correct:
  assumes "nearest_among s d (\<lambda>j. j < i) (best, diff, found)"
    and "\<And>j. j < i \<Longrightarrow> scheduled s j" and "i \<le> maxRecurringSteps"
  shows "nearest_among s d (scheduled s) (nearest_loop s d i best diff found)"
  using assms
proof (induction s d i best diff found rule: nearest_loop.induct)
  case (1 s d i best diff found)
  show ?case
  proof (cases "i < maxRecurringSteps \<and> \<not> past_end s (occ_of s i)")
    case False
    then have "nearest_loop s d i best diff found = (best, diff, found)"
      by (subst nearest_loop.simps) (auto simp: Let_def)
    moreover have "\<not> scheduled s j" if "i \<le> j" for j
      using False scheduled_mono [of s j i] that by (auto simp: scheduled_def)
    ultimately show ?thesis using nearest_among_all [OF "1.prems"(1,2)] by auto
  next
    case True
    define r where "r = (if f64_less (days_apart (occ_of s i) d) diff
       then (occ_of s i, days_apart (occ_of s i) d, True) else (best, diff, found))"
    obtain b f g where r': "r = (b, f, g)" by (cases r) auto
    have step: "nearest_among s d (\<lambda>j. j < Suc i) (b, f, g)"
      using nearest_among_step [OF "1.prems"(1)] r' by (simp add: r_def)
    have sch: "scheduled s j" if "j < Suc i" for j
      using that "1.prems"(2) True by (auto simp: less_Suc_eq scheduled_def)
    have unf: "nearest_loop s d i best diff found
        = (if d < occ_of s i then (b, f, g) else nearest_loop s d (Suc i) b f g)"
      using True r' by (subst nearest_loop.simps) (simp add: Let_def r_def [symmetric])
    show ?thesis
    proof (cases "d < occ_of s i")
      case after: True
      then show ?thesis using nearest_among_all [OF step sch] unf by simp
    next
      case False
      have "nearest_among s d (scheduled s) (nearest_loop s d (Suc i) b f g)"
        using "1.IH" [OF _ refl _ refl _ refl refl] True False r' step sch
        by (simp add: r_def [symmetric])
      then show ?thesis using False unf by simp
    qed
  qed
qed

text \<open>C31. \<open>nearestRecurringOccurrence\<close> really finds a nearest occurrence. It reports \<open>ok\<close> exactly
  when the series has an occurrence at all (one before its exclusive end); the date it returns is
  then an occurrence of the series, the distance is that date's, and no occurrence of the series
  lies closer, although the loop stops at the first occurrence after the date and \<open>time.Sub\<close>
  saturates after 292 years.\<close>

theorem nearestRecurringOccurrence_correct:
  "nearest_among s d (scheduled s) (nearestRecurringOccurrence s d)"
  unfolding nearestRecurringOccurrence_def dateOnly_id
  by (rule nearest_loop_correct) (simp_all add: nearest_among_def)

end
