(* ===== verification/Loan.thy ===== *)
theory Loan
  imports Schedule
begin

text \<open>
  The pure layer of loans (\<open>backend/handlers/loan.go\<close>, \<open>loanAmortization\<close> and what it calls, the
  payoff quote, the terms of a transfer's target) and the types of \<open>backend/models/models.go\<close> it
  works on. The rate is a \<open>float64\<close>, as in the code; every amount, those of the table, of the quote and
  of the progress totals alike, is an \<open>int64\<close>, with each addition and subtraction wrapped by \<open>i64\<close>
  (\<open>Loan_Table\<close> and \<open>Loan_Progress\<close> show within which bounds none wraps). JSON-only fields (display names,
  creation times) are left out.
\<close>

section \<open>Types\<close>

record loan_schedule =
  ls_ID :: uuid
  ls_LoanAccountID :: uuid
  ls_Principal :: cents
  ls_ProcessingFee :: cents
  ls_AnnualRateBps :: int
  ls_TenureMonths :: int
  ls_StartDate :: date
  ls_DisbursalDate :: "date option"

record loan_schedule_request =
  lr_Principal :: cents
  lr_ProcessingFee :: cents
  lr_AnnualRateBps :: int
  lr_TenureMonths :: int
  lr_StartDate :: string
  lr_DisbursalDate :: string

record loan_entry =
  le_Number :: int
  le_DueDate :: date
  le_Amount :: cents
  le_Principal :: cents
  le_Interest :: cents
  le_Balance :: cents
  le_Paid :: bool
  le_TransactionID :: "uuid option"
  le_Recast :: bool
  le_Cancelled :: bool

definition LoanTransferRecast :: string where "LoanTransferRecast = ''recast''"
definition LoanTransferOpens :: string where "LoanTransferOpens = ''opens''"
definition LoanTransferTakeover :: string where "LoanTransferTakeover = ''takeover''"

record loan_transfer =
  lt_ID :: uuid
  lt_FromLoanAccountID :: uuid
  lt_ToLoanAccountID :: uuid
  lt_Amount :: cents
  lt_Principal :: cents
  lt_AccruedInterest :: cents
  lt_TransferDate :: date
  lt_Mode :: string

record loan_payoff =
  lp_AsOf :: date
  lp_FromDate :: date
  lp_Days :: int
  lp_OutstandingPrincipal :: cents
  lp_AccruedInterest :: cents
  lp_Payoff :: cents

record loan_transfer_request =
  tr_ToLoanAccountID :: uuid
  tr_TransferDate :: string
  tr_Mode :: string
  tr_TargetAnnualRateBps :: "int option"
  tr_TargetTenureMonths :: "int option"
  tr_TargetStartDate :: string

record loan_disbursement =
  ld_Sanctioned :: cents
  ld_ProcessingFee :: cents
  ld_PaidOut :: cents
  ld_Net :: cents
  ld_CreditTransactionID :: "uuid option"
  ld_CreditAmount :: "cents option"
  ld_Verified :: bool
  ld_Difference :: cents

record loan_detail =
  dt_Schedule :: "loan_schedule option"
  dt_EMI :: cents
  dt_TotalInterest :: cents
  dt_TotalPayable :: cents
  dt_Entries :: "loan_entry list"
  dt_Transfers :: "loan_transfer list"
  dt_SettledOn :: "date option"
  dt_Disbursement :: "loan_disbursement option"
  dt_LastPaidDate :: "date option"
  dt_PaidInstallments :: int
  dt_PaidAmount :: cents
  dt_PrincipalPaid :: cents
  dt_InterestPaid :: cents
  dt_OutstandingPrincipal :: cents
  dt_NextDueDate :: "date option"
  dt_Completed :: bool

record loan_payment =
  py_id :: uuid
  py_amount :: cents
  py_date :: date
  py_credit :: bool

record loanTerms =
  lt_principal :: cents
  lt_processingFee :: cents
  lt_annualRateBps :: int
  lt_tenureMonths :: int
  lt_firstDueDate :: date
  lt_disbursalDate :: "date option"

record principalAdjustment =
  adj_date :: date
  adj_amount :: cents

definition maxLoanTenureMonths :: int where "maxLoanTenureMonths = 600"
definition maxLoanAnnualRateBps :: int where "maxLoanAnnualRateBps = 100000"

section \<open>The installment\<close>

text \<open>\<open>int(a.Sub(b).Hours() / 24)\<close> for two midnights.\<close>

definition days_between :: "date \<Rightarrow> date \<Rightarrow> int" where
  "days_between a b = f64_to_int64 (f64_div (duration_hours (time_sub a b)) (Fin 24))"

definition money_round :: "float64 \<Rightarrow> cents" where
  "money_round x = f64_to_int64 (math_round x)"

definition brokenPeriodInterest :: "cents \<Rightarrow> int \<Rightarrow> int \<Rightarrow> cents" where
  "brokenPeriodInterest balance annualRateBps days =
     (let monthly = f64_div (f64_mul (f64_of_int balance) (f64_of_int annualRateBps)) (Fin 120000)
      in money_round (f64_div (f64_mul monthly (f64_of_int days)) (Fin 30)))"

definition annuityFactor :: "float64 \<Rightarrow> int \<Rightarrow> float64" where
  "annuityFactor monthlyRate months =
     (if months \<le> 0 then Fin 0
      else if f64_le monthlyRate (Fin 0) then f64_of_int months
      else f64_div (f64_sub (Fin 1) (go_pow (f64_add (Fin 1) monthlyRate) (- months))) monthlyRate)"

definition loanEMIWithStub :: "cents \<Rightarrow> float64 \<Rightarrow> int \<Rightarrow> cents \<Rightarrow> cents" where
  "loanEMIWithStub balance monthlyRate months firstInterest =
     (if months \<le> 1 then i64 (balance + firstInterest)
      else let factor = f64_add (Fin 1) (annuityFactor monthlyRate (months - 1))
           in if f64_le factor (Fin 0) then i64 (balance + firstInterest)
              else money_round (f64_div (f64_of_int (i64 (balance + firstInterest))) factor))"

definition rupeeCeil :: "cents \<Rightarrow> cents" where
  "rupeeCeil a = (if a \<le> 0 then a else i64 (go_div (i64 (a + 100 - 1)) 100 * 100))"

definition loanEMI :: "cents \<Rightarrow> float64 \<Rightarrow> int \<Rightarrow> cents" where
  "loanEMI princ monthlyRate months =
     (if months \<le> 0 then princ
      else if f64_le monthlyRate (Fin 0) then
        money_round (f64_div (f64_of_int princ) (f64_of_int months))
      else let growth = go_pow (f64_add (Fin 1) monthlyRate) months
           in money_round (f64_div (f64_mul (f64_mul (f64_of_int princ) monthlyRate) growth)
                (f64_sub growth (Fin 1))))"

definition firstPeriodStub :: "date option \<Rightarrow> date \<Rightarrow> int \<times> bool" where
  "firstPeriodStub disbursal firstDue =
     (case disbursal of
        None \<Rightarrow> (0, False)
      | Some d \<Rightarrow>
          let d = dateOnly d
          in if \<not> d < firstDue \<or> addMonthsAnchored d 1 = firstDue then (0, False)
             else (days_between firstDue d, True))"

section \<open>The table\<close>

text \<open>The transfers dated strictly before a due date are taken up there: the balance after them, the
  transfers left, and whether there was one.\<close>

fun absorb :: "date \<Rightarrow> cents \<Rightarrow> principalAdjustment list \<Rightarrow> cents \<times> principalAdjustment list \<times> bool" where
  "absorb due remaining [] = (remaining, [], False)"
| "absorb due remaining (a # as) =
     (if adj_date a < due then
        (case absorb due (i64 (remaining + adj_amount a)) as of (r, rest, _) \<Rightarrow> (r, rest, True))
      else (remaining, a # as, False))"

definition monthly_rate :: "loanTerms \<Rightarrow> float64" where
  "monthly_rate terms = f64_div (f64_of_int (lt_annualRateBps terms)) (Fin 120000)"

definition principal_part :: "bool \<Rightarrow> cents \<Rightarrow> cents \<Rightarrow> cents \<Rightarrow> cents" where
  "principal_part final remaining emi interest =
     (if final then (if remaining > 0 then remaining else 0)
      else if emi > interest then
        (if i64 (emi - interest) > remaining then remaining else i64 (emi - interest))
      else 0)"

text \<open>The EMI in force at installment \<open>i\<close> for a balance: solved for the installments left, and with
  the broken first period's interest inside it when the first one is a stub.\<close>

definition solve_emi :: "loanTerms \<Rightarrow> int \<Rightarrow> bool \<Rightarrow> int \<Rightarrow> cents \<Rightarrow> cents" where
  "solve_emi terms stubDays stub i remaining =
     (if i = 1 \<and> stub then
        rupeeCeil (loanEMIWithStub remaining (monthly_rate terms) (lt_tenureMonths terms)
          (brokenPeriodInterest remaining (lt_annualRateBps terms) stubDays))
      else rupeeCeil (loanEMI remaining (monthly_rate terms) (lt_tenureMonths terms - i + 1)))"

definition interest_for :: "loanTerms \<Rightarrow> int \<Rightarrow> bool \<Rightarrow> int \<Rightarrow> cents \<Rightarrow> cents" where
  "interest_for terms stubDays stub i remaining =
     (if i = 1 \<and> stub then brokenPeriodInterest remaining (lt_annualRateBps terms) stubDays
      else money_round (f64_mul (f64_of_int remaining) (monthly_rate terms)))"

fun amortize ::
  "loanTerms \<Rightarrow> int \<Rightarrow> bool \<Rightarrow> int \<Rightarrow> nat \<Rightarrow> cents \<Rightarrow> cents \<Rightarrow> bool \<Rightarrow> principalAdjustment list
    \<Rightarrow> cents \<times> loan_entry list" where
  "amortize terms stubDays stub i 0 remaining emi recast adjs = (emi, [])"
| "amortize terms stubDays stub i (Suc n) remaining emi recast adjs =
     (let due = addMonthsAnchored (dateOnly (lt_firstDueDate terms)) (i - 1);
          (remaining, adjs, applied) = absorb due remaining adjs;
          recast = (recast \<or> applied);
          emi = (if applied then solve_emi terms stubDays stub i remaining else emi);
          interest = interest_for terms stubDays stub i remaining;
          principalPart = principal_part (i = lt_tenureMonths terms) remaining emi interest;
          remaining = i64 (remaining - principalPart);
          entry = \<lparr>le_Number = i, le_DueDate = due, le_Amount = i64 (principalPart + interest),
                   le_Principal = principalPart, le_Interest = interest, le_Balance = remaining,
                   le_Paid = False, le_TransactionID = None, le_Recast = recast, le_Cancelled = False\<rparr>;
          (emi', entries) = amortize terms stubDays stub (i + 1) n remaining emi recast adjs
      in (emi', entry # entries))"

definition loanAmortization :: "loanTerms \<Rightarrow> principalAdjustment list \<Rightarrow> cents \<times> loan_entry list" where
  "loanAmortization terms adjustments =
     (if lt_tenureMonths terms < 1 then (lt_principal terms, [])
      else let (stubDays, stub) = firstPeriodStub (lt_disbursalDate terms) (dateOnly (lt_firstDueDate terms));
               emi = solve_emi terms stubDays stub 1 (lt_principal terms)
           in amortize terms stubDays stub 1 (nat (lt_tenureMonths terms)) (lt_principal terms) emi False adjustments)"

section \<open>Payoff\<close>

definition payoffAnchor :: "loan_detail \<Rightarrow> date \<Rightarrow> date" where
  "payoffAnchor detail asOf =
     (case dt_LastPaidDate detail of
        Some d \<Rightarrow> dateOnly d
      | None \<Rightarrow> (case dt_Schedule detail of
           None \<Rightarrow> asOf
         | Some s \<Rightarrow> (case ls_DisbursalDate s of
              Some d \<Rightarrow> dateOnly d
            | None \<Rightarrow> addMonthsAnchored (dateOnly (ls_StartDate s)) (- 1))))"

definition loanPayoffFor :: "loan_detail \<Rightarrow> date \<Rightarrow> loan_payoff" where
  "loanPayoffFor detail asOf =
     (let quote = \<lparr>lp_AsOf = dateOnly asOf, lp_FromDate = payoffAnchor detail (dateOnly asOf), lp_Days = 0,
                   lp_OutstandingPrincipal = dt_OutstandingPrincipal detail, lp_AccruedInterest = 0,
                   lp_Payoff = 0\<rparr>
      in case dt_Schedule detail of
           None \<Rightarrow> quote\<lparr>lp_Payoff := lp_OutstandingPrincipal quote\<rparr>
         | Some s \<Rightarrow>
             if \<not> lp_FromDate quote < lp_AsOf quote then quote\<lparr>lp_Payoff := lp_OutstandingPrincipal quote\<rparr>
             else let days = days_between (lp_AsOf quote) (lp_FromDate quote);
                      accrued = brokenPeriodInterest (lp_OutstandingPrincipal quote) (ls_AnnualRateBps s) days
                  in quote\<lparr>lp_Days := days, lp_AccruedInterest := accrued,
                       lp_Payoff := i64 (lp_OutstandingPrincipal quote + accrued)\<rparr>)"

section \<open>Transfers\<close>

definition hasInstallmentsAfter :: "loan_entry list \<Rightarrow> date \<Rightarrow> bool" where
  "hasInstallmentsAfter entries d \<longleftrightarrow>
     (\<exists>e \<in> set entries. \<not> le_Paid e \<and> \<not> le_Cancelled e \<and> d < le_DueDate e)"

definition transferTargetTerms :: "date \<Rightarrow> loan_transfer_request \<Rightarrow> cents \<Rightarrow> string + loanTerms" where
  "transferTargetTerms now req amount =
     (case tr_TargetAnnualRateBps req of
        None \<Rightarrow> Inl ''the target loan has no schedule - provide targetAnnualRateBps''
      | Some bps \<Rightarrow>
     (case tr_TargetTenureMonths req of
        None \<Rightarrow> Inl ''the target loan has no schedule - provide targetTenureMonths''
      | Some months \<Rightarrow>
          if trim_space (tr_TargetStartDate req) = [] then
            Inl ''the target loan has no schedule - provide targetStartDate''
          else if bps < 0 then Inl ''targetAnnualRateBps must not be negative''
          else if months < 1 \<or> months > maxLoanTenureMonths then
            Inl ''targetTenureMonths must be between 1 and 600''
          else (case parseRecurringDate now (tr_TargetStartDate req) of
              Inl e \<Rightarrow> Inl e
            | Inr start \<Rightarrow> Inr \<lparr>lt_principal = amount, lt_processingFee = 0, lt_annualRateBps = bps,
                lt_tenureMonths = months, lt_firstDueDate = start, lt_disbursalDate = None\<rparr>)))"

section \<open>Progress\<close>

text \<open>
  The part of \<open>loadLoanScheduleDetail\<close> that follows the reads: what the transfers do to the loan,
  the table, the matching of payments to installments in order, and the totals.
\<close>

definition scan_transfer ::
  "uuid \<Rightarrow> loan_transfer \<Rightarrow> date option \<times> principalAdjustment list \<times> cents
    \<Rightarrow> date option \<times> principalAdjustment list \<times> cents" where
  "scan_transfer loan t st = (case st of (settled, adjs, paidOut) \<Rightarrow>
     if lt_ToLoanAccountID t \<noteq> loan then (Some (lt_TransferDate t), adjs, paidOut)
     else if lt_Mode t = LoanTransferRecast then
       (settled, adjs @ [\<lparr>adj_date = lt_TransferDate t, adj_amount = lt_Amount t\<rparr>], paidOut)
     else if lt_Mode t = LoanTransferTakeover then (settled, adjs, i64 (paidOut + lt_Amount t))
     else (settled, adjs, paidOut))"

definition scan_transfers ::
  "uuid \<Rightarrow> loan_transfer list \<Rightarrow> date option \<times> principalAdjustment list \<times> cents" where
  "scan_transfers loan ts = fold (scan_transfer loan) ts (None, [], 0)"

fun nextUnpaidEntry :: "loan_entry list \<Rightarrow> nat option" where
  "nextUnpaidEntry [] = None"
| "nextUnpaidEntry (e # es) =
     (if \<not> le_Cancelled e \<and> \<not> le_Paid e then Some 0 else map_option Suc (nextUnpaidEntry es))"

definition match_payment :: "loan_payment \<Rightarrow> loan_detail \<Rightarrow> loan_detail" where
  "match_payment p detail =
     (if py_credit p then detail\<lparr>dt_PaidAmount := i64 (dt_PaidAmount detail - py_amount p)\<rparr>
      else let detail = detail\<lparr>dt_PaidAmount := i64 (dt_PaidAmount detail + py_amount p)\<rparr>
           in case nextUnpaidEntry (dt_Entries detail) of
                None \<Rightarrow> detail
              | Some i \<Rightarrow> detail\<lparr>
                  dt_Entries := (dt_Entries detail)[i := (dt_Entries detail ! i)
                    \<lparr>le_Paid := True, le_TransactionID := Some (py_id p)\<rparr>],
                  dt_LastPaidDate := Some (dateOnly (py_date p))\<rparr>)"

definition cancel_entry :: "bool \<Rightarrow> loan_entry \<Rightarrow> loan_entry" where
  "cancel_entry settled e = e\<lparr>le_Cancelled := (settled \<and> \<not> le_Paid e)\<rparr>"

definition tally :: "loan_entry \<Rightarrow> loan_detail \<Rightarrow> loan_detail" where
  "tally e detail =
     (if le_Cancelled e then detail
      else let detail = (if le_Paid e then detail\<lparr>dt_PaidInstallments := dt_PaidInstallments detail + 1,
                    dt_PrincipalPaid := i64 (dt_PrincipalPaid detail + le_Principal e),
                    dt_InterestPaid := i64 (dt_InterestPaid detail + le_Interest e)\<rparr> else detail)
           in detail\<lparr>dt_TotalInterest := i64 (dt_TotalInterest detail + le_Interest e),
                dt_TotalPayable := i64 (dt_TotalPayable detail + le_Amount e)\<rparr>)"

definition empty_detail :: loan_detail where
  "empty_detail = \<lparr>dt_Schedule = None, dt_EMI = 0, dt_TotalInterest = 0, dt_TotalPayable = 0,
     dt_Entries = [], dt_Transfers = [], dt_SettledOn = None, dt_Disbursement = None,
     dt_LastPaidDate = None, dt_PaidInstallments = 0, dt_PaidAmount = 0, dt_PrincipalPaid = 0,
     dt_InterestPaid = 0, dt_OutstandingPrincipal = 0, dt_NextDueDate = None, dt_Completed = False\<rparr>"

definition schedule_terms :: "loan_schedule \<Rightarrow> loanTerms" where
  "schedule_terms s = \<lparr>lt_principal = ls_Principal s, lt_processingFee = ls_ProcessingFee s,
     lt_annualRateBps = ls_AnnualRateBps s, lt_tenureMonths = ls_TenureMonths s,
     lt_firstDueDate = ls_StartDate s, lt_disbursalDate = ls_DisbursalDate s\<rparr>"

definition implied_disbursement :: "loan_schedule \<Rightarrow> cents \<Rightarrow> loan_disbursement" where
  "implied_disbursement s paidOut = \<lparr>ld_Sanctioned = ls_Principal s, ld_ProcessingFee = ls_ProcessingFee s,
     ld_PaidOut = paidOut, ld_Net = i64 (i64 (ls_Principal s - ls_ProcessingFee s) - paidOut),
     ld_CreditTransactionID = None, ld_CreditAmount = None, ld_Verified = False, ld_Difference = 0\<rparr>"

definition credit_disbursement :: "(uuid \<times> cents) option \<Rightarrow> loan_disbursement \<Rightarrow> loan_disbursement" where
  "credit_disbursement credit d =
     (case credit of
        None \<Rightarrow> d
      | Some (txn, amount) \<Rightarrow> d\<lparr>ld_CreditTransactionID := Some txn, ld_CreditAmount := Some amount,
          ld_Difference := i64 (amount - ld_Net d), ld_Verified := (amount = ld_Net d)\<rparr>)"

definition conclude_detail :: "principalAdjustment list \<Rightarrow> loan_detail \<Rightarrow> loan_detail" where
  "conclude_detail adjs detail =
     (let outstanding = fold (\<lambda>a sum. i64 (sum + adj_amount a)) adjs
            (case dt_Schedule detail of None \<Rightarrow> 0 | Some s \<Rightarrow> ls_Principal s);
          outstanding = i64 (outstanding - dt_PrincipalPaid detail);
          detail = detail\<lparr>dt_OutstandingPrincipal :=
            (if dt_SettledOn detail \<noteq> None \<or> outstanding < 0 then 0 else outstanding)\<rparr>;
          owed = int (length (filter (\<lambda>e. \<not> le_Cancelled e) (dt_Entries detail)));
          detail = detail\<lparr>dt_Completed := (dt_PaidInstallments detail \<ge> owed)\<rparr>
      in if dt_Completed detail then detail
         else case nextUnpaidEntry (dt_Entries detail) of
                None \<Rightarrow> detail
              | Some i \<Rightarrow> detail\<lparr>dt_NextDueDate := Some (le_DueDate (dt_Entries detail ! i))\<rparr>)"

definition finish_detail :: "principalAdjustment list \<Rightarrow> loan_detail \<Rightarrow> loan_detail" where
  "finish_detail adjs detail =
     (let entries = map (cancel_entry (dt_SettledOn detail \<noteq> None)) (dt_Entries detail)
      in conclude_detail adjs (fold tally entries (detail\<lparr>dt_Entries := entries\<rparr>)))"

definition scheduleDetail ::
  "loan_schedule \<Rightarrow> loan_transfer list \<Rightarrow> (uuid \<times> cents) option \<Rightarrow> loan_payment list \<Rightarrow> loan_detail" where
  "scheduleDetail s transfers credit payments =
     (let (settled, adjs, paidOut) = scan_transfers (ls_LoanAccountID s) transfers;
          (emi, entries) = loanAmortization (schedule_terms s) adjs;
          detail = empty_detail\<lparr>dt_Schedule := Some s, dt_Transfers := transfers, dt_SettledOn := settled,
            dt_Disbursement := Some (credit_disbursement credit (implied_disbursement s paidOut)),
            dt_EMI := emi, dt_Entries := entries\<rparr>
      in finish_detail adjs (fold match_payment payments detail))"

end
