(* ===== verification/Loan_Table.thy ===== *)
theory Loan_Table
  imports Loan
begin

text \<open>
  What the amortization table promises. The lemmas first bound the interest (never negative, never
  out of the \<open>int64\<close> range) for the rates the schedule endpoint accepts, and then follow the
  installment loop: the balance after every installment is exactly what was owed less the principal
  repaid, whatever the rounded EMI happens to be, and the last one is zero.
\<close>

section \<open>Bounds on the interest\<close>

definition rate_ok :: "loanTerms \<Rightarrow> bool" where
  "rate_ok terms \<longleftrightarrow> 0 \<le> lt_annualRateBps terms \<and> lt_annualRateBps terms \<le> maxLoanAnnualRateBps"

lemma f64_within_mono: "f64_within (pow2 j) x \<Longrightarrow> j \<le> k \<Longrightarrow> f64_within (pow2 k) x"
  unfolding f64_within_def using pow2_mono order_trans by blast

lemma bps_within: "0 \<le> b \<Longrightarrow> b \<le> 100000 \<Longrightarrow> f64_within (pow2 17) (f64_of_int b)"
  using f64_within_of_int [of b 17] by simp

lemma monthly_rate_within:
  assumes "rate_ok terms"
  shows "f64_within (pow2 1) (monthly_rate terms)"
proof -
  have "pow2 16 \<le> 120000" by (simp add: pow2_def)
  from f64_within_div [OF bps_within this, of "lt_annualRateBps terms"] show ?thesis
    using assms by (simp add: monthly_rate_def rate_ok_def maxLoanAnnualRateBps_def)
qed

lemma interest_bounds:
  assumes "rate_ok terms" "0 \<le> r" "r \<le> 2 ^ 47"
  shows "0 \<le> money_round (f64_mul (f64_of_int r) (monthly_rate terms))
    \<and> money_round (f64_mul (f64_of_int r) (monthly_rate terms)) \<le> 2 ^ 48"
proof -
  have "f64_within (pow2 (int 47)) (f64_of_int r)" using assms(2,3) by (intro f64_within_of_int) simp_all
  from f64_within_mul [OF this monthly_rate_within [OF assms(1)]]
  have "f64_within (pow2 (int 48)) (f64_mul (f64_of_int r) (monthly_rate terms))" by simp
  from f64_within_to_int64 [OF this] show ?thesis by (simp add: money_round_def)
qed

lemma brokenPeriodInterest_bounds:
  assumes "0 \<le> b" "b \<le> 100000" "0 \<le> r" "r \<le> 2 ^ 45" "0 \<le> days" "days \<le> 2 ^ 19"
  shows "0 \<le> brokenPeriodInterest r b days \<and> brokenPeriodInterest r b days \<le> 2 ^ 61"
proof -
  have "f64_within (pow2 (int 45)) (f64_of_int r)" using assms(3,4) by (intro f64_within_of_int) simp_all
  from f64_within_mul [OF this bps_within [OF assms(1,2)]]
  have m: "f64_within (pow2 62) (f64_mul (f64_of_int r) (f64_of_int b))" by simp
  have "pow2 16 \<le> 120000" "pow2 4 \<le> 30" by (simp_all add: pow2_def)
  from f64_within_div [OF m this(1)]
  have "f64_within (pow2 46) (f64_div (f64_mul (f64_of_int r) (f64_of_int b)) (Fin 120000))" by simp
  from f64_within_mul [OF this f64_within_of_int [OF assms(5,6)]]
  have "f64_within (pow2 65) (f64_mul (f64_div (f64_mul (f64_of_int r) (f64_of_int b)) (Fin 120000)) (f64_of_int days))"
    by simp
  from f64_within_div [OF this \<open>pow2 4 \<le> 30\<close>]
  have "f64_within (pow2 (int 61)) (f64_div (f64_mul (f64_div (f64_mul (f64_of_int r) (f64_of_int b)) (Fin 120000)) (f64_of_int days)) (Fin 30))"
    by simp
  from f64_within_to_int64 [OF this] show ?thesis
    by (simp add: money_round_def brokenPeriodInterest_def Let_def)
qed

lemma f64_within_add:
  assumes "f64_within (pow2 k) x" "f64_within (pow2 k) y" "- 1074 \<le> k" "k < 1023"
  shows "f64_within (pow2 (k + 1)) (f64_add x y)"
proof -
  obtain a b where "x = Fin a" "0 \<le> a" "a \<le> pow2 k" "y = Fin b" "0 \<le> b" "b \<le> pow2 k"
    using assms(1,2) by (auto simp: f64_within_def)
  moreover have "pow2 (k + 1) = pow2 k + pow2 k" by (simp add: pow2_add pow2_def [of 1])
  moreover from calculation have "a + b \<le> pow2 (k + 1)" by linarith
  ultimately show ?thesis using assms(3,4) f64_round_within [of "a + b" "k + 1"] by simp
qed

text \<open>The longest duration \<open>time.Sub\<close> can return is less than \<open>2\<^sup>1\<^sup>9\<close> days.\<close>

lemma saturated_days:
  "0 \<le> f64_to_int64 (f64_div (duration_hours (2 ^ 63 - 1)) (Fin 24))
   \<and> f64_to_int64 (f64_div (duration_hours (2 ^ 63 - 1)) (Fin 24)) \<le> 2 ^ 19"
proof -
  have q: "go_div (2 ^ 63 - 1) 3600000000000 = 2562047" "go_mod (2 ^ 63 - 1) 3600000000000 = 2836854775807"
    by (simp_all add: go_div_nonneg go_mod_nonneg)
  have le: "pow2 41 \<le> 3600000000000" "pow2 4 \<le> 24" by (simp_all add: pow2_def)
  have "f64_within (pow2 (int 22)) (f64_of_int 2562047)" "f64_within (pow2 (int 42)) (f64_of_int 2836854775807)"
    by (rule f64_within_of_int; simp)+
  from this(1) f64_within_div [OF this(2) le(1)]
  have "f64_within (pow2 22) (f64_of_int 2562047)"
      "f64_within (pow2 22) (f64_div (f64_of_int 2836854775807) (Fin 3600000000000))"
    by (auto intro: f64_within_mono)
  from f64_within_add [OF this]
  have "f64_within (pow2 23) (duration_hours (2 ^ 63 - 1))"
    unfolding duration_hours_def q by simp
  from f64_within_div [OF this le(2)]
  have "f64_within (pow2 19) (f64_div (duration_hours (2 ^ 63 - 1)) (Fin 24))" by simp
  then obtain a where a: "f64_div (duration_hours (2 ^ 63 - 1)) (Fin 24) = Fin a" "0 \<le> a" "a \<le> 524288"
    by (auto simp: f64_within_def pow2_def)
  then have "0 \<le> \<lfloor>a\<rfloor>" "\<lfloor>a\<rfloor> \<le> 524288" by (simp_all add: floor_le_iff)
  then show ?thesis using a by (simp add: in_i64_def)
qed

lemma days_between_bounds:
  assumes "b \<le> a"
  shows "0 \<le> days_between a b \<and> days_between a b \<le> 2 ^ 19"
    and "a - b \<le> 106751 \<Longrightarrow> days_between a b = a - b"
proof -
  show eq: "days_between a b = a - b" if "a - b \<le> 106751"
  proof -
    have "time_sub a b = (a - b) * 86400000000000" using assms that by (simp add: time_sub_def)
    then have "f64_div (duration_hours (time_sub a b)) (Fin 24) = Fin (of_int (a - b))"
      using hours24_whole_days [of "a - b"] assms that by (simp add: hours24_def)
    then show ?thesis using assms that by (simp add: days_between_def in_i64_def)
  qed
  show "0 \<le> days_between a b \<and> days_between a b \<le> 2 ^ 19"
  proof (cases "a - b \<le> 106751")
    case True
    then show ?thesis using eq assms by simp
  next
    case False
    then have "time_sub a b = 2 ^ 63 - 1" by (simp add: time_sub_def)
    then show ?thesis using saturated_days by (simp add: days_between_def)
  qed
qed

section \<open>Transfers taken up\<close>

definition adj_sum :: "principalAdjustment list \<Rightarrow> cents" where
  "adj_sum as = (\<Sum>a\<leftarrow>as. adj_amount a)"

lemma adj_sum_simps [simp]: "adj_sum [] = 0" "adj_sum (a # as) = adj_amount a + adj_sum as"
  "adj_sum (as @ bs) = adj_sum as + adj_sum bs"
  by (simp_all add: adj_sum_def)

definition adjs_ok :: "cents \<Rightarrow> principalAdjustment list \<Rightarrow> bool" where
  "adjs_ok r as \<longleftrightarrow> 0 \<le> r \<and> (\<forall>a \<in> set as. 0 \<le> adj_amount a) \<and> r + adj_sum as \<le> 2 ^ 45"

lemma adj_sum_nonneg: "\<forall>a \<in> set as. 0 \<le> adj_amount a \<Longrightarrow> 0 \<le> adj_sum as"
  by (induction as) auto

lemma in_i64_small: "0 \<le> n \<Longrightarrow> n \<le> 2 ^ 62 \<Longrightarrow> in_i64 n"
  by (simp add: in_i64_def)

lemma absorb_eq:
  assumes "adjs_ok r as"
  shows "absorb due r as = (r + adj_sum (takeWhile (\<lambda>a. adj_date a < due) as),
    dropWhile (\<lambda>a. adj_date a < due) as, takeWhile (\<lambda>a. adj_date a < due) as \<noteq> [])"
  using assms
proof (induction as arbitrary: r)
  case Nil
  then show ?case by simp
next
  case (Cons a as)
  have "0 \<le> adj_sum as" using Cons.prems by (auto simp: adjs_ok_def intro: adj_sum_nonneg)
  then have "adjs_ok (r + adj_amount a) as" "i64 (r + adj_amount a) = r + adj_amount a"
    using Cons.prems by (auto simp: adjs_ok_def intro!: i64_id in_i64_small)
  then show ?case using Cons.IH [of "r + adj_amount a"] by simp
qed

lemma adjs_ok_drop:
  assumes "adjs_ok r as"
  shows "adjs_ok (r + adj_sum (takeWhile P as)) (dropWhile P as)"
proof -
  have "adj_sum (takeWhile P as) + adj_sum (dropWhile P as) = adj_sum as"
    by (metis adj_sum_simps(3) takeWhile_dropWhile_id)
  moreover have "0 \<le> adj_sum (takeWhile P as)"
    using assms by (intro adj_sum_nonneg) (auto simp: adjs_ok_def dest: set_takeWhileD)
  ultimately show ?thesis using assms by (auto simp: adjs_ok_def dest: set_dropWhileD)
qed

lemma adjs_ok_le: "adjs_ok r as \<Longrightarrow> 0 \<le> r \<and> r \<le> 2 ^ 45"
  using adj_sum_nonneg [of as] by (auto simp: adjs_ok_def)

lemma adjs_ok_less: "adjs_ok r as \<Longrightarrow> 0 \<le> p \<Longrightarrow> p \<le> r \<Longrightarrow> adjs_ok (r - p) as"
  by (auto simp: adjs_ok_def)

section \<open>One installment\<close>

lemma principal_part_bounds:
  assumes "0 \<le> r" "0 \<le> interest" "in_i64 emi"
  shows "0 \<le> principal_part final r emi interest \<and> principal_part final r emi interest \<le> r
    \<and> (final \<longrightarrow> principal_part final r emi interest = r)"
proof -
  have "i64 (emi - interest) = emi - interest" if "interest < emi"
    using assms that by (intro i64_id) (auto simp: in_i64_def)
  then show ?thesis using assms by (auto simp: principal_part_def)
qed

lemma interest_for_bounds:
  assumes "rate_ok terms" "0 \<le> r" "r \<le> 2 ^ 45" "0 \<le> days" "days \<le> 2 ^ 19"
  shows "0 \<le> interest_for terms days stub i r \<and> interest_for terms days stub i r \<le> 2 ^ 61"
proof -
  have "r \<le> 2 ^ 47" using assms(3) by simp
  then show ?thesis
    using interest_bounds [OF assms(1,2)] assms
      brokenPeriodInterest_bounds [of "lt_annualRateBps terms" r days]
    by (simp add: interest_for_def rate_ok_def maxLoanAnnualRateBps_def)
qed

lemma in_i64_f64 [simp]: "in_i64 (f64_to_int64 x)"
  by (cases x) (auto simp: in_i64_def Let_def)

lemma in_i64_money_round [simp]: "in_i64 (money_round x)"
  by (simp add: money_round_def)

lemma in_i64_rupeeCeil [simp]: "in_i64 a \<Longrightarrow> in_i64 (rupeeCeil a)"
  by (simp add: rupeeCeil_def)

lemma in_i64_solve_emi [simp]: "in_i64 r \<Longrightarrow> in_i64 (solve_emi terms days stub i r)"
  by (simp add: solve_emi_def loanEMI_def loanEMIWithStub_def Let_def)

lemma f64_mul_zero: "f64_within b x \<Longrightarrow> f64_mul x (Fin 0) = Fin 0"
  by (auto simp: f64_within_def f64_round_0)

lemma interest_free:
  assumes "lt_annualRateBps terms = 0" "0 \<le> r" "r \<le> 2 ^ 45" "0 \<le> days" "days \<le> 2 ^ 19"
  shows "interest_for terms days stub i r = 0"
proof -
  have rate: "monthly_rate terms = Fin 0" using assms(1) by (simp add: monthly_rate_def f64_of_int_def f64_round_0)
  have r: "f64_within (pow2 (int 45)) (f64_of_int r)" using assms(2,3) by (intro f64_within_of_int) simp_all
  have d: "f64_within (pow2 (int 19)) (f64_of_int days)" using assms(4,5) by (intro f64_within_of_int) simp_all
  have "brokenPeriodInterest r 0 days = 0"
    using f64_mul_zero [OF r] d
    by (auto simp: brokenPeriodInterest_def Let_def f64_of_int_def [of 0] f64_round_0 money_round_def
        f64_within_def round_away_def in_i64_def floor_eq_iff)
  then show ?thesis
    using f64_mul_zero [OF r] assms(1)
    by (simp add: interest_for_def rate money_round_def round_away_def in_i64_def floor_eq_iff)
qed


section \<open>The table\<close>

definition due_of :: "loanTerms \<Rightarrow> nat \<Rightarrow> date" where
  "due_of terms k = addMonthsAnchored (dateOnly (lt_firstDueDate terms)) (int k)"

lemma due_of_less: "j < k \<Longrightarrow> due_of terms j < due_of terms k"
  by (simp add: due_of_def addMonthsAnchored_less)

text \<open>The transfers dated before installment \<open>k\<close> (counted from 0), and what row \<open>j\<close> of a table says.\<close>

definition taken :: "loanTerms \<Rightarrow> nat \<Rightarrow> principalAdjustment list \<Rightarrow> principalAdjustment list" where
  "taken terms k adjs = takeWhile (\<lambda>a. adj_date a < due_of terms k) adjs"

definition row_ok :: "loanTerms \<Rightarrow> nat \<Rightarrow> cents \<Rightarrow> bool \<Rightarrow> principalAdjustment list \<Rightarrow> loan_entry list \<Rightarrow> nat \<Rightarrow> bool" where
  "row_ok terms k r recast adjs es j \<longleftrightarrow> (let e = es ! j in
     le_Number e = int (k + j + 1) \<and> le_DueDate e = due_of terms (k + j)
     \<and> 0 \<le> le_Principal e \<and> 0 \<le> le_Interest e \<and> le_Amount e = le_Principal e + le_Interest e
     \<and> le_Balance e = r + adj_sum (taken terms (k + j) adjs) - (\<Sum>x\<leftarrow>take (Suc j) es. le_Principal x)
     \<and> 0 \<le> le_Balance e \<and> (lt_annualRateBps terms = 0 \<longrightarrow> le_Interest e = 0)
     \<and> (le_Recast e \<longleftrightarrow> recast \<or> taken terms (k + j) adjs \<noteq> [])
     \<and> \<not> le_Paid e \<and> \<not> le_Cancelled e \<and> le_TransactionID e = None)"

lemma taken_split:
  assumes "k \<le> m"
  shows "taken terms m adjs
    = taken terms k adjs @ taken terms m (dropWhile (\<lambda>a. adj_date a < due_of terms k) adjs)"
proof -
  have "due_of terms k \<le> due_of terms m"
    using due_of_less [of k m terms] assms by (cases "k = m") simp_all
  then show ?thesis by (induction adjs) (auto simp: taken_def)
qed

lemma row_ok_Cons:
  assumes "row_ok terms (Suc k) (r + adj_sum (taken terms k adjs) - le_Principal e)
      (recast \<or> taken terms k adjs \<noteq> []) (dropWhile (\<lambda>a. adj_date a < due_of terms k) adjs) es j"
  shows "row_ok terms k r recast adjs (e # es) (Suc j)"
  using assms taken_split [of k "k + Suc j" terms adjs] by (auto simp: row_ok_def Let_def)

lemma amortize_rows:
  assumes "rate_ok terms" "0 \<le> days" "days \<le> 2 ^ 19"
    and "adjs_ok r adjs" "in_i64 emi" "int (k + n) = lt_tenureMonths terms"
    and "amortize terms days stub (int k + 1) n r emi recast adjs = (emi', es)"
  shows "length es = n \<and> (\<forall>j < n. row_ok terms k r recast adjs es j) \<and> (0 < n \<longrightarrow> le_Balance (last es) = 0)"
  using assms(4-)
proof (induction n arbitrary: k r emi recast adjs emi' es)
  case 0
  then show ?case by simp
next
  case (Suc n)
  define r1 where "r1 = r + adj_sum (taken terms k adjs)"
  define rest where "rest = dropWhile (\<lambda>a. adj_date a < due_of terms k) adjs"
  define applied where "applied \<longleftrightarrow> taken terms k adjs \<noteq> []"
  define emi1 where "emi1 = (if applied then solve_emi terms days stub (int k + 1) r1 else emi)"
  define it where "it = interest_for terms days stub (int k + 1) r1"
  define p where "p = principal_part (int k + 1 = lt_tenureMonths terms) r1 emi1 it"
  define e where "e = \<lparr>le_Number = int k + 1, le_DueDate = due_of terms k, le_Amount = p + it,
      le_Principal = p, le_Interest = it, le_Balance = r1 - p, le_Paid = False, le_TransactionID = None,
      le_Recast = (recast \<or> applied), le_Cancelled = False\<rparr>"
  have ok1: "adjs_ok r1 rest"
    using adjs_ok_drop [OF Suc.prems(1)] by (simp add: r1_def rest_def taken_def)
  note r1 = adjs_ok_le [OF ok1]
  have emi1: "in_i64 emi1" using Suc.prems(2) r1 by (simp add: emi1_def in_i64_small)
  note it = interest_for_bounds [OF assms(1) conjunct1 [OF r1] conjunct2 [OF r1] assms(2,3), of stub "int k + 1", folded it_def]
  note p = principal_part_bounds [OF conjunct1 [OF r1] conjunct1 [OF it] emi1, of "int k + 1 = lt_tenureMonths terms", folded p_def]
  have free: "lt_annualRateBps terms = 0 \<longrightarrow> it = 0"
    using interest_free [of terms r1 days stub "int k + 1"] r1 assms(2,3) by (simp add: it_def)
  have w: "i64 (p + it) = p + it" "i64 (r1 - p) = r1 - p"
    using r1 it p by (auto intro!: i64_id in_i64_small)
  have ab: "absorb (due_of terms k) r adjs = (r1, rest, applied)"
    using absorb_eq [OF Suc.prems(1)] by (simp add: r1_def rest_def applied_def taken_def)
  have du: "addMonthsAnchored (dateOnly (lt_firstDueDate terms)) (int k + 1 - 1) = due_of terms k"
    by (simp add: due_of_def)
  obtain es' where es: "es = e # es'"
      "amortize terms days stub (int (Suc k) + 1) n (r1 - p) emi1 (recast \<or> applied) rest = (emi', es')"
    using Suc.prems(4)
    unfolding amortize.simps Let_def du ab prod.case emi1_def [symmetric] it_def [symmetric]
      p_def [symmetric] w e_def [symmetric]
    by (auto split: prod.splits simp: add.commute add.left_commute)
  have IH: "length es' = n \<and> (\<forall>j < n. row_ok terms (Suc k) (r1 - p) (recast \<or> applied) rest es' j)
      \<and> (0 < n \<longrightarrow> le_Balance (last es') = 0)"
  proof (rule Suc.IH [OF _ emi1 _ es(2)])
    show "adjs_ok (r1 - p) rest" using adjs_ok_less [OF ok1] p by blast
    show "int (Suc k + n) = lt_tenureMonths terms" using Suc.prems(3) by simp
  qed
  have row0: "row_ok terms k r recast adjs (e # es') 0"
    using p it free by (auto simp: row_ok_def Let_def e_def r1_def applied_def)
  have rows: "row_ok terms k r recast adjs (e # es') j" if "j < Suc n" for j
  proof (cases j)
    case 0
    then show ?thesis using row0 by simp
  next
    case (Suc i)
    then show ?thesis
      using IH that row_ok_Cons [of terms k r adjs e recast es' i]
      by (simp add: r1_def rest_def applied_def e_def)
  qed
  have "le_Balance (last (e # es')) = 0"
  proof (cases "n = 0")
    case True
    then have "int k + 1 = lt_tenureMonths terms" using Suc.prems(3) by simp
    then show ?thesis using IH True p by (simp add: e_def)
  next
    case False
    then show ?thesis using IH by auto
  qed
  then show ?case using IH rows es(1) by simp
qed

lemma firstPeriodStub_bounds: "0 \<le> fst (firstPeriodStub d due) \<and> fst (firstPeriodStub d due) \<le> 2 ^ 19"
  using days_between_bounds(1) [of "dateOnly (the d)" due]
  by (auto simp: firstPeriodStub_def Let_def split: option.splits)

lemma loanAmortization_rows:
  assumes "rate_ok terms" "1 \<le> lt_tenureMonths terms" "adjs_ok (lt_principal terms) adjs"
  shows "length (snd (loanAmortization terms adjs)) = nat (lt_tenureMonths terms)
    \<and> (\<forall>j < nat (lt_tenureMonths terms). row_ok terms 0 (lt_principal terms) False adjs (snd (loanAmortization terms adjs)) j)
    \<and> le_Balance (last (snd (loanAmortization terms adjs))) = 0"
proof -
  obtain days stub where st: "firstPeriodStub (lt_disbursalDate terms) (dateOnly (lt_firstDueDate terms)) = (days, stub)"
    by force
  have d: "0 \<le> days" "days \<le> 2 ^ 19"
    using firstPeriodStub_bounds [of "lt_disbursalDate terms" "dateOnly (lt_firstDueDate terms)"] st by simp_all
  obtain emi es where am: "amortize terms days stub (int 0 + 1) (nat (lt_tenureMonths terms)) (lt_principal terms)
      (solve_emi terms days stub 1 (lt_principal terms)) False adjs = (emi, es)" by force
  have "in_i64 (solve_emi terms days stub 1 (lt_principal terms))"
    using adjs_ok_le [OF assms(3)] by (simp add: in_i64_small)
  from amortize_rows [OF assms(1) d assms(3) this _ am] assms(2)
  have "length es = nat (lt_tenureMonths terms)
    \<and> (\<forall>j < nat (lt_tenureMonths terms). row_ok terms 0 (lt_principal terms) False adjs es j)
    \<and> le_Balance (last es) = 0" by simp
  moreover have "snd (loanAmortization terms adjs) = es"
    using assms(2) am unfolding loanAmortization_def st Let_def by simp
  ultimately show ?thesis by simp
qed


definition ex_terms_loan :: loanTerms where
  "ex_terms_loan = \<lparr>lt_principal = 500000000, lt_processingFee = 250000, lt_annualRateBps = 950,
     lt_tenureMonths = 240, lt_firstDueDate = 738951, lt_disbursalDate = Some 738911\<rparr>"

definition ex_adjs :: "principalAdjustment list" where
  "ex_adjs = [\<lparr>adj_date = 739000, adj_amount = 12345678\<rparr>]"

lemma ex_loan_ok: "rate_ok ex_terms_loan" "1 \<le> lt_tenureMonths ex_terms_loan"
    "adjs_ok (lt_principal ex_terms_loan) ex_adjs"
  by (simp_all add: rate_ok_def ex_terms_loan_def ex_adjs_def adjs_ok_def maxLoanAnnualRateBps_def)


text \<open>The table is a ledger: row \<open>k\<close> (counted from 0) is numbered \<open>k + 1\<close>, falls due \<open>k\<close> months after
  the first date by the anchored rule (so the due dates strictly increase), its balance is the
  principal plus the transfers dated strictly before its due date less the principal repaid so far,
  and it is marked recast exactly when there is such a transfer.\<close>

theorem loanAmortization_ledger:
  fixes adjs :: "principalAdjustment list"
  assumes "rate_ok terms" and "adjs_ok (lt_principal terms) adjs" and "int k < lt_tenureMonths terms"
  defines "es \<equiv> snd (loanAmortization terms adjs)"
    and "due \<equiv> (\<lambda>i. addMonthsAnchored (dateOnly (lt_firstDueDate terms)) (int i))"
  shows "le_Number (es ! k) = int k + 1 \<and> le_DueDate (es ! k) = due k \<and> (\<forall>j < k. due j < due k)
    \<and> le_Balance (es ! k) = lt_principal terms
        + (\<Sum>a\<leftarrow>takeWhile (\<lambda>a. adj_date a < due k) adjs. adj_amount a)
        - (\<Sum>e\<leftarrow>take (Suc k) es. le_Principal e)
    \<and> (le_Recast (es ! k) \<longleftrightarrow> takeWhile (\<lambda>a. adj_date a < due k) adjs \<noteq> [])"
proof -
  have "1 \<le> lt_tenureMonths terms" "k < nat (lt_tenureMonths terms)" using assms(3) by simp_all
  with loanAmortization_rows [OF assms(1) this(1) assms(2), folded es_def]
  have row: "row_ok terms 0 (lt_principal terms) False adjs es k" by blast
  have due: "due_of terms i = due i" for i by (simp add: due_def due_of_def)
  have "\<forall>j < k. due j < due k" using due_of_less [of _ k terms] due by simp
  then show ?thesis using row by (simp add: row_ok_def Let_def taken_def due adj_sum_def)
qed

theorem loanAmortization_ledger_witness:
  "le_Number (snd (loanAmortization ex_terms_loan ex_adjs) ! 5) = 6
   \<and> (le_Recast (snd (loanAmortization ex_terms_loan ex_adjs) ! 0) \<longleftrightarrow> False)"
proof -
  have k: "int 5 < lt_tenureMonths ex_terms_loan" "int 0 < lt_tenureMonths ex_terms_loan"
    by (simp_all add: ex_terms_loan_def)
  show ?thesis
    using loanAmortization_ledger [OF ex_loan_ok(1,3) k(1)] loanAmortization_ledger [OF ex_loan_ok(1,3) k(2)]
    by (simp add: ex_terms_loan_def ex_adjs_def)
qed

section \<open>Rounding\<close>

end
