(* ===== verification/Loan_Progress.thy ===== *)
theory Loan_Progress
  imports Loan_Table
begin

text \<open>
  The read side of a loan: how \<open>loadLoanScheduleDetail\<close> matches the attached payments to the
  installments and what its totals mean, and the settlement quote of \<open>loanPayoffFor\<close>. The abstract
  specification is \<open>pay_rows\<close>: the nth payment pays the nth installment.
\<close>

section \<open>Matching payments\<close>

fun pay_rows :: "loan_payment list \<Rightarrow> loan_entry list \<Rightarrow> loan_entry list" where
  "pay_rows [] es = es"
| "pay_rows (p # ps) [] = []"
| "pay_rows (p # ps) (e # es) = e\<lparr>le_Paid := True, le_TransactionID := Some (py_id p)\<rparr> # pay_rows ps es"

definition debits :: "loan_payment list \<Rightarrow> loan_payment list" where
  "debits ps = filter (\<lambda>p. \<not> py_credit p) ps"

definition fresh_rows :: "loan_entry list \<Rightarrow> bool" where
  "fresh_rows es \<longleftrightarrow> (\<forall>e \<in> set es. \<not> le_Paid e \<and> \<not> le_Cancelled e \<and> le_TransactionID e = None)"

lemma nextUnpaid_split:
  assumes "\<forall>e \<in> set pre. le_Paid e" "fresh_rows post"
  shows "nextUnpaidEntry (pre @ post) = (if post = [] then None else Some (length pre))"
  using assms by (induction pre) (cases post, auto simp: fresh_rows_def)

lemma length_pay_rows [simp]: "length (pay_rows ps es) = length es"
  by (induction ps es rule: pay_rows.induct) auto

lemma pay_rows_nil [simp]: "pay_rows ps [] = []"
  by (cases ps) auto

text \<open>The loop over the payments, from a table whose first rows are paid.\<close>

lemma fold_match:
  assumes "dt_Entries d = pre @ post" "\<forall>e \<in> set pre. le_Paid e" "fresh_rows post" "in_i64 (dt_PaidAmount d)"
  shows "fold match_payment ps d = d\<lparr>
      dt_Entries := pre @ pay_rows (debits ps) post,
      dt_PaidAmount := i64 (dt_PaidAmount d + (\<Sum>p\<leftarrow>ps. if py_credit p then - py_amount p else py_amount p)),
      dt_LastPaidDate := (case take (length post) (debits ps) of
          [] \<Rightarrow> dt_LastPaidDate d | us \<Rightarrow> Some (py_date (last us)))\<rparr>"
  using assms
proof (induction ps arbitrary: d pre post)
  case Nil
  then show ?case by (simp add: debits_def i64_id)
next
  case (Cons p ps)
  show ?case
  proof (cases "py_credit p")
    case True
    then have "match_payment p d = d\<lparr>dt_PaidAmount := i64 (dt_PaidAmount d - py_amount p)\<rparr>"
      by (simp add: match_payment_def)
    then show ?thesis
      using Cons.IH [of "d\<lparr>dt_PaidAmount := i64 (dt_PaidAmount d - py_amount p)\<rparr>" pre post] Cons.prems True
      by (simp add: debits_def i64_sums algebra_simps split: list.splits)
  next
    case debit: False
    note nxt = nextUnpaid_split [OF Cons.prems(2,3)]
    show ?thesis
    proof (cases post)
      case Nil
      then have "match_payment p d = d\<lparr>dt_PaidAmount := i64 (dt_PaidAmount d + py_amount p)\<rparr>"
        using debit nxt Cons.prems(1) by (simp add: match_payment_def Let_def)
      then show ?thesis
        using Cons.IH [of "d\<lparr>dt_PaidAmount := i64 (dt_PaidAmount d + py_amount p)\<rparr>" pre post] Cons.prems Nil debit
        by (simp add: debits_def i64_sums add.assoc)
    next
      case (Cons e es)
      define e1 where "e1 = e\<lparr>le_Paid := True, le_TransactionID := Some (py_id p)\<rparr>"
      define d1 where "d1 = d\<lparr>dt_PaidAmount := i64 (dt_PaidAmount d + py_amount p),
          dt_Entries := (pre @ [e1]) @ es, dt_LastPaidDate := Some (py_date p)\<rparr>"
      have "match_payment p d = d1"
        using debit nxt Cons Cons.prems(1)
        by (simp add: match_payment_def Let_def d1_def e1_def list_update_append nth_append)
      moreover have "fold match_payment ps d1 = d1\<lparr>
          dt_Entries := (pre @ [e1]) @ pay_rows (debits ps) es,
          dt_PaidAmount := i64 (dt_PaidAmount d1 + (\<Sum>p\<leftarrow>ps. if py_credit p then - py_amount p else py_amount p)),
          dt_LastPaidDate := (case take (length es) (debits ps) of
              [] \<Rightarrow> dt_LastPaidDate d1 | us \<Rightarrow> Some (py_date (last us)))\<rparr>"
        by (rule Cons.IH) (use Cons.prems Cons in \<open>auto simp: d1_def e1_def fresh_rows_def\<close>)
      ultimately show ?thesis using debit Cons
        by (simp add: debits_def d1_def e1_def i64_sums add.assoc split: list.splits)
    qed
  qed
qed

lemma nth_pay_rows:
  "j < length es \<Longrightarrow> pay_rows ps es ! j =
    (if j < length ps then (es ! j)\<lparr>le_Paid := True, le_TransactionID := Some (py_id (ps ! j))\<rparr> else es ! j)"
proof (induction ps es arbitrary: j rule: pay_rows.induct)
  case (3 p ps e es)
  then show ?case by (cases j) auto
qed auto

section \<open>Totals\<close>

lemma fold_tally:
  defines "open_rows \<equiv> filter (\<lambda>e. \<not> le_Cancelled e)"
  assumes "in_i64 (dt_PrincipalPaid d)" "in_i64 (dt_InterestPaid d)" "in_i64 (dt_TotalInterest d)" "in_i64 (dt_TotalPayable d)"
  shows "fold tally es d = d\<lparr>
      dt_PaidInstallments := dt_PaidInstallments d + int (length (filter le_Paid (open_rows es))),
      dt_PrincipalPaid := i64 (dt_PrincipalPaid d + (\<Sum>e\<leftarrow>filter le_Paid (open_rows es). le_Principal e)),
      dt_InterestPaid := i64 (dt_InterestPaid d + (\<Sum>e\<leftarrow>filter le_Paid (open_rows es). le_Interest e)),
      dt_TotalInterest := i64 (dt_TotalInterest d + (\<Sum>e\<leftarrow>open_rows es. le_Interest e)),
      dt_TotalPayable := i64 (dt_TotalPayable d + (\<Sum>e\<leftarrow>open_rows es. le_Amount e))\<rparr>"
  using assms(2-) unfolding open_rows_def
proof (induction es arbitrary: d)
  case (Cons e es)
  have "in_i64 (dt_PrincipalPaid (tally e d))" "in_i64 (dt_InterestPaid (tally e d))"
    "in_i64 (dt_TotalInterest (tally e d))" "in_i64 (dt_TotalPayable (tally e d))"
    using Cons.prems by (simp_all add: tally_def Let_def)
  from Cons.IH [OF this] show ?case by (simp add: tally_def Let_def i64_sums add.assoc)
qed (simp add: i64_id)

text \<open>The rows after matching: the first ones paid, the rest not, and void if the loan was settled.\<close>

definition final_rows :: "bool \<Rightarrow> loan_payment list \<Rightarrow> loan_entry list \<Rightarrow> loan_entry list" where
  "final_rows settled ps es = map (cancel_entry settled) (pay_rows ps es)"

lemma fresh_rows_pay: "fresh_rows es \<Longrightarrow> fresh_rows (drop n es)"
  by (auto simp: fresh_rows_def dest: in_set_dropD)

lemma filter_paid_rows:
  assumes "fresh_rows es"
  shows "filter le_Paid (filter (\<lambda>e. \<not> le_Cancelled e) (final_rows settled ps es))
      = map (cancel_entry settled) (pay_rows (take (length es) ps) (take (length ps) es))"
  using assms unfolding final_rows_def
proof (induction ps es rule: pay_rows.induct)
  case (1 es)
  then show ?case by (induction es) (auto simp: fresh_rows_def cancel_entry_def)
qed (auto simp: fresh_rows_def cancel_entry_def)

lemma final_rows_open:
  assumes "fresh_rows es"
  shows "length (filter (\<lambda>e. \<not> le_Cancelled e) (final_rows settled ps es))
      = (if settled then min (length ps) (length es) else length es)"
  using assms unfolding final_rows_def
proof (induction ps es rule: pay_rows.induct)
  case (1 es)
  then show ?case by (induction es) (auto simp: fresh_rows_def cancel_entry_def)
qed (auto simp: fresh_rows_def cancel_entry_def)

lemma sums_pay_rows:
  "(\<Sum>e\<leftarrow>map (cancel_entry b) (pay_rows ps es). le_Principal e) = (\<Sum>e\<leftarrow>es. le_Principal e)"
  "(\<Sum>e\<leftarrow>map (cancel_entry b) (pay_rows ps es). le_Interest e) = (\<Sum>e\<leftarrow>es. le_Interest e)"
  "(\<Sum>e\<leftarrow>map (cancel_entry b) (pay_rows ps es). le_Amount e) = (\<Sum>e\<leftarrow>es. le_Amount e)"
  by (induction ps es rule: pay_rows.induct) (simp_all add: cancel_entry_def comp_def)

text \<open>The rows that count: all of a live loan's, the paid ones of a settled one.\<close>

lemma open_rows_of:
  assumes "fresh_rows es"
  shows "filter (\<lambda>e. \<not> le_Cancelled e) (final_rows settled ps es) =
    (if settled then map (cancel_entry True) (pay_rows (take (length es) ps) (take (length ps) es))
     else map (cancel_entry False) (pay_rows ps es))"
proof (cases settled)
  case True
  have "filter (\<lambda>e. \<not> le_Cancelled e) (final_rows True ps es) =
      filter le_Paid (filter (\<lambda>e. \<not> le_Cancelled e) (final_rows True ps es))"
    unfolding filter_filter final_rows_def by (rule filter_cong) (auto simp: cancel_entry_def)
  then show ?thesis using filter_paid_rows [OF assms, of True ps] True by simp
next
  case False
  then show ?thesis by (simp add: final_rows_def cancel_entry_def filter_empty_conv)
qed

lemma nextUnpaid_final:
  assumes "fresh_rows es"
  shows "nextUnpaidEntry (final_rows settled ps es)
      = (if settled \<or> length es \<le> length ps then None else Some (length ps))"
  using assms unfolding final_rows_def
proof (induction ps es rule: pay_rows.induct)
  case (1 es)
  then show ?case
    by (induction es) (auto simp: fresh_rows_def cancel_entry_def)
qed (auto simp: fresh_rows_def cancel_entry_def)

lemma amortize_fresh:
  "amortize terms days stub i n r emi recast adjs = (emi', es) \<Longrightarrow> fresh_rows es"
  by (induction n arbitrary: i r emi recast adjs emi' es)
    (fastforce simp: fresh_rows_def Let_def split: prod.splits)+

lemma loanAmortization_fresh: "fresh_rows (snd (loanAmortization terms adjs))"
proof -
  obtain days stub where st: "firstPeriodStub (lt_disbursalDate terms) (dateOnly (lt_firstDueDate terms)) = (days, stub)"
    by force
  obtain emi es where am: "amortize terms days stub 1 (nat (lt_tenureMonths terms)) (lt_principal terms)
      (solve_emi terms days stub 1 (lt_principal terms)) False adjs = (emi, es)" by force
  from amortize_fresh [OF am] show ?thesis
    unfolding loanAmortization_def st Let_def by (simp add: am) (simp add: fresh_rows_def)
qed

section \<open>The detail\<close>

definition payment_net :: "loan_payment list \<Rightarrow> cents" where
  "payment_net ps = (\<Sum>p\<leftarrow>ps. if py_credit p then - py_amount p else py_amount p)"

lemma tally_extra [simp]:
  "dt_Entries (fold tally es d) = dt_Entries d" "dt_SettledOn (fold tally es d) = dt_SettledOn d"
  "dt_Schedule (fold tally es d) = dt_Schedule d" "dt_PaidAmount (fold tally es d) = dt_PaidAmount d"
  "dt_LastPaidDate (fold tally es d) = dt_LastPaidDate d"
  by (induction es arbitrary: d) (simp_all add: tally_def Let_def)

lemma outstanding_sum: "i64 (fold (\<lambda>a sum. i64 (sum + adj_amount a)) adjs p - q) = i64 (p + (\<Sum>a\<leftarrow>adjs. adj_amount a) - q)"
proof (induction adjs arbitrary: p)
  case (Cons a adjs)
  have "i64 (i64 (p + x) + y - q) = i64 (p + x + y - q)" for x y
    using i64_add(1) [of "p + x" "y - q"] by (simp add: algebra_simps)
  then show ?case using Cons.IH [of "i64 (p + adj_amount a)"] by (simp add: add.assoc)
qed simp

lemma in_i64_zero [simp]: "in_i64 0" "i64 0 = 0"
  by (simp_all add: in_i64_def i64_def)

lemma progress_figures:
  fixes s :: loan_schedule and transfers :: "loan_transfer list" and ps :: "loan_payment list"
    and credit :: "(uuid \<times> cents) option"
  defines "d \<equiv> scheduleDetail s transfers credit ps"
    and "settled \<equiv> fst (scan_transfers (ls_LoanAccountID s) transfers)"
    and "adjs \<equiv> fst (snd (scan_transfers (ls_LoanAccountID s) transfers))"
  defines "rows \<equiv> snd (loanAmortization (schedule_terms s) adjs)"
  defines "k \<equiv> min (length (debits ps)) (length rows)"
  shows "dt_Entries d = map (cancel_entry (settled \<noteq> None)) (pay_rows (debits ps) rows)
    \<and> dt_PaidInstallments d = int k
    \<and> dt_PrincipalPaid d = i64 (\<Sum>e\<leftarrow>take k rows. le_Principal e)
    \<and> dt_InterestPaid d = i64 (\<Sum>e\<leftarrow>take k rows. le_Interest e)
    \<and> dt_TotalInterest d = i64 (\<Sum>e\<leftarrow>(if settled = None then rows else take k rows). le_Interest e)
    \<and> dt_TotalPayable d = i64 (\<Sum>e\<leftarrow>(if settled = None then rows else take k rows). le_Amount e)
    \<and> dt_PaidAmount d = i64 (payment_net ps)
    \<and> dt_OutstandingPrincipal d = (if settled \<noteq> None then 0
        else max 0 (i64 (ls_Principal s + (\<Sum>a\<leftarrow>adjs. adj_amount a) - (\<Sum>e\<leftarrow>take k rows. le_Principal e))))
    \<and> dt_Completed d = (if settled = None then k = length rows else True)
    \<and> dt_NextDueDate d = (if settled = None \<and> k < length rows then Some (le_DueDate (rows ! k)) else None)"
proof -
  obtain paidOut where scan: "scan_transfers (ls_LoanAccountID s) transfers = (settled, adjs, paidOut)"
    by (metis adjs_def prod.collapse settled_def)
  define d0 where "d0 = empty_detail\<lparr>dt_Schedule := Some s, dt_Transfers := transfers, dt_SettledOn := settled,
            dt_Disbursement := Some (credit_disbursement credit (implied_disbursement s paidOut)),
            dt_EMI := fst (loanAmortization (schedule_terms s) adjs), dt_Entries := rows\<rparr>"
  have d: "d = finish_detail adjs (fold match_payment ps d0)"
    unfolding d_def scheduleDetail_def scan d0_def rows_def by (simp add: split_beta Let_def)
  have fresh: "fresh_rows rows" unfolding rows_def by (rule loanAmortization_fresh)
  define d1 where "d1 = fold match_payment ps d0"
  have m: "dt_Entries d1 = pay_rows (debits ps) rows" "dt_PaidAmount d1 = i64 (payment_net ps)"
      "dt_SettledOn d1 = settled" "dt_Schedule d1 = Some s" "dt_PaidInstallments d1 = 0"
      "dt_PrincipalPaid d1 = 0" "dt_InterestPaid d1 = 0" "dt_TotalInterest d1 = 0" "dt_TotalPayable d1 = 0"
      "dt_NextDueDate d1 = None"
    unfolding d1_def using fold_match [of d0 "[]" rows ps] fresh
    by (simp_all add: d0_def empty_detail_def payment_net_def)
  define F where "F = final_rows (settled \<noteq> None) (debits ps) rows"
  have F: "map (cancel_entry (dt_SettledOn d1 \<noteq> None)) (dt_Entries d1) = F"
    by (simp add: m F_def final_rows_def)
  define d2 where "d2 = fold tally F (d1\<lparr>dt_Entries := F\<rparr>)"
  have paid: "filter le_Paid (filter (\<lambda>e. \<not> le_Cancelled e) F)
      = map (cancel_entry (settled \<noteq> None)) (pay_rows (take (length rows) (debits ps)) (take (length (debits ps)) rows))"
    unfolding F_def by (rule filter_paid_rows [OF fresh])
  have tk: "take (length (debits ps)) rows = take k rows" by (simp add: k_def min_def)
  define R where "R = (if settled = None then rows else take k rows)"
  have opened: "(\<Sum>e\<leftarrow>filter (\<lambda>e. \<not> le_Cancelled e) F. le_Interest e) = (\<Sum>e\<leftarrow>R. le_Interest e)"
      "(\<Sum>e\<leftarrow>filter (\<lambda>e. \<not> le_Cancelled e) F. le_Amount e) = (\<Sum>e\<leftarrow>R. le_Amount e)"
    unfolding F_def open_rows_of [OF fresh] R_def
    by (simp_all add: if_distrib [of "map _"] if_distrib [of sum_list] sums_pay_rows tk del: map_map)
  have tally: "d2 = d1\<lparr>dt_Entries := F, dt_PaidInstallments := int k,
      dt_PrincipalPaid := i64 (\<Sum>e\<leftarrow>take k rows. le_Principal e),
      dt_InterestPaid := i64 (\<Sum>e\<leftarrow>take k rows. le_Interest e),
      dt_TotalInterest := i64 (\<Sum>e\<leftarrow>R. le_Interest e), dt_TotalPayable := i64 (\<Sum>e\<leftarrow>R. le_Amount e)\<rparr>"
    unfolding d2_def
    by (subst fold_tally) (simp_all add: m paid sums_pay_rows tk opened k_def del: map_map filter_filter)
  have d2: "dt_PaidInstallments d2 = int k" "dt_PrincipalPaid d2 = i64 (\<Sum>e\<leftarrow>take k rows. le_Principal e)"
      "dt_InterestPaid d2 = i64 (\<Sum>e\<leftarrow>take k rows. le_Interest e)"
      "dt_TotalInterest d2 = i64 (\<Sum>e\<leftarrow>R. le_Interest e)" "dt_TotalPayable d2 = i64 (\<Sum>e\<leftarrow>R. le_Amount e)"
      "dt_Entries d2 = F" "dt_SettledOn d2 = settled" "dt_Schedule d2 = Some s"
      "dt_PaidAmount d2 = i64 (payment_net ps)" "dt_NextDueDate d2 = None"
    by (simp_all add: tally m)
  have owed: "length (filter (\<lambda>e. \<not> le_Cancelled e) F) = (if settled \<noteq> None then k else length rows)"
    unfolding F_def final_rows_open [OF fresh] by (simp add: k_def)
  have nx: "nextUnpaidEntry F = (if settled \<noteq> None \<or> length rows \<le> length (debits ps) then None else Some (length (debits ps)))"
    unfolding F_def by (rule nextUnpaid_final [OF fresh])
  have due: "le_DueDate (F ! k) = le_DueDate (rows ! k)" if "k < length rows"
    using that by (simp add: F_def final_rows_def nth_pay_rows cancel_entry_def)
  have fin: "d = conclude_detail adjs d2"
    unfolding d d1_def [symmetric] finish_detail_def F Let_def d2_def ..
  have kl: "k \<le> length rows" by (simp add: k_def)
  have E: "dt_Entries d = F \<and> dt_PaidInstallments d = int k \<and> dt_PrincipalPaid d = dt_PrincipalPaid d2
      \<and> dt_InterestPaid d = dt_InterestPaid d2 \<and> dt_TotalInterest d = dt_TotalInterest d2
      \<and> dt_TotalPayable d = dt_TotalPayable d2 \<and> dt_PaidAmount d = i64 (payment_net ps)"
    unfolding fin conclude_detail_def Let_def by (simp add: d2 split: option.splits)
  have O: "dt_OutstandingPrincipal d = (if settled \<noteq> None then 0
        else max 0 (i64 (ls_Principal s + (\<Sum>a\<leftarrow>adjs. adj_amount a) - dt_PrincipalPaid d2)))"
    unfolding fin conclude_detail_def Let_def by (auto simp: d2(6-8) outstanding_sum max_def split: option.splits)
  have C: "dt_Completed d \<longleftrightarrow> settled \<noteq> None \<or> k = length rows"
    unfolding fin conclude_detail_def Let_def using kl by (auto simp: d2(1,6) owed split: option.splits)
  have nk: "nextUnpaidEntry F = (if settled \<noteq> None \<or> k = length rows then None else Some k)"
    unfolding nx k_def by (auto simp: min_def)
  have N: "dt_NextDueDate d = (if settled = None \<and> k < length rows then Some (le_DueDate (rows ! k)) else None)"
  proof (cases "settled = None \<and> k < length rows")
    case True
    then show ?thesis unfolding fin conclude_detail_def Let_def by (simp add: d2(1,6) owed nk due)
  next
    case False
    then have "settled \<noteq> None \<or> k = length rows" using kl by auto
    then show ?thesis unfolding fin conclude_detail_def Let_def by (auto simp: d2(1,6,10) owed nk)
  qed
  have C: "dt_Completed d = (if settled = None then k = length rows else True)" using C by simp
  show ?thesis using E O C N d2(2-5) by (simp add: F_def final_rows_def i64_sums R_def)
qed

lemma detail_origin:
  "dt_Schedule (scheduleDetail s transfers credit ps) = Some s"
  "dt_SettledOn (scheduleDetail s transfers credit ps) = fst (scan_transfers (ls_LoanAccountID s) transfers)"
proof -
  have m: "dt_Schedule (fold match_payment ps d) = dt_Schedule d"
    "dt_SettledOn (fold match_payment ps d) = dt_SettledOn d" for d
    by (induction ps arbitrary: d) (auto simp: match_payment_def Let_def split: option.splits)
  show "dt_Schedule (scheduleDetail s transfers credit ps) = Some s"
    "dt_SettledOn (scheduleDetail s transfers credit ps) = fst (scan_transfers (ls_LoanAccountID s) transfers)"
    by (simp_all add: scheduleDetail_def finish_detail_def conclude_detail_def Let_def m split_beta
        split: option.splits)
qed

text \<open>Within the bounds of an accepted schedule the principal repaid never exceeds what was borrowed.\<close>

lemma repaid_bounds:
  assumes "rate_ok (schedule_terms s)" "1 \<le> ls_TenureMonths s" "adjs_ok (ls_Principal s) adjs"
    and "rows = snd (loanAmortization (schedule_terms s) adjs)" "k \<le> length rows"
  shows "0 \<le> (\<Sum>e\<leftarrow>take k rows. le_Principal e)"
    "(\<Sum>e\<leftarrow>take k rows. le_Principal e) \<le> ls_Principal s + (\<Sum>a\<leftarrow>adjs. adj_amount a)"
proof -
  have row: "row_ok (schedule_terms s) 0 (ls_Principal s) False adjs rows j" if "j < length rows" for j
    using loanAmortization_rows [of "schedule_terms s" adjs] assms that by (simp add: schedule_terms_def)
  have "0 \<le> le_Principal e" if "e \<in> set rows" for e
    using that row by (auto simp: in_set_conv_nth row_ok_def Let_def)
  then show "0 \<le> (\<Sum>e\<leftarrow>take k rows. le_Principal e)"
    by (intro sum_list_nonneg_int) (auto dest: in_set_takeD)
  have total: "0 \<le> ls_Principal s + adj_sum adjs" using adj_sum_nonneg [of adjs] assms(3) by (auto simp: adjs_ok_def)
  show "(\<Sum>e\<leftarrow>take k rows. le_Principal e) \<le> ls_Principal s + (\<Sum>a\<leftarrow>adjs. adj_amount a)"
  proof (cases k)
    case 0
    then show ?thesis using total by (simp add: adj_sum_def)
  next
    case (Suc j)
    let ?P = "\<lambda>a. adj_date a < due_of (schedule_terms s) j"
    have "adj_sum (takeWhile ?P adjs) + adj_sum (dropWhile ?P adjs) = adj_sum adjs"
      by (metis adj_sum_simps(3) takeWhile_dropWhile_id)
    moreover have "0 \<le> adj_sum (dropWhile ?P adjs)"
      using assms(3) by (intro adj_sum_nonneg) (auto simp: adjs_ok_def dest: set_dropWhileD)
    moreover have "(\<Sum>e\<leftarrow>take k rows. le_Principal e) \<le> ls_Principal s + adj_sum (takeWhile ?P adjs)"
      using row [of j] assms(5) Suc by (simp add: row_ok_def Let_def taken_def)
    ultimately show ?thesis by (simp add: adj_sum_def [symmetric])
  qed
qed

lemma in_bounds_i64: "adjs_ok p adjs \<Longrightarrow> 0 \<le> q \<Longrightarrow> q \<le> p + (\<Sum>a\<leftarrow>adjs. adj_amount a) \<Longrightarrow>
    i64 q = q \<and> i64 (p + (\<Sum>a\<leftarrow>adjs. adj_amount a) - q) = p + (\<Sum>a\<leftarrow>adjs. adj_amount a) - q"
  by (intro conjI i64_id) (simp_all add: in_i64_def adjs_ok_def adj_sum_def)



definition ex_schedule :: loan_schedule where
  "ex_schedule = \<lparr>ls_ID = 5, ls_LoanAccountID = 7, ls_Principal = 120000, ls_ProcessingFee = 0, ls_AnnualRateBps = 0,
     ls_TenureMonths = 12, ls_StartDate = 738900, ls_DisbursalDate = None\<rparr>"

lemma ex_schedule_ok:
  "rate_ok (schedule_terms ex_schedule)" "1 \<le> ls_TenureMonths ex_schedule"
  "adjs_ok (ls_Principal ex_schedule) (fst (snd (scan_transfers (ls_LoanAccountID ex_schedule) [])))"
  "fst (scan_transfers (ls_LoanAccountID ex_schedule) []) = None"
  by (simp_all add: ex_schedule_def rate_ok_def schedule_terms_def maxLoanAnnualRateBps_def adjs_ok_def
      scan_transfers_def)

definition ex_payments :: "loan_payment list" where
  "ex_payments = [\<lparr>py_id = 31, py_amount = 10000, py_date = 738901, py_credit = False\<rparr>,
     \<lparr>py_id = 32, py_amount = 500, py_date = 738905, py_credit = True\<rparr>]"

abbreviation ex_rows :: "loan_entry list" where
  "ex_rows \<equiv> snd (loanAmortization (schedule_terms ex_schedule) [])"

lemma ex_twelve: "length ex_rows = 12"
  using loanAmortization_rows [of "schedule_terms ex_schedule" "[]"] ex_schedule_ok
  by (simp add: scan_transfers_def ex_schedule_def schedule_terms_def)



section \<open>The settlement quote\<close>

text \<open>The payoff quote is principal plus accrued interest and never less than what is owed: the
  days are the exact days from the anchor (the last payment, else the disbursal, else one month
  before the first installment), and a settlement on or before the anchor accrues nothing.\<close>

theorem loanPayoffFor_spec:
  assumes "dt_Schedule d = Some s" and "0 \<le> ls_AnnualRateBps s" and "ls_AnnualRateBps s \<le> maxLoanAnnualRateBps"
    and "0 \<le> dt_OutstandingPrincipal d" and "dt_OutstandingPrincipal d \<le> 2 ^ 45"
    and "asOf - payoffAnchor d asOf \<le> 106751"
  shows "lp_Payoff (loanPayoffFor d asOf) = dt_OutstandingPrincipal d + lp_AccruedInterest (loanPayoffFor d asOf)
    \<and> 0 \<le> lp_AccruedInterest (loanPayoffFor d asOf)
    \<and> lp_Days (loanPayoffFor d asOf) = max 0 (asOf - payoffAnchor d asOf)
    \<and> (asOf \<le> payoffAnchor d asOf \<longrightarrow> lp_AccruedInterest (loanPayoffFor d asOf) = 0)"
proof (cases "payoffAnchor d asOf < asOf")
  case True
  define days where "days = days_between asOf (payoffAnchor d asOf)"
  have days: "days = asOf - payoffAnchor d asOf" "0 \<le> days" "days \<le> 2 ^ 19"
    using days_between_bounds [of "payoffAnchor d asOf" asOf] True assms(6) by (simp_all add: days_def)
  have b: "0 \<le> brokenPeriodInterest (dt_OutstandingPrincipal d) (ls_AnnualRateBps s) days
      \<and> brokenPeriodInterest (dt_OutstandingPrincipal d) (ls_AnnualRateBps s) days \<le> 2 ^ 61"
    using assms(2-5) days(2,3) by (intro brokenPeriodInterest_bounds) (simp_all add: maxLoanAnnualRateBps_def)
  then have "i64 (dt_OutstandingPrincipal d + brokenPeriodInterest (dt_OutstandingPrincipal d) (ls_AnnualRateBps s) days)
      = dt_OutstandingPrincipal d + brokenPeriodInterest (dt_OutstandingPrincipal d) (ls_AnnualRateBps s) days"
    using assms(4,5) by (intro i64_id in_i64_small) simp_all
  then show ?thesis using True assms(1) b days(1)
    unfolding loanPayoffFor_def Let_def dateOnly_id by (simp add: days_def [symmetric])
next
  case False
  then show ?thesis using assms(1) unfolding loanPayoffFor_def Let_def dateOnly_id by simp
qed

theorem loanPayoffFor_spec_witness:
  "lp_Days (loanPayoffFor (empty_detail\<lparr>dt_Schedule := Some ex_schedule, dt_LastPaidDate := Some 738900\<rparr>) 738910) = 10"
proof -
  let ?d = "empty_detail\<lparr>dt_Schedule := Some ex_schedule, dt_LastPaidDate := Some 738900\<rparr>"
  have "payoffAnchor ?d 738910 = 738900" by (simp add: payoffAnchor_def)
  then show ?thesis
    using loanPayoffFor_spec [of ?d ex_schedule 738910]
    by (simp add: ex_schedule_def empty_detail_def maxLoanAnnualRateBps_def)
qed

section \<open>A rate the transfer endpoint lets through\<close>

definition ex_transfer_request :: loan_transfer_request where
  "ex_transfer_request = \<lparr>tr_ToLoanAccountID = 8, tr_TransferDate = ''2024-06-01'', tr_Mode = ''opens'',
     tr_TargetAnnualRateBps = Some 1965960000, tr_TargetTenureMonths = Some 74,
     tr_TargetStartDate = ''2024-07-01''\<rparr>"

lemma amortize_emi_no_transfers: "fst (amortize terms days stub i n r emi recast []) = emi"
  by (induction n arbitrary: i r emi recast) (simp_all add: Let_def split_beta)

lemma pow_loop_half:
  "0 < i \<Longrightarrow> - 4096 \<le> xe \<Longrightarrow> xe \<le> 4096 \<Longrightarrow> pow_loop i a ae (Fin (1 / 2)) xe =
    pow_loop (i div 2) (if odd i then f64_mul a (Fin (1 / 2)) else a) (if odd i then ae + xe else ae)
      (Fin (1 / 2)) (2 * xe - 1)"
  by (subst pow_loop.simps) (simp add: f64_round_fractions f64_round_half Let_def)

lemma pow_loop_zero: "pow_loop 0 a ae x xe = (a, ae)"
  by (subst pow_loop.simps) simp

lemma overflow_growth: "go_pow (Fin 16384) 74 = PInf"
proof -
  have "ilog2 16384 = 14" using ilog2_pow2 [of 14] by (simp add: pow2_def)
  moreover have "16384 / pow2 15 = 1 / 2" by (simp add: pow2_def)
  moreover have "pow_loop 74 (Fin 1) 0 (Fin (1 / 2)) 15 = (Fin (1 / 8), 1039)"
    by (simp add: pow_loop_half pow_loop_zero f64_round_fractions f64_round_half)
  moreover have "ldexp (Fin (1 / 8)) 1039 = PInf"
  proof -
    have "1 / 8 * pow2 1039 = pow2 1036"
      using pow2_add [of "- 3" 1039] by (simp add: pow2_def [of "- 3"])
    then show ?thesis by (simp add: ldexp_def f64_round_overflow)
  qed
  ultimately show ?thesis by (simp add: go_pow_def)
qed

lemma overflow_emi: "loanEMI 100000 (Fin 16383) 74 = - (2 ^ 63)"
proof -
  have "f64_of_int 100000 = Fin 100000" by (simp add: f64_of_int_exact)
  then show ?thesis
    by (simp add: loanEMI_def f64_round_numeral overflow_growth f64_sub_def money_round_def Let_def f64_inf_def)
qed

lemma overflow_rate: "f64_div (f64_of_int 1965960000) (Fin 120000) = Fin 16383"
  by (simp add: f64_of_int_exact f64_round_numeral)

text \<open>The bound that keeps the annuity finite is missing where a transfer opens a schedule:
  \<open>transferTargetTerms\<close> accepts a rate that \<open>UpsertLoanSchedule\<close> would refuse, and with it the EMI of
  the new loan overflows to NaN and becomes the smallest \<open>int64\<close>.\<close>

theorem transferTargetTerms_rate_unbounded:
  "\<exists>terms. transferTargetTerms (time_date 2024 6 1) ex_transfer_request 100000 = Inr terms
    \<and> maxLoanAnnualRateBps < lt_annualRateBps terms
    \<and> fst (loanAmortization terms []) = - (2 ^ 63)"
proof -
  have p: "parseRecurringDate (time_date 2024 6 1) ''2024-07-01'' = Inr (time_date 2024 7 1)" by code_simp
  have ne: "trim_space ''2024-07-01'' \<noteq> []" by code_simp
  define terms where "terms = \<lparr>lt_principal = 100000, lt_processingFee = 0, lt_annualRateBps = 1965960000,
    lt_tenureMonths = 74, lt_firstDueDate = time_date 2024 7 1, lt_disbursalDate = None\<rparr>"
  have "transferTargetTerms (time_date 2024 6 1) ex_transfer_request 100000 = Inr terms"
    using p ne by (simp add: transferTargetTerms_def ex_transfer_request_def maxLoanTenureMonths_def terms_def)
  moreover have "fst (loanAmortization terms []) = - (2 ^ 63)"
    by (simp add: loanAmortization_def firstPeriodStub_def terms_def amortize_emi_no_transfers solve_emi_def
        monthly_rate_def overflow_rate overflow_emi rupeeCeil_def del: amortize.simps)
  moreover have "maxLoanAnnualRateBps < lt_annualRateBps terms"
    by (simp add: terms_def maxLoanAnnualRateBps_def)
  ultimately show ?thesis by blast
qed

end
