(* ===== verification/Server.thy ===== *)
theory Server
  imports Prelude
begin

text \<open>
  How a handler runs. A request is a program over the server's state \<open>'d\<close>: it either goes on with a
  value or stops with an error, the way a handler writes its response and returns. Every statement
  sent to the database may fail (a lost connection, a timeout): \<open>faults\<close> is the script of those
  failures, one entry per statement, and no theorem assumes anything about it. \<open>with_tx\<close> is
  \<open>db.WithTx\<close> (\<open>backend/db/db.go\<close>): the body's writes are committed together or not at all.
  Requests of different clients run one after the other here; \<open>Loan_Race\<close> treats two that overlap.

  \<open>outcomes\<close> is the calculus of the development: what holds of the state a program leaves behind,
  for every script of faults, with one rule per construct.
\<close>

section \<open>Programs\<close>

record 'd world =
  w_db :: 'd
  w_faults :: "bool list"
  w_ids :: "uuid list"

type_synonym ('d, 'e, 'a) prog = "'d world \<Rightarrow> ('e + 'a) \<times> 'd world"

definition ret :: "'a \<Rightarrow> ('d, 'e, 'a) prog" where
  "ret a w = (Inr a, w)"

definition fail :: "'e \<Rightarrow> ('d, 'e, 'a) prog" where
  "fail e w = (Inl e, w)"

definition seq :: "('d, 'e, 'a) prog \<Rightarrow> ('a \<Rightarrow> ('d, 'e, 'b) prog) \<Rightarrow> ('d, 'e, 'b) prog" where
  "seq m f w = (case m w of (Inl e, w') \<Rightarrow> (Inl e, w') | (Inr a, w') \<Rightarrow> f a w')"

definition check :: "bool \<Rightarrow> 'e \<Rightarrow> ('d, 'e, unit) prog" where
  "check b e = (if b then ret () else fail e)"

definition of_sum :: "'e + 'a \<Rightarrow> ('d, 'e, 'a) prog" where
  "of_sum r w = (r, w)"

text \<open>The handler's own reading of an error, for instance \<open>23505\<close> as a 409.\<close>

definition on_error :: "('d, 'e, 'a) prog \<Rightarrow> ('e \<Rightarrow> 'f) \<Rightarrow> ('d, 'f, 'a) prog" where
  "on_error m h w = (case m w of (Inl e, w') \<Rightarrow> (Inl (h e), w') | (Inr a, w') \<Rightarrow> (Inr a, w'))"

text \<open>\<open>uuid.New()\<close> and \<open>gen_random_uuid()\<close>: any UUID but the nil one, which has no version bits.\<close>

definition new_id :: "('d, 'e, uuid) prog" where
  "new_id w = (case w_ids w of [] \<Rightarrow> (Inr 1, w) | i # is \<Rightarrow> (Inr (max 1 i), w\<lparr>w_ids := is\<rparr>))"

text \<open>A handler whose answer does not matter.\<close>

definition forget :: "('d, 'e, 'a) prog \<Rightarrow> ('d, 'e, unit) prog" where
  "forget m = seq m (\<lambda>_. ret ())"

section \<open>Statements\<close>

datatype db_error =
    Fault                   \<comment> \<open>the statement did not run\<close>
  | Unique                  \<comment> \<open>unique_violation, 23505\<close>
  | Constraint              \<comment> \<open>foreign key or check violation\<close>
  | Refused string          \<comment> \<open>an error value of the handlers' own\<close>

definition faulty :: "'d world \<Rightarrow> bool" where
  "faulty w = (case w_faults w of [] \<Rightarrow> False | b # _ \<Rightarrow> b)"

definition sent :: "'d world \<Rightarrow> 'd world" where
  "sent w = w\<lparr>w_faults := tl (w_faults w)\<rparr>"

definition exec :: "('d \<Rightarrow> db_error + 'a \<times> 'd) \<Rightarrow> ('d, db_error, 'a) prog" where
  "exec f w =
     (if faulty w then (Inl Fault, sent w)
      else case f (w_db w) of
          Inl e \<Rightarrow> (Inl e, sent w)
        | Inr (a, d) \<Rightarrow> (Inr a, (sent w)\<lparr>w_db := d\<rparr>))"

definition query :: "('d \<Rightarrow> 'a) \<Rightarrow> ('d, db_error, 'a) prog" where
  "query f = exec (\<lambda>d. Inr (f d, d))"

definition with_tx :: "('d, db_error, 'a) prog \<Rightarrow> ('d, db_error, 'a) prog" where
  "with_tx body w =
     (if faulty w then (Inl Fault, sent w)
      else case body (sent w) of
          (Inl e, w') \<Rightarrow> (Inl e, w'\<lparr>w_db := w_db w\<rparr>)
        | (Inr a, w') \<Rightarrow>
            if faulty w' then (Inl Fault, (sent w')\<lparr>w_db := w_db w\<rparr>) else (Inr a, sent w'))"

section \<open>Responses\<close>

text \<open>An error response is a status code and the message of \<open>validation.RespondError\<close>.\<close>

datatype http_error = Http (status: nat) (message: string)

definition bad_request :: "string \<Rightarrow> http_error" where "bad_request m = Http 400 m"
definition not_found :: "string \<Rightarrow> http_error" where "not_found m = Http 404 m"
definition conflict :: "string \<Rightarrow> http_error" where "conflict m = Http 409 m"
definition forbidden :: http_error where "forbidden = Http 403 ''forbidden''"
definition internal_error :: http_error where "internal_error = Http 500 ''internal server error''"

text \<open>A statement of a handler whose failure is answered 500.\<close>

definition ask :: "('d \<Rightarrow> 'a) \<Rightarrow> ('d, http_error, 'a) prog" where
  "ask f = on_error (query f) (\<lambda>_. internal_error)"

definition run_stmt :: "('d \<Rightarrow> db_error + 'a \<times> 'd) \<Rightarrow> ('d, http_error, 'a) prog" where
  "run_stmt f = on_error (exec f) (\<lambda>_. internal_error)"

section \<open>The calculus\<close>

text \<open>From the state \<open>d\<close>, whatever fails: a value is returned in a state satisfying \<open>Q\<close>, or an error in
  one satisfying \<open>E\<close>.\<close>

definition outcomes ::
  "('d, 'e, 'a) prog \<Rightarrow> ('a \<Rightarrow> 'd \<Rightarrow> bool) \<Rightarrow> ('e \<Rightarrow> 'd \<Rightarrow> bool) \<Rightarrow> 'd \<Rightarrow> bool" where
  "outcomes m Q E d \<longleftrightarrow> (\<forall>w. w_db w = d \<longrightarrow>
     (case m w of (Inr a, w') \<Rightarrow> Q a (w_db w') | (Inl e, w') \<Rightarrow> E e (w_db w')))"

named_theorems wp "rules of the calculus, one per construct"

lemma outcomes_ret [wp]: "Q a d \<Longrightarrow> outcomes (ret a) Q E d"
  by (simp add: outcomes_def ret_def)

lemma outcomes_fail [wp]: "E e d \<Longrightarrow> outcomes (fail e) Q E d"
  by (simp add: outcomes_def fail_def)

lemma outcomes_seq [wp]:
  "outcomes m (\<lambda>a. outcomes (f a) Q E) E d \<Longrightarrow> outcomes (seq m f) Q E d"
  unfolding outcomes_def seq_def by (fastforce split: prod.splits sum.splits)

lemma outcomes_check [wp]:
  "(b \<Longrightarrow> Q () d) \<Longrightarrow> (\<not> b \<Longrightarrow> E e d) \<Longrightarrow> outcomes (check b e) Q E d"
  by (simp add: check_def outcomes_ret outcomes_fail)

lemma outcomes_of_sum [wp]:
  "(\<And>a. r = Inr a \<Longrightarrow> Q a d) \<Longrightarrow> (\<And>e. r = Inl e \<Longrightarrow> E e d) \<Longrightarrow> outcomes (of_sum r) Q E d"
  by (auto simp: outcomes_def of_sum_def split: sum.splits)

lemma outcomes_on_error [wp]:
  "outcomes m Q (\<lambda>e. E (h e)) d \<Longrightarrow> outcomes (on_error m h) Q E d"
  unfolding outcomes_def on_error_def by (fastforce split: prod.splits sum.splits)

lemma outcomes_new_id [wp]: "(\<And>i. i \<noteq> 0 \<Longrightarrow> Q i d) \<Longrightarrow> outcomes new_id Q E d"
  by (simp add: outcomes_def new_id_def split: list.splits)

lemma sent_db [simp]: "w_db (sent w) = w_db w"
  by (simp add: sent_def)

lemma outcomes_exec [wp]:
  assumes "E Fault d" "\<And>e. f d = Inl e \<Longrightarrow> E e d" "\<And>a d'. f d = Inr (a, d') \<Longrightarrow> Q a d'"
  shows "outcomes (exec f) Q E d"
  using assms by (auto simp: outcomes_def exec_def split: sum.splits prod.splits)

lemma outcomes_query [wp]: "E Fault d \<Longrightarrow> Q (f d) d \<Longrightarrow> outcomes (query f) Q E d"
  unfolding query_def by (rule outcomes_exec) simp_all

lemma outcomes_ask [wp]: "E internal_error d \<Longrightarrow> Q (f d) d \<Longrightarrow> outcomes (ask f) Q E d"
  unfolding ask_def by (intro wp)

lemma outcomes_run_stmt [wp]:
  "E internal_error d \<Longrightarrow> (\<And>a d'. f d = Inr (a, d') \<Longrightarrow> Q a d') \<Longrightarrow> outcomes (run_stmt f) Q E d"
  unfolding run_stmt_def by (intro wp)

lemma outcomes_with_tx [wp]:
  fixes body :: "('d, db_error, 'a) prog"
  assumes "outcomes body Q (\<lambda>e _. E e d) d" "E Fault d"
  shows "outcomes (with_tx body) Q E d"
  unfolding outcomes_def
proof (intro allI impI)
  fix w :: "'d world"
  assume w: "w_db w = d"
  then have "case body (sent w) of (Inr a, w') \<Rightarrow> Q a (w_db w') | (Inl e, w') \<Rightarrow> E e d"
    using assms(1) unfolding outcomes_def by (metis sent_db)
  then show "case with_tx body w of (Inr a, w') \<Rightarrow> Q a (w_db w') | (Inl e, w') \<Rightarrow> E e (w_db w')"
    using assms(2) w by (auto simp: with_tx_def split: prod.splits sum.splits)
qed

lemma outcomes_if [wp]:
  "(b \<Longrightarrow> outcomes m Q E d) \<Longrightarrow> (\<not> b \<Longrightarrow> outcomes n Q E d) \<Longrightarrow> outcomes (if b then m else n) Q E d"
  by simp

lemma outcomes_option [wp]:
  "(x = None \<Longrightarrow> outcomes m Q E d) \<Longrightarrow> (\<And>a. x = Some a \<Longrightarrow> outcomes (n a) Q E d) \<Longrightarrow>
    outcomes (case x of None \<Rightarrow> m | Some a \<Rightarrow> n a) Q E d"
  by (cases x) simp_all

lemma outcomes_prod [wp]:
  "(\<And>a b. x = (a, b) \<Longrightarrow> outcomes (n a b) Q E d) \<Longrightarrow> outcomes (case x of (a, b) \<Rightarrow> n a b) Q E d"
  by (cases x) simp

lemma outcomes_mono:
  assumes "outcomes m Q E d" "\<And>a d'. Q a d' \<Longrightarrow> Q' a d'" "\<And>e d'. E e d' \<Longrightarrow> E' e d'"
  shows "outcomes m Q' E' d"
  using assms unfolding outcomes_def by (fastforce split: prod.splits sum.splits)

lemma outcomes_elim:
  assumes "outcomes m Q E (w_db w)" "m w = (r, w')"
  shows "case r of Inr a \<Rightarrow> Q a (w_db w') | Inl e \<Rightarrow> E e (w_db w')"
  using assms unfolding outcomes_def by (auto split: prod.splits sum.splits)

lemma outcomes_forget [wp]: "outcomes m (\<lambda>_. Q ()) E d \<Longrightarrow> outcomes (forget m) Q E d"
  unfolding forget_def by (rule outcomes_seq) (erule outcomes_mono, auto intro: wp)

text \<open>A program that keeps an invariant, and one that leaves the state alone.\<close>

definition keeps_inv :: "('d \<Rightarrow> bool) \<Rightarrow> ('d, 'e, 'a) prog \<Rightarrow> bool" where
  "keeps_inv I m \<longleftrightarrow> (\<forall>d. I d \<longrightarrow> outcomes m (\<lambda>_. I) (\<lambda>_. I) d)"

definition reads_only :: "('d, 'e, 'a) prog \<Rightarrow> bool" where
  "reads_only m \<longleftrightarrow> (\<forall>d. outcomes m (\<lambda>_ d'. d' = d) (\<lambda>_ d'. d' = d) d)"

named_theorems read_only "programs that leave the state alone"

lemma reads_only_simps [read_only]:
  "reads_only (ret a)" "reads_only (fail e)" "reads_only (check b e)" "reads_only (of_sum r)"
  "reads_only (query f)" "reads_only (ask f)" "reads_only new_id"
  by (auto simp: reads_only_def intro!: wp)

lemma reads_only_seq [read_only]:
  assumes "reads_only m" "\<And>a. reads_only (f a)"
  shows "reads_only (seq m f)"
  unfolding reads_only_def
proof (intro allI wp)
  fix d
  show "outcomes m (\<lambda>a. outcomes (f a) (\<lambda>_ d'. d' = d) (\<lambda>_ d'. d' = d)) (\<lambda>_ d'. d' = d) d"
    using assms(1) unfolding reads_only_def
    by (rule allE [of _ d], elim outcomes_mono) (use assms(2) in \<open>auto simp: reads_only_def\<close>)
qed

lemma reads_only_on_error [read_only]: "reads_only m \<Longrightarrow> reads_only (on_error m h)"
  by (simp add: reads_only_def outcomes_on_error)

lemma reads_only_if [read_only]: "reads_only m \<Longrightarrow> reads_only n \<Longrightarrow> reads_only (if b then m else n)"
  by simp

lemma reads_only_option [read_only]:
  "reads_only m \<Longrightarrow> (\<And>a. reads_only (n a)) \<Longrightarrow> reads_only (case x of None \<Rightarrow> m | Some a \<Rightarrow> n a)"
  by (cases x) simp_all

lemma reads_only_prod [read_only]:
  "(\<And>a b. reads_only (n a b)) \<Longrightarrow> reads_only (case x of (a, b) \<Rightarrow> n a b)"
  by (cases x) simp

text \<open>A read-only program in the middle of another: any value may come back, the state is the same.\<close>

lemma outcomes_reads_only:
  assumes "reads_only m" "\<And>a. Q a d" "\<And>e. E e d"
  shows "outcomes m Q E d"
  using assms(1) unfolding reads_only_def
  by (rule allE [of _ d], elim outcomes_mono) (use assms(2,3) in auto)

section \<open>Total correctness\<close>

text \<open>From the state \<open>d\<close>, when no statement fails, the program returns a value and leaves a state, both
  satisfying \<open>Q\<close>: the request is answered, and with success.\<close>

definition healthy :: "('d, 'e, 'a) prog \<Rightarrow> ('a \<Rightarrow> 'd \<Rightarrow> bool) \<Rightarrow> 'd \<Rightarrow> bool" where
  "healthy m Q d \<longleftrightarrow> (\<forall>w. w_db w = d \<longrightarrow> w_faults w = [] \<longrightarrow>
     (\<exists>a w'. m w = (Inr a, w') \<and> Q a (w_db w') \<and> w_faults w' = []))"

named_theorems healthy "total correctness, one rule per construct"

lemma healthyI:
  "(\<And>w. w_db w = d \<Longrightarrow> w_faults w = [] \<Longrightarrow>
     \<exists>a w'. m w = (Inr a, w') \<and> Q a (w_db w') \<and> w_faults w' = []) \<Longrightarrow> healthy m Q d"
  by (simp add: healthy_def)

lemma healthy_elim:
  assumes "healthy m Q (w_db w)" "w_faults w = []"
  obtains a w' where "m w = (Inr a, w')" "Q a (w_db w')" "w_faults w' = []"
  using assms unfolding healthy_def by blast

lemma healthy_mono: "healthy m Q d \<Longrightarrow> (\<And>a d'. Q a d' \<Longrightarrow> Q' a d') \<Longrightarrow> healthy m Q' d"
  unfolding healthy_def by blast

lemma sent_faults [simp]: "w_faults (sent w) = tl (w_faults w)"
  by (simp add: sent_def)

lemma faulty_Nil [simp]: "w_faults w = [] \<Longrightarrow> \<not> faulty w"
  by (simp add: faulty_def)

lemma healthy_ret [healthy]: "Q a d \<Longrightarrow> healthy (ret a) Q d"
  by (simp add: healthy_def ret_def)

lemma healthy_seq [healthy]:
  assumes "healthy m (\<lambda>a. healthy (f a) Q) d"
  shows "healthy (seq m f) Q d"
proof (rule healthyI)
  fix w :: "'a world"
  assume w: "w_db w = d" "w_faults w = []"
  then obtain a v where a: "m w = (Inr a, v)" "healthy (f a) Q (w_db v)" "w_faults v = []"
    using assms unfolding healthy_def by blast
  from a(2,3) obtain b v' where "f a v = (Inr b, v')" "Q b (w_db v')" "w_faults v' = []"
    by (rule healthy_elim)
  then show "\<exists>b w'. seq m f w = (Inr b, w') \<and> Q b (w_db w') \<and> w_faults w' = []"
    using a(1) by (simp add: seq_def)
qed

lemma healthy_check [healthy]: "b \<Longrightarrow> Q () d \<Longrightarrow> healthy (check b e) Q d"
  by (simp add: check_def healthy_ret)

lemma healthy_on_error [healthy]: "healthy m Q d \<Longrightarrow> healthy (on_error m h) Q d"
  unfolding healthy_def on_error_def by fastforce

lemma healthy_new_id [healthy]: "(\<And>i. Q i d) \<Longrightarrow> healthy new_id Q d"
  by (simp add: healthy_def new_id_def split: list.splits)

lemma healthy_exec [healthy]: "f d = Inr (a, d') \<Longrightarrow> Q a d' \<Longrightarrow> healthy (exec f) Q d"
  by (simp add: healthy_def exec_def)

lemma healthy_query [healthy]: "Q (f d) d \<Longrightarrow> healthy (query f) Q d"
  unfolding query_def by (rule healthy_exec) simp_all

lemma healthy_ask [healthy]: "Q (f d) d \<Longrightarrow> healthy (ask f) Q d"
  unfolding ask_def by (intro healthy)

lemma healthy_run_stmt [healthy]: "f d = Inr (a, d') \<Longrightarrow> Q a d' \<Longrightarrow> healthy (run_stmt f) Q d"
  unfolding run_stmt_def by (intro healthy)

lemma healthy_with_tx [healthy]:
  fixes body :: "('d, db_error, 'a) prog"
  assumes "healthy body Q d"
  shows "healthy (with_tx body) Q d"
proof (rule healthyI)
  fix w :: "'d world"
  assume w: "w_db w = d" "w_faults w = []"
  then obtain a v where "body (sent w) = (Inr a, v)" "Q a (w_db v)" "w_faults v = []"
    using assms unfolding healthy_def by (metis sent_db sent_faults list.sel(2))
  then show "\<exists>a w'. with_tx body w = (Inr a, w') \<and> Q a (w_db w') \<and> w_faults w' = []"
    using w by (simp add: with_tx_def)
qed

lemma healthy_if [healthy]:
  "(b \<Longrightarrow> healthy m Q d) \<Longrightarrow> (\<not> b \<Longrightarrow> healthy n Q d) \<Longrightarrow> healthy (if b then m else n) Q d"
  by simp

lemma healthy_option [healthy]:
  "(x = None \<Longrightarrow> healthy m Q d) \<Longrightarrow> (\<And>a. x = Some a \<Longrightarrow> healthy (n a) Q d) \<Longrightarrow>
    healthy (case x of None \<Rightarrow> m | Some a \<Rightarrow> n a) Q d"
  by (cases x) simp_all

lemma healthy_prod [healthy]:
  "(\<And>a b. x = (a, b) \<Longrightarrow> healthy (n a b) Q d) \<Longrightarrow> healthy (case x of (a, b) \<Rightarrow> n a b) Q d"
  by (cases x) simp

text \<open>Everything but the statements, for proofs that give each statement's result themselves.\<close>

lemmas healthy_frame = healthy_ret healthy_seq healthy_check healthy_on_error healthy_new_id
  healthy_query healthy_ask healthy_with_tx healthy_if healthy_option healthy_prod

end
