(* ===== verification/Tables.thy ===== *)
theory Tables
  imports Server Money Loan Recurring "HOL-Library.Product_Lexorder"
begin

text \<open>
  The tables the loan and recurring handlers work on, with the constraints of
  \<open>backend/db/migrations/000001_initial_schema.up.sql\<close> that those handlers rely on. A table is the
  list of its rows in insertion order, so the order of \<open>created_at\<close> is the order of the list (but for
  transactions, whose \<open>created_at\<close> is a column: the rows of one import share it). Columns
  no handler reads here (display names other than the account's, colours, timestamps) are left out.
\<close>

section \<open>Rows\<close>

record account_row =
  ac_ID :: uuid
  ac_UserID :: uuid
  ac_Name :: string
  ac_TypeID :: string
  ac_Closed :: bool
  ac_BillingDay :: "int option"

record txn_row =
  tx_ID :: uuid
  tx_UserID :: uuid
  tx_AccountID :: uuid
  tx_Date :: date
  tx_Description :: string
  tx_Amount :: cents
  tx_Type :: string
  tx_CategoryID :: "uuid option"
  tx_PayeeID :: "uuid option"
  tx_CycleID :: "uuid option"
  tx_Detached :: bool
  tx_CreatedAt :: nat
  tx_Tags :: "string list"
  tx_Notes :: "string option"
  tx_ClientKey :: "string option"

record payee_row =
  pe_ID :: uuid
  pe_UserID :: uuid
  pe_Name :: string
  pe_AccountID :: "uuid option"

record category_row =
  ct_ID :: uuid
  ct_UserID :: "uuid option"

text \<open>A junction row: \<open>loan_attachments\<close>, \<open>loan_disbursements\<close> (parent: the loan account) and
  \<open>recurring_attachments\<close> (parent: the series).\<close>

record link_row =
  lk_UserID :: uuid
  lk_Parent :: uuid
  lk_TransactionID :: uuid

record series_row =
  sr_ID :: uuid
  sr_UserID :: uuid
  sr_Name :: string
  sr_Description :: string
  sr_Type :: string
  sr_Frequency :: string
  sr_Interval :: int
  sr_CategoryID :: "uuid option"
  sr_PayeeID :: "uuid option"
  sr_Active :: bool
  sr_Notes :: string

record cycle_row =
  bc_ID :: uuid
  bc_UserID :: uuid
  bc_AccountID :: uuid
  bc_StartDate :: date
  bc_EndDate :: date
  bc_Label :: string

text \<open>A link between two transactions, and a categorization rule; a rule with an unset condition has
  \<open>NULL\<close> in its column.\<close>

record pair_row =
  pr_UserID :: uuid
  pr_From :: uuid
  pr_To :: uuid

record rule_row =
  rl_ID :: uuid
  rl_UserID :: uuid
  rl_Priority :: int
  rl_Pattern :: string
  rl_MatchType :: string
  rl_CategoryID :: uuid
  rl_PayeeID :: "uuid option"
  rl_AccountID :: "uuid option"
  rl_FilterCategoryID :: "uuid option"
  rl_FilterPayeeID :: "uuid option"
  rl_MinAmount :: "cents option"
  rl_MaxAmount :: "cents option"
  rl_TxnType :: "string option"
  rl_DateFrom :: "date option"
  rl_DateTo :: "date option"
  rl_IsLinked :: "bool option"
  rl_IsRecurring :: "bool option"
  rl_AddTags :: "string list"
  rl_Notes :: string

record db =
  accounts :: "account_row list"
  transactions :: "txn_row list"
  payees :: "payee_row list"
  categories :: "category_row list"
  loan_attachments :: "link_row list"
  loan_disbursements :: "link_row list"
  loan_schedules :: "(uuid \<times> loan_schedule) list"
  loan_transfers :: "(uuid \<times> loan_transfer) list"
  series :: "series_row list"
  series_terms :: "(uuid \<times> series_term) list"
  recurring_attachments :: "link_row list"
  billing_cycles :: "cycle_row list"
  txn_links :: "pair_row list"
  rules :: "rule_row list"

section \<open>Reads shared by the handlers\<close>

definition maxBulkBatch :: int where "maxBulkBatch = 5000"

definition find_account :: "uuid \<Rightarrow> db \<Rightarrow> account_row option" where
  "find_account a d = find (\<lambda>r. ac_ID r = a) (accounts d)"

definition owns_account :: "uuid \<Rightarrow> uuid \<Rightarrow> db \<Rightarrow> bool" where
  "owns_account u a d \<longleftrightarrow> (\<exists>r \<in> set (accounts d). ac_ID r = a \<and> ac_UserID r = u)"

definition owns_txn :: "uuid \<Rightarrow> uuid \<Rightarrow> db \<Rightarrow> bool" where
  "owns_txn u t d \<longleftrightarrow> (\<exists>r \<in> set (transactions d). tx_ID r = t \<and> tx_UserID r = u)"

text \<open>\<open>SELECT COUNT(*) FROM transactions WHERE id = ANY(ids) AND user_id = u\<close>, and the same over a
  junction table.\<close>

definition count_owned :: "uuid list \<Rightarrow> uuid \<Rightarrow> db \<Rightarrow> nat" where
  "count_owned ids u d = length (filter (\<lambda>t. tx_ID t \<in> set ids \<and> tx_UserID t = u) (transactions d))"

definition count_links :: "uuid list \<Rightarrow> uuid \<Rightarrow> link_row list \<Rightarrow> nat" where
  "count_links ids u ls = length (filter (\<lambda>l. lk_TransactionID l \<in> set ids \<and> lk_UserID l = u) ls)"

definition linked :: "uuid \<Rightarrow> uuid \<Rightarrow> link_row list \<Rightarrow> bool" where
  "linked u t ls \<longleftrightarrow> (\<exists>l \<in> set ls. lk_TransactionID l = t \<and> lk_UserID l = u)"

section \<open>Junction writes\<close>

text \<open>
  \<open>INSERT INTO <junction> SELECT parent, t, u FROM unnest(ids)\<close>: the unique index on
  \<open>transaction_id\<close> refuses a transaction that is in the table already or twice in the batch, and the
  foreign keys refuse a transaction or a parent of another user.
\<close>

definition new_links :: "uuid \<Rightarrow> uuid \<Rightarrow> uuid list \<Rightarrow> link_row list" where
  "new_links u parent ids = map (\<lambda>t. \<lparr>lk_UserID = u, lk_Parent = parent, lk_TransactionID = t\<rparr>) ids"

lemma new_links_txns [simp]: "map lk_TransactionID (new_links u p ids) = ids"
  by (induction ids) (simp_all add: new_links_def)

lemma new_links_set: "l \<in> set (new_links u p ids) \<longleftrightarrow> lk_UserID l = u \<and> lk_Parent l = p \<and> lk_TransactionID l \<in> set ids"
  by (cases l) (auto simp: new_links_def)

lemma new_links_image [simp]: "lk_TransactionID ` set (new_links u p ids) = set ids"
  by (force simp: new_links_set image_iff new_links_def)

definition insert_links ::
  "bool \<Rightarrow> (uuid \<Rightarrow> bool) \<Rightarrow> uuid \<Rightarrow> uuid \<Rightarrow> uuid list \<Rightarrow> link_row list \<Rightarrow> db_error + link_row list" where
  "insert_links parent_ok txn_ok u parent ids ls =
     (let new = new_links u parent ids in
      if \<not> distinct (map lk_TransactionID (ls @ new)) then Inl Unique
      else if ids \<noteq> [] \<and> \<not> parent_ok \<or> \<not> list_all txn_ok ids then Inl Constraint
      else Inr (ls @ new))"

lemma insert_links_ok:
  assumes "insert_links p t u parent ids ls = Inr ls'"
  shows "ls' = ls @ new_links u parent ids" "distinct (map lk_TransactionID ls')" "distinct ids"
    "\<And>l. l \<in> set ls \<Longrightarrow> lk_TransactionID l \<notin> set ids" "ids \<noteq> [] \<Longrightarrow> p" "list_all t ids"
  using assms by (auto simp: insert_links_def Let_def split: if_splits)

definition delete_links :: "uuid list \<Rightarrow> uuid \<Rightarrow> link_row list \<Rightarrow> link_row list" where
  "delete_links ids u ls = filter (\<lambda>l. \<not> (lk_TransactionID l \<in> set ids \<and> lk_UserID l = u)) ls"

lemma filter_mine_new_links: "filter (\<lambda>l. lk_UserID l \<noteq> u) (new_links u a ids) = []"
  by (simp add: filter_empty_conv new_links_set)

section \<open>Other users\<close>

text \<open>What the requests of \<open>u\<close> may not touch: every other user's row, and the tables the handlers here
  only read.\<close>

definition others :: "uuid \<Rightarrow> db \<Rightarrow> db" where
  "others u d = d\<lparr>transactions := filter (\<lambda>t. tx_UserID t \<noteq> u) (transactions d),
     loan_attachments := filter (\<lambda>l. lk_UserID l \<noteq> u) (loan_attachments d),
     loan_disbursements := filter (\<lambda>l. lk_UserID l \<noteq> u) (loan_disbursements d),
     loan_schedules := filter (\<lambda>r. fst r \<noteq> u) (loan_schedules d),
     loan_transfers := filter (\<lambda>r. fst r \<noteq> u) (loan_transfers d),
     series := filter (\<lambda>s. sr_UserID s \<noteq> u) (series d),
     series_terms := filter (\<lambda>r. fst r \<noteq> u) (series_terms d),
     recurring_attachments := filter (\<lambda>l. lk_UserID l \<noteq> u) (recurring_attachments d),
     billing_cycles := filter (\<lambda>c. bc_UserID c \<noteq> u) (billing_cycles d),
     rules := filter (\<lambda>r. rl_UserID r \<noteq> u) (rules d)\<rparr>"

section \<open>Request parameters\<close>


text \<open>A path parameter and a JSON body: the parsing is the web framework's, the model starts from its
  result.\<close>

definition path_id :: "string \<Rightarrow> uuid option \<Rightarrow> (db, http_error, uuid) prog" where
  "path_id msg p = (case p of None \<Rightarrow> fail (bad_request msg) | Some i \<Rightarrow> ret i)"

definition bind_json :: "'r option \<Rightarrow> (db, http_error, 'r) prog" where
  "bind_json r = (case r of None \<Rightarrow> fail (bad_request ''invalid request'') | Some r \<Rightarrow> ret r)"

definition or_400 :: "string + 'a \<Rightarrow> (db, http_error, 'a) prog" where
  "or_400 r = (case r of Inl m \<Rightarrow> fail (bad_request m) | Inr a \<Rightarrow> ret a)"

lemma outcomes_path_id [wp]:
  "(\<And>i. p = Some i \<Longrightarrow> Q i d) \<Longrightarrow> (p = None \<Longrightarrow> E (bad_request m) d) \<Longrightarrow> outcomes (path_id m p) Q E d"
  by (cases p) (auto simp: path_id_def intro: wp)

lemma outcomes_bind_json [wp]:
  "(\<And>x. r = Some x \<Longrightarrow> Q x d) \<Longrightarrow> (r = None \<Longrightarrow> E (bad_request ''invalid request'') d) \<Longrightarrow>
    outcomes (bind_json r) Q E d"
  by (cases r) (auto simp: bind_json_def intro: wp)

lemma outcomes_or_400 [wp]:
  "(\<And>a. r = Inr a \<Longrightarrow> Q a d) \<Longrightarrow> (\<And>m. r = Inl m \<Longrightarrow> E (bad_request m) d) \<Longrightarrow> outcomes (or_400 r) Q E d"
  by (cases r) (auto simp: or_400_def intro: wp)

lemma reads_only_params [read_only]:
  "reads_only (path_id m p)" "reads_only (bind_json r)" "reads_only (or_400 s)"
  by (auto simp: path_id_def bind_json_def or_400_def read_only split: option.splits sum.splits)

section \<open>Links: one parent per transaction\<close>

text \<open>
  The contract of a junction table: what is linked, an insert that refuses a transaction linked
  already, and a delete. \<open>BulkLinkLoan\<close>, \<open>LinkLoanDisbursement\<close> and \<open>AttachRecurring\<close> rely on it.
\<close>

definition unique_links :: "link_row list \<Rightarrow> bool" where
  "unique_links ls \<longleftrightarrow> distinct (map lk_TransactionID ls)"

locale link_table =
  fixes rows :: "'d \<Rightarrow> link_row list"
    and put :: "link_row list \<Rightarrow> 'd \<Rightarrow> 'd"
  assumes rows_put [simp]: "rows (put ls d) = ls"
begin

lemma insert_unique:
  "insert_links p t u parent ids (rows d) = Inr ls \<Longrightarrow> unique_links (rows (put ls d))"
  by (simp add: unique_links_def insert_links_ok)

lemma delete_unique:
  "unique_links (rows d) \<Longrightarrow> unique_links (rows (put (delete_links ids u (rows d)) d))"
  by (simp add: unique_links_def delete_links_def distinct_map_filter)

lemma insert_links_all:
  assumes "insert_links p t u parent ids (rows d) = Inr ls" "i \<in> set ids"
  shows "linked u i (rows (put ls d)) \<and> \<not> linked u i (rows d)"
proof -
  let ?l = "\<lparr>lk_UserID = u, lk_Parent = parent, lk_TransactionID = i\<rparr>"
  have "?l \<in> set ls"
    using assms(2) by (simp add: insert_links_ok(1) [OF assms(1)] new_links_set)
  then have "linked u i (rows (put ls d))"
    unfolding linked_def rows_put by (rule rev_bexI) simp
  moreover have "\<not> linked u i (rows d)"
    using insert_links_ok(4) [OF assms(1)] assms(2) by (auto simp: linked_def)
  ultimately show ?thesis ..
qed

lemma deleted_links: "i \<in> set ids \<Longrightarrow> \<not> linked u i (rows (put (delete_links ids u (rows d)) d))"
  by (auto simp: linked_def delete_links_def)

lemma delete_undoes_insert:
  assumes "insert_links p t u parent ids (rows d) = Inr ls"
  shows "delete_links ids u ls = rows d"
  using insert_links_ok(1,4) [OF assms]
  by (auto simp: delete_links_def filter_empty_conv new_links_set intro!: filter_True)

end

interpretation loan_links: link_table loan_attachments "\<lambda>ls d. d\<lparr>loan_attachments := ls\<rparr>"
  by unfold_locales simp

interpretation disbursement_links: link_table loan_disbursements "\<lambda>ls d. d\<lparr>loan_disbursements := ls\<rparr>"
  by unfold_locales simp

interpretation recurring_links: link_table recurring_attachments "\<lambda>ls d. d\<lparr>recurring_attachments := ls\<rparr>"
  by unfold_locales simp

end
