(* ===== verification/Loan_Store.thy ===== *)
theory Loan_Store
  imports Tables
begin

text \<open>
  The statements the loan handlers send (\<open>backend/handlers/loan.go\<close>), as functions on the tables, and
  the reads behind a loan's detail. An \<open>INSERT\<close> checks what the migration declares: its CHECKs, its
  unique indexes and its foreign keys, in the order PostgreSQL reports them.
\<close>

section \<open>Reads\<close>

definition find_owned_account :: "uuid \<Rightarrow> uuid \<Rightarrow> db \<Rightarrow> account_row option" where
  "find_owned_account u a d = find (\<lambda>r. ac_ID r = a \<and> ac_UserID r = u) (accounts d)"

definition find_schedule :: "uuid \<Rightarrow> uuid \<Rightarrow> db \<Rightarrow> loan_schedule option" where
  "find_schedule u a d = map_option snd (find (\<lambda>(v, s). ls_LoanAccountID s = a \<and> v = u) (loan_schedules d))"

definition count_on_loan :: "uuid list \<Rightarrow> uuid \<Rightarrow> db \<Rightarrow> nat" where
  "count_on_loan ids u d =
     length [t. t \<leftarrow> transactions d, a \<leftarrow> accounts d, tx_AccountID t = ac_ID a \<and> tx_ID t \<in> set ids \<and>
       tx_UserID t = u \<and> ac_TypeID a = ''loan'']"

text \<open>The transfers of a loan in the order they take effect; the joins keep those whose accounts exist.\<close>

definition transfers_of :: "uuid \<Rightarrow> uuid \<Rightarrow> db \<Rightarrow> loan_transfer list" where
  "transfers_of u a d =
     map (\<lambda>t. t\<lparr>lt_AccruedInterest := i64 (lt_Amount t - lt_Principal t)\<rparr>)
       (sort_key lt_TransferDate
         [t. (v, t) \<leftarrow> loan_transfers d, fa \<leftarrow> accounts d, ta \<leftarrow> accounts d,
             ac_ID fa = lt_FromLoanAccountID t \<and> ac_ID ta = lt_ToLoanAccountID t \<and> v = u \<and>
             (lt_FromLoanAccountID t = a \<or> lt_ToLoanAccountID t = a)])"

definition credit_of :: "uuid \<Rightarrow> uuid \<Rightarrow> db \<Rightarrow> (uuid \<times> cents) option" where
  "credit_of u a d =
     (case [(lk_TransactionID l, tx_Amount t). l \<leftarrow> loan_disbursements d, t \<leftarrow> transactions d,
              tx_ID t = lk_TransactionID l \<and> lk_Parent l = a \<and> lk_UserID l = u] of
        [] \<Rightarrow> None
      | c # _ \<Rightarrow> Some c)"

definition payments_of :: "uuid \<Rightarrow> uuid \<Rightarrow> db \<Rightarrow> loan_payment list" where
  "payments_of u a d =
     map (\<lambda>t. \<lparr>py_id = tx_ID t, py_amount = tx_Amount t, py_date = tx_Date t, py_credit = (tx_Type t = ''credit'')\<rparr>)
       (sort_key (\<lambda>t. (tx_Date t, tx_CreatedAt t, tx_ID t))
         [t. l \<leftarrow> loan_attachments d, t \<leftarrow> transactions d,
             tx_ID t = lk_TransactionID l \<and> lk_Parent l = a \<and> lk_UserID l = u])"

definition loadLoanTransfers :: "uuid \<Rightarrow> uuid \<Rightarrow> (db, db_error, loan_transfer list) prog" where
  "loadLoanTransfers u a = query (transfers_of u a)"

definition loadLoanDisbursementCredit :: "uuid \<Rightarrow> uuid \<Rightarrow> (db, db_error, (uuid \<times> cents) option) prog" where
  "loadLoanDisbursementCredit u a = query (credit_of u a)"

definition loadLoanPayments :: "uuid \<Rightarrow> uuid \<Rightarrow> (db, db_error, loan_payment list) prog" where
  "loadLoanPayments u a = query (payments_of u a)"

definition loadLoanScheduleDetail :: "uuid \<Rightarrow> uuid \<Rightarrow> (db, db_error, loan_detail) prog" where
  "loadLoanScheduleDetail u a =
     seq (query (find_schedule u a)) (\<lambda>sched. case sched of
       None \<Rightarrow> ret empty_detail
     | Some s \<Rightarrow>
         seq (loadLoanTransfers u a) (\<lambda>transfers.
         seq (loadLoanDisbursementCredit u a) (\<lambda>credit.
         seq (loadLoanPayments u a) (\<lambda>payments.
           ret (scheduleDetail s transfers credit payments)))))"

text \<open>What it returns when no statement fails.\<close>

definition detail_of :: "uuid \<Rightarrow> uuid \<Rightarrow> db \<Rightarrow> loan_detail" where
  "detail_of u a d =
     (case find_schedule u a d of
        None \<Rightarrow> empty_detail
      | Some s \<Rightarrow> scheduleDetail s (transfers_of u a d) (credit_of u a d) (payments_of u a d))"

section \<open>Writes\<close>

definition attach_payments :: "uuid \<Rightarrow> uuid list \<Rightarrow> uuid \<Rightarrow> db \<Rightarrow> db_error + nat \<times> db" where
  "attach_payments a ids u d =
     (let ids = filter (\<lambda>t. \<not> linked u t (loan_disbursements d)) ids in
      case insert_links (owns_account u a d) (\<lambda>t. owns_txn u t d) u a ids (loan_attachments d) of
        Inl e \<Rightarrow> Inl e
      | Inr ls \<Rightarrow> Inr (length ids, d\<lparr>loan_attachments := ls\<rparr>))"

definition detach_payments :: "uuid list \<Rightarrow> uuid \<Rightarrow> db \<Rightarrow> db_error + nat \<times> db" where
  "detach_payments ids u d =
     Inr (count_links ids u (loan_attachments d),
          d\<lparr>loan_attachments := delete_links ids u (loan_attachments d)\<rparr>)"

definition loan_payee :: "uuid \<Rightarrow> uuid \<Rightarrow> db \<Rightarrow> uuid option" where
  "loan_payee a u d = map_option pe_ID (find (\<lambda>p. pe_AccountID p = Some a \<and> pe_UserID p = u) (payees d))"

definition set_payee :: "uuid \<Rightarrow> uuid list \<Rightarrow> uuid \<Rightarrow> db \<Rightarrow> db_error + unit \<times> db" where
  "set_payee p ids u d =
     Inr ((), d\<lparr>transactions :=
       map (\<lambda>t. if tx_ID t \<in> set ids \<and> tx_UserID t = u then t\<lparr>tx_PayeeID := Some p\<rparr> else t) (transactions d)\<rparr>)"

definition schedule_checks :: "loan_schedule \<Rightarrow> bool" where
  "schedule_checks s \<longleftrightarrow> 0 < ls_Principal s \<and> 0 \<le> ls_AnnualRateBps s \<and> 1 \<le> ls_TenureMonths s \<and>
     ls_TenureMonths s \<le> 600 \<and> 0 \<le> ls_ProcessingFee s"

text \<open>\<open>annual_rate_bps\<close> and \<open>tenure_months\<close> are \<open>INTEGER\<close> columns, the code's \<open>int\<close> has 64 bits: a parameter
  out of range fails the statement before it runs.\<close>

definition schedule_params :: "loan_schedule \<Rightarrow> bool" where
  "schedule_params s \<longleftrightarrow> in_i32 (ls_AnnualRateBps s) \<and> in_i32 (ls_TenureMonths s)"

definition is_owned_loan :: "uuid \<Rightarrow> uuid \<Rightarrow> db \<Rightarrow> bool" where
  "is_owned_loan u a d \<longleftrightarrow> (\<exists>r \<in> set (accounts d). ac_ID r = a \<and> ac_UserID r = u \<and> ac_TypeID r = ''loan'')"

text \<open>\<open>INSERT INTO loan_schedules SELECT ... ON CONFLICT (user_id, loan_account_id) DO UPDATE\<close>: the
  row there keeps its id.\<close>

definition upsert_schedule :: "uuid \<Rightarrow> loan_schedule \<Rightarrow> db \<Rightarrow> db_error + unit \<times> db" where
  "upsert_schedule u s d =
     (if \<not> schedule_params s then Inl Constraint
      else if \<not> is_owned_loan u (ls_LoanAccountID s) d then Inr ((), d)
      else if \<not> schedule_checks s then Inl Constraint
      else if find_schedule u (ls_LoanAccountID s) d = None then
        Inr ((), d\<lparr>loan_schedules := loan_schedules d @ [(u, s)]\<rparr>)
      else Inr ((), d\<lparr>loan_schedules := map (\<lambda>(v, r). if v = u \<and> ls_LoanAccountID r = ls_LoanAccountID s
             then (v, s\<lparr>ls_ID := ls_ID r\<rparr>) else (v, r)) (loan_schedules d)\<rparr>))"

definition open_schedule :: "uuid \<Rightarrow> loan_schedule \<Rightarrow> db \<Rightarrow> db_error + unit \<times> db" where
  "open_schedule u s d =
     (if \<not> schedule_params s then Inl Constraint
      else if \<not> is_owned_loan u (ls_LoanAccountID s) d then Inr ((), d)
      else if \<not> schedule_checks s then Inl Constraint
      else if find_schedule u (ls_LoanAccountID s) d \<noteq> None then Inl Unique
      else Inr ((), d\<lparr>loan_schedules := loan_schedules d @ [(u, s)]\<rparr>))"

definition schedules_of :: "uuid \<Rightarrow> uuid \<Rightarrow> uuid \<times> loan_schedule \<Rightarrow> bool" where
  "schedules_of u a r \<longleftrightarrow> ls_LoanAccountID (snd r) = a \<and> fst r = u"

definition delete_schedule :: "uuid \<Rightarrow> uuid \<Rightarrow> db \<Rightarrow> db_error + nat \<times> db" where
  "delete_schedule u a d =
     Inr (length (filter (schedules_of u a) (loan_schedules d)),
          d\<lparr>loan_schedules := filter (\<lambda>r. \<not> schedules_of u a r) (loan_schedules d)\<rparr>)"

definition transfer_checks :: "loan_transfer \<Rightarrow> bool" where
  "transfer_checks t \<longleftrightarrow> 0 < lt_Amount t \<and> lt_FromLoanAccountID t \<noteq> lt_ToLoanAccountID t \<and>
     lt_Mode t \<in> {''recast'', ''opens'', ''takeover''} \<and> 0 \<le> lt_Principal t \<and> lt_Principal t \<le> lt_Amount t"

definition insert_transfer :: "uuid \<Rightarrow> loan_transfer \<Rightarrow> db \<Rightarrow> db_error + unit \<times> db" where
  "insert_transfer u t d =
     (if \<not> transfer_checks t then Inl Constraint
      else if \<exists>(v, r) \<in> set (loan_transfers d). v = u \<and>
             (lt_ID r = lt_ID t \<or> lt_FromLoanAccountID r = lt_FromLoanAccountID t) then Inl Unique
      else if \<not> owns_account u (lt_FromLoanAccountID t) d \<or> \<not> owns_account u (lt_ToLoanAccountID t) d
        then Inl Constraint
      else Inr ((), d\<lparr>loan_transfers := loan_transfers d @ [(u, t)]\<rparr>))"

definition transfer_is :: "uuid \<Rightarrow> uuid \<Rightarrow> uuid \<Rightarrow> uuid \<times> loan_transfer \<Rightarrow> bool" where
  "transfer_is i a u r \<longleftrightarrow> lt_ID (snd r) = i \<and> lt_FromLoanAccountID (snd r) = a \<and> fst r = u"

text \<open>\<open>DELETE ... RETURNING\<close>: the first row deleted, if any.\<close>

definition delete_transfer :: "uuid \<Rightarrow> uuid \<Rightarrow> uuid \<Rightarrow> db \<Rightarrow> db_error + loan_transfer option \<times> db" where
  "delete_transfer i a u d =
     Inr (map_option snd (find (transfer_is i a u) (loan_transfers d)),
          d\<lparr>loan_transfers := filter (\<lambda>r. \<not> transfer_is i a u r) (loan_transfers d)\<rparr>)"

definition delete_opened_schedule :: "uuid \<Rightarrow> uuid \<Rightarrow> cents \<Rightarrow> db \<Rightarrow> db_error + bool \<times> db" where
  "delete_opened_schedule a u amount d =
     (let gone = (\<lambda>r. schedules_of u a r \<and> ls_Principal (snd r) = amount \<and>
            \<not> (\<exists>(v, t) \<in> set (loan_transfers d). v = u \<and> lt_ToLoanAccountID t = a))
      in Inr (\<exists>r \<in> set (loan_schedules d). gone r,
              d\<lparr>loan_schedules := filter (\<lambda>r. \<not> gone r) (loan_schedules d)\<rparr>))"

text \<open>\<open>INSERT ... WHERE NOT EXISTS (attachment) ON CONFLICT (user_id, loan_account_id) DO UPDATE SET
  transaction_id\<close>; the unique index on \<open>transaction_id\<close> is not the arbiter, so it still raises.\<close>

definition put_disbursement :: "uuid \<Rightarrow> uuid \<Rightarrow> uuid \<Rightarrow> db \<Rightarrow> db_error + nat \<times> db" where
  "put_disbursement a t u d =
     (let mine = (\<lambda>l. lk_UserID l = u \<and> lk_Parent l = a); ls = loan_disbursements d in
      if linked u t (loan_attachments d) then Inr (0, d)
      else if \<exists>l \<in> set ls. lk_TransactionID l = t \<and> \<not> mine l then Inl Unique
      else if \<not> owns_account u a d \<or> \<not> owns_txn u t d then Inl Constraint
      else Inr (1, d\<lparr>loan_disbursements :=
        (if \<exists>l \<in> set ls. mine l then map (\<lambda>l. if mine l then l\<lparr>lk_TransactionID := t\<rparr> else l) ls
         else ls @ [\<lparr>lk_UserID = u, lk_Parent = a, lk_TransactionID = t\<rparr>])\<rparr>))"

definition delete_disbursement :: "uuid \<Rightarrow> uuid \<Rightarrow> db \<Rightarrow> db_error + nat \<times> db" where
  "delete_disbursement a u d =
     (let mine = (\<lambda>l. lk_Parent l = a \<and> lk_UserID l = u) in
      Inr (length (filter mine (loan_disbursements d)),
           d\<lparr>loan_disbursements := filter (\<lambda>l. \<not> mine l) (loan_disbursements d)\<rparr>))"

section \<open>The loaders in the calculus\<close>

lemma outcomes_detail [wp]:
  "Q (detail_of u a d) d \<Longrightarrow> E Fault d \<Longrightarrow> outcomes (loadLoanScheduleDetail u a) Q E d"
  unfolding loadLoanScheduleDetail_def loadLoanTransfers_def loadLoanDisbursementCredit_def
    loadLoanPayments_def
  by (intro wp) (simp_all add: detail_of_def)

lemma healthy_detail [healthy]:
  "Q (detail_of u a d) d \<Longrightarrow> healthy (loadLoanScheduleDetail u a) Q d"
  unfolding loadLoanScheduleDetail_def loadLoanTransfers_def loadLoanDisbursementCredit_def
    loadLoanPayments_def
  by (intro healthy) (simp_all add: detail_of_def)

end
