(* ===== verification/Loan_Handlers.thy ===== *)
theory Loan_Handlers
  imports Loan_Store
begin

text \<open>
  The loan endpoints of \<open>backend/handlers/loan.go\<close>, one definition per handler, each the whole
  handler: parsing of its parameters, its guards in the code's order, its statements, and its answer.
  \<open>u\<close> is the authenticated user (\<open>auth.GetUserID\<close>), \<open>now\<close> the day of \<open>time.Now()\<close>, \<open>p\<close> the parsed path
  parameter, \<open>body\<close> the decoded JSON body; \<open>None\<close> stands for a parameter or body that did not parse.
\<close>

section \<open>Requests and answers\<close>

record bulk_loan_request =
  bl_TransactionIDs :: "uuid list"
  bl_LoanAccountID :: "uuid option"

datatype bulk_loan_result = Detached nat | Attached nat

record loan_transfer_result =
  ltr_Transfer :: loan_transfer
  ltr_Source :: "string \<times> loan_detail"
  ltr_Target :: "string \<times> loan_detail"

definition loanAccountTypeID :: string where "loanAccountTypeID = ''loan''"

definition errLoanDisbursementCredit :: db_error where
  "errLoanDisbursementCredit = Refused ''transaction is a loan's disbursement credit''"

definition errLoanTransferTargetChanged :: db_error where
  "errLoanTransferTargetChanged = Refused ''the target loan's terms changed after the transfer''"

section \<open>Guards\<close>

definition loanAccountGuard :: "uuid \<Rightarrow> uuid \<Rightarrow> (db, http_error, string) prog" where
  "loanAccountGuard u a =
     seq (ask (find_owned_account u a)) (\<lambda>r. case r of
       None \<Rightarrow> fail (not_found ''account not found'')
     | Some r \<Rightarrow>
         seq (check (ac_TypeID r = loanAccountTypeID) (bad_request ''not a loan account'')) (\<lambda>_.
           ret (ac_Name r)))"

definition reload :: "uuid \<Rightarrow> uuid \<Rightarrow> (db, http_error, loan_detail) prog" where
  "reload u a = on_error (loadLoanScheduleDetail u a) (\<lambda>_. internal_error)"

section \<open>Linking EMI payments\<close>

text \<open>The attach transaction: the rows, the refusal on a short count, and the payee of the loan.\<close>

definition attach_tx :: "uuid \<Rightarrow> uuid list \<Rightarrow> uuid \<Rightarrow> (db, db_error, nat) prog" where
  "attach_tx a ids u =
     seq (exec (attach_payments a ids u)) (\<lambda>attached.
     seq (check (attached = length ids) errLoanDisbursementCredit) (\<lambda>_.
     seq (query (loan_payee a u)) (\<lambda>payee. case payee of
       None \<Rightarrow> ret attached
     | Some p \<Rightarrow> seq (exec (set_payee p ids u)) (\<lambda>_. ret attached))))"

definition attach_error :: "db_error \<Rightarrow> http_error" where
  "attach_error e =
     (if e = errLoanDisbursementCredit then
        conflict ''one or more transactions are a loan's disbursement credit and cannot be attached as EMI payments''
      else if e = Unique then conflict ''one or more transactions are already linked to a loan account''
      else internal_error)"

definition BulkLinkLoan ::
  "uuid \<Rightarrow> bulk_loan_request option \<Rightarrow> (db, http_error, bulk_loan_result) prog" where
  "BulkLinkLoan u body =
     seq (bind_json body) (\<lambda>req. let ids = bl_TransactionIDs req in
     seq (check (ids \<noteq> []) (bad_request ''no transaction ids provided'')) (\<lambda>_.
     seq (check (int (length ids) \<le> maxBulkBatch) (bad_request ''too many transaction ids (max 5000 per request)'')) (\<lambda>_.
     seq (ask (count_owned ids u)) (\<lambda>owned.
     seq (check (owned = length ids) (bad_request ''one or more transactions not found'')) (\<lambda>_.
     seq (ask (count_on_loan ids u)) (\<lambda>onLoan.
     seq (check (onLoan = 0)
       (bad_request ''one or more transactions belong to a loan account and cannot be attached'')) (\<lambda>_.
     case bl_LoanAccountID req of
       None \<Rightarrow> seq (run_stmt (detach_payments ids u)) (\<lambda>n. ret (Detached n))
     | Some a \<Rightarrow>
         seq (ask (find_account a)) (\<lambda>r. case r of
           None \<Rightarrow> fail (not_found ''loan account not found'')
         | Some r \<Rightarrow>
             seq (check (ac_UserID r = u) forbidden) (\<lambda>_.
             seq (check (ac_TypeID r = loanAccountTypeID)
               (bad_request ''transactions can only be attached to a Loan / EMI account'')) (\<lambda>_.
             seq (ask (\<lambda>d. count_links ids u (loan_attachments d))) (\<lambda>already.
             seq (check (already = 0)
               (conflict (dec already @ '' of the selected transactions are already linked to a loan account - detach them first''))) (\<lambda>_.
             seq (on_error (with_tx (attach_tx a ids u)) attach_error) (\<lambda>n.
               ret (Attached n))))))))))))))"

section \<open>The schedule\<close>

definition GetLoanSchedule :: "uuid \<Rightarrow> uuid option \<Rightarrow> (db, http_error, string \<times> loan_detail) prog" where
  "GetLoanSchedule u p =
     seq (path_id ''invalid id'' p) (\<lambda>a.
     seq (loanAccountGuard u a) (\<lambda>name.
     seq (reload u a) (\<lambda>detail. ret (name, detail))))"

definition parse_disbursal :: "date \<Rightarrow> string \<Rightarrow> date \<Rightarrow> string + date option" where
  "parse_disbursal now s start =
     (if trim_space s = [] then Inr None
      else case parseRecurringDate now s of
          Inl e \<Rightarrow> Inl e
        | Inr d \<Rightarrow> if \<not> d < start then Inl ''disbursalDate must be before the first installment date''
                 else Inr (Some d))"

definition UpsertLoanSchedule ::
  "date \<Rightarrow> uuid \<Rightarrow> uuid option \<Rightarrow> loan_schedule_request option \<Rightarrow> (db, http_error, string \<times> loan_detail) prog" where
  "UpsertLoanSchedule now u p body =
     seq (path_id ''invalid id'' p) (\<lambda>a.
     seq (bind_json body) (\<lambda>req.
     seq (check (lr_Principal req > 0) (bad_request ''principal must be positive'')) (\<lambda>_.
     seq (check (lr_ProcessingFee req \<ge> 0) (bad_request ''processingFee must not be negative'')) (\<lambda>_.
     seq (check (lr_AnnualRateBps req \<ge> 0) (bad_request ''annualRateBps must not be negative'')) (\<lambda>_.
     seq (check (lr_AnnualRateBps req \<le> maxLoanAnnualRateBps)
       (bad_request ''annualRateBps must not exceed 100000'')) (\<lambda>_.
     seq (check (1 \<le> lr_TenureMonths req \<and> lr_TenureMonths req \<le> maxLoanTenureMonths)
       (bad_request ''tenureMonths must be between 1 and 600'')) (\<lambda>_.
     seq (or_400 (parseRecurringDate now (lr_StartDate req))) (\<lambda>start.
     seq (or_400 (parse_disbursal now (lr_DisbursalDate req) start)) (\<lambda>disbursal.
     seq (loanAccountGuard u a) (\<lambda>name.
     seq new_id (\<lambda>i.
     seq (run_stmt (upsert_schedule u
       \<lparr>ls_ID = i, ls_LoanAccountID = a, ls_Principal = lr_Principal req,
        ls_ProcessingFee = lr_ProcessingFee req, ls_AnnualRateBps = lr_AnnualRateBps req,
        ls_TenureMonths = lr_TenureMonths req, ls_StartDate = start, ls_DisbursalDate = disbursal\<rparr>)) (\<lambda>_.
     seq (reload u a) (\<lambda>detail. ret (name, detail))))))))))))))"

definition DeleteLoanSchedule :: "uuid \<Rightarrow> uuid option \<Rightarrow> (db, http_error, nat) prog" where
  "DeleteLoanSchedule u p =
     seq (path_id ''invalid id'' p) (\<lambda>a.
     seq (loanAccountGuard u a) (\<lambda>_.
       run_stmt (delete_schedule u a)))"

definition GetLoanPayoff :: "date \<Rightarrow> uuid \<Rightarrow> uuid option \<Rightarrow> string \<Rightarrow> (db, http_error, string \<times> loan_payoff) prog" where
  "GetLoanPayoff now u p date =
     seq (path_id ''invalid id'' p) (\<lambda>a.
     seq (case parseRecurringDate now date of
            Inl _ \<Rightarrow> fail (bad_request ''invalid date (expected YYYY-MM-DD)'') | Inr d \<Rightarrow> ret d) (\<lambda>asOf.
     seq (loanAccountGuard u a) (\<lambda>name.
     seq (reload u a) (\<lambda>detail.
     seq (check (dt_Schedule detail \<noteq> None)
       (bad_request ''the loan has no amortization schedule - set its terms first'')) (\<lambda>_.
     seq (check (dt_SettledOn detail = None)
       (bad_request ''this loan is already settled by a balance transfer'')) (\<lambda>_.
       ret (name, loanPayoffFor detail asOf)))))))"

section \<open>Balance transfers\<close>

definition transfer_mode :: "string \<Rightarrow> loan_detail \<Rightarrow> string" where
  "transfer_mode m target =
     (if m \<noteq> [] then m
      else if dt_Schedule target = None then LoanTransferOpens else LoanTransferRecast)"

text \<open>What the mode asks of the target; the terms of the schedule to open, when it opens one.\<close>

definition target_terms ::
  "date \<Rightarrow> loan_transfer_request \<Rightarrow> date \<Rightarrow> cents \<Rightarrow> string \<Rightarrow> loan_detail \<Rightarrow> string + loanTerms option" where
  "target_terms now req on amount mode target =
     (if mode = LoanTransferOpens then
        if dt_Schedule target \<noteq> None then
          Inl ''the target loan already has a schedule - recast it or take the balance over instead''
        else (case transferTargetTerms now req amount of Inl e \<Rightarrow> Inl e | Inr t \<Rightarrow> Inr (Some t))
      else if mode = LoanTransferRecast then
        if dt_Schedule target = None then Inl ''the target loan has no schedule to recast - set its terms first''
        else if \<not> hasInstallmentsAfter (dt_Entries target) on then
          Inl ''the target loan has no unpaid installment due after the transfer date''
        else Inr None
      else if mode = LoanTransferTakeover then
        if dt_Schedule target = None then
          Inl ''the target loan has no schedule to take the balance out of - set its terms first''
        else (case dt_Disbursement target of
            None \<Rightarrow> Inl ''the target loan's net disbursement cannot cover the transferred balance''
          | Some b \<Rightarrow> if ld_Net b < amount then
                Inl ''the target loan's net disbursement cannot cover the transferred balance''
              else Inr None)
      else Inl ''mode must be recast, opens or takeover'')"

definition transfer_tx :: "uuid \<Rightarrow> loan_transfer \<Rightarrow> loanTerms option \<Rightarrow> (db, db_error, unit) prog" where
  "transfer_tx u t terms =
     seq (exec (insert_transfer u t)) (\<lambda>_. case terms of
       None \<Rightarrow> ret ()
     | Some tt \<Rightarrow>
         seq new_id (\<lambda>i. exec (open_schedule u
           \<lparr>ls_ID = i, ls_LoanAccountID = lt_ToLoanAccountID t, ls_Principal = lt_Amount t,
            ls_ProcessingFee = 0, ls_AnnualRateBps = lt_annualRateBps tt,
            ls_TenureMonths = lt_tenureMonths tt, ls_StartDate = lt_firstDueDate tt,
            ls_DisbursalDate = None\<rparr>)))"

definition transfer_error :: "db_error \<Rightarrow> http_error" where
  "transfer_error e =
     (if e = Unique then conflict ''this loan is already settled by a balance transfer'' else internal_error)"

definition TransferLoanBalance ::
  "date \<Rightarrow> uuid \<Rightarrow> uuid option \<Rightarrow> loan_transfer_request option \<Rightarrow> (db, http_error, loan_transfer_result) prog" where
  "TransferLoanBalance now u p body =
     seq (path_id ''invalid id'' p) (\<lambda>source_id.
     seq (bind_json body) (\<lambda>req. let target_id = tr_ToLoanAccountID req in
     seq (or_400 (parseRecurringDate now (tr_TransferDate req))) (\<lambda>on.
     seq (check (target_id \<noteq> source_id) (bad_request ''the target loan must be a different account'')) (\<lambda>_.
     seq (loanAccountGuard u source_id) (\<lambda>source_name.
     seq (reload u source_id) (\<lambda>source.
     seq (check (dt_Schedule source \<noteq> None)
       (bad_request ''the source loan has no amortization schedule - set its terms first'')) (\<lambda>_.
     seq (check (dt_SettledOn source = None)
       (bad_request ''this loan is already settled by a balance transfer'')) (\<lambda>_.
     let quote = loanPayoffFor source on; amount = lp_Payoff quote in
     seq (check (amount > 0) (bad_request ''the source loan has nothing left to transfer on that date'')) (\<lambda>_.
     seq (ask (find_account target_id)) (\<lambda>r. case r of
       None \<Rightarrow> fail (not_found ''target loan account not found'')
     | Some r \<Rightarrow>
     seq (check (ac_UserID r = u) forbidden) (\<lambda>_.
     seq (check (ac_TypeID r = loanAccountTypeID)
       (bad_request ''the target account is not a Loan / EMI account'')) (\<lambda>_.
     seq (check (\<not> ac_Closed r) (bad_request ''the target loan account is closed'')) (\<lambda>_.
     seq (reload u target_id) (\<lambda>target.
     let mode = transfer_mode (tr_Mode req) target in
     seq (or_400 (target_terms now req on amount mode target)) (\<lambda>terms.
     seq new_id (\<lambda>i.
     let t = \<lparr>lt_ID = i, lt_FromLoanAccountID = source_id, lt_ToLoanAccountID = target_id,
              lt_Amount = amount, lt_Principal = lp_OutstandingPrincipal quote,
              lt_AccruedInterest = lp_AccruedInterest quote, lt_TransferDate = on, lt_Mode = mode\<rparr> in
     seq (on_error (with_tx (transfer_tx u t terms)) transfer_error) (\<lambda>_.
     seq (reload u source_id) (\<lambda>source'.
     seq (reload u target_id) (\<lambda>target'.
       ret \<lparr>ltr_Transfer = t, ltr_Source = (source_name, source'),
            ltr_Target = (ac_Name r, target')\<rparr>)))))))))))))))))))"

definition delete_transfer_tx :: "uuid \<Rightarrow> uuid \<Rightarrow> uuid \<Rightarrow> (db, db_error, nat) prog" where
  "delete_transfer_tx i a u =
     seq (exec (delete_transfer i a u)) (\<lambda>t. case t of
       None \<Rightarrow> ret 0
     | Some t \<Rightarrow>
         if lt_Mode t \<noteq> LoanTransferOpens then ret 1
         else seq (exec (delete_opened_schedule (lt_ToLoanAccountID t) u (lt_Amount t))) (\<lambda>gone.
           if gone then ret 1
           else seq (query (find_schedule u (lt_ToLoanAccountID t))) (\<lambda>s.
             seq (check (s = None) errLoanTransferTargetChanged) (\<lambda>_. ret 1))))"

definition delete_transfer_error :: "db_error \<Rightarrow> http_error" where
  "delete_transfer_error e =
     (if e = errLoanTransferTargetChanged then
        conflict ''the target loan's terms have changed since this transfer - the schedule it created is no longer the transfer's to remove''
      else internal_error)"

definition DeleteLoanTransfer :: "uuid \<Rightarrow> uuid option \<Rightarrow> uuid option \<Rightarrow> (db, http_error, nat) prog" where
  "DeleteLoanTransfer u p q =
     seq (path_id ''invalid id'' p) (\<lambda>a.
     seq (path_id ''invalid transfer id'' q) (\<lambda>i.
       on_error (with_tx (delete_transfer_tx i a u)) delete_transfer_error))"

section \<open>The disbursement credit\<close>

definition txn_with_account :: "uuid \<Rightarrow> db \<Rightarrow> (txn_row \<times> account_row) option" where
  "txn_with_account t d =
     (case [(r, a). r \<leftarrow> transactions d, a \<leftarrow> accounts d, ac_ID a = tx_AccountID r \<and> tx_ID r = t] of
        [] \<Rightarrow> None | x # _ \<Rightarrow> Some x)"

definition disbursement_of :: "uuid \<Rightarrow> uuid \<Rightarrow> db \<Rightarrow> uuid option" where
  "disbursement_of t u d =
     map_option lk_Parent (find (\<lambda>l. lk_TransactionID l = t \<and> lk_UserID l = u) (loan_disbursements d))"

definition put_disbursement_error :: "db_error \<Rightarrow> http_error" where
  "put_disbursement_error e =
     (if e = Unique then conflict ''that transaction is already linked to a loan'' else internal_error)"

definition LinkLoanDisbursement ::
  "uuid \<Rightarrow> uuid option \<Rightarrow> uuid option \<Rightarrow> (db, http_error, string \<times> loan_detail) prog" where
  "LinkLoanDisbursement u p body =
     seq (path_id ''invalid id'' p) (\<lambda>a.
     seq (bind_json body) (\<lambda>t.
     seq (loanAccountGuard u a) (\<lambda>name.
     seq (ask (find_schedule u a)) (\<lambda>s.
     seq (check (s \<noteq> None)
       (bad_request ''the loan has no amortization schedule - set its terms first'')) (\<lambda>_.
     seq (ask (txn_with_account t)) (\<lambda>x. case x of
       None \<Rightarrow> fail (not_found ''transaction not found'')
     | Some (r, ra) \<Rightarrow>
     seq (check (tx_UserID r = u) forbidden) (\<lambda>_.
     seq (check (ac_TypeID ra \<noteq> loanAccountTypeID)
       (bad_request ''a loan account holds no transactions, so it cannot be the disbursement credit'')) (\<lambda>_.
     seq (check (tx_Type r = ''credit'')
       (bad_request ''the disbursement is money received, so the credit must be a credit transaction'')) (\<lambda>_.
     seq (ask (disbursement_of t u)) (\<lambda>linkedTo.
     seq (check (linkedTo = None \<or> linkedTo = Some a)
       (conflict ''that transaction is already the disbursement credit of another loan'')) (\<lambda>_.
     seq (on_error (exec (put_disbursement a t u)) put_disbursement_error) (\<lambda>n.
     seq (check (n \<noteq> 0) (conflict ''that transaction is already an EMI payment on a loan'')) (\<lambda>_.
     seq (reload u a) (\<lambda>detail. ret (name, detail)))))))))))))))"

definition UnlinkLoanDisbursement :: "uuid \<Rightarrow> uuid option \<Rightarrow> (db, http_error, nat) prog" where
  "UnlinkLoanDisbursement u p =
     seq (path_id ''invalid id'' p) (\<lambda>a.
     seq (loanAccountGuard u a) (\<lambda>_.
       run_stmt (delete_disbursement a u)))"

section \<open>The endpoints together\<close>

text \<open>A request to one of the loan endpoints, and the handler the router gives it to.\<close>

datatype loan_call =
    BulkLink "bulk_loan_request option"
  | GetSchedule "uuid option"
  | PutSchedule "uuid option" "loan_schedule_request option"
  | DropSchedule "uuid option"
  | GetPayoff "uuid option" string
  | PostTransfer "uuid option" "loan_transfer_request option"
  | DropTransfer "uuid option" "uuid option"
  | PutDisbursement "uuid option" "uuid option"
  | DropDisbursement "uuid option"

fun serve_loan :: "date \<Rightarrow> uuid \<Rightarrow> loan_call \<Rightarrow> (db, http_error, unit) prog" where
  "serve_loan now u (BulkLink b) = forget (BulkLinkLoan u b)"
| "serve_loan now u (GetSchedule p) = forget (GetLoanSchedule u p)"
| "serve_loan now u (PutSchedule p b) = forget (UpsertLoanSchedule now u p b)"
| "serve_loan now u (DropSchedule p) = forget (DeleteLoanSchedule u p)"
| "serve_loan now u (GetPayoff p s) = forget (GetLoanPayoff now u p s)"
| "serve_loan now u (PostTransfer p b) = forget (TransferLoanBalance now u p b)"
| "serve_loan now u (DropTransfer p q) = forget (DeleteLoanTransfer u p q)"
| "serve_loan now u (PutDisbursement p b) = forget (LinkLoanDisbursement u p b)"
| "serve_loan now u (DropDisbursement p) = forget (UnlinkLoanDisbursement u p)"

end
