(* ===== verification/Loan_Books.thy ===== *)
theory Loan_Books
  imports Loan_Service
begin

text \<open>
  The constraints between the loan tables, kept by every statement of the loan handlers, whatever
  statements fail: a transaction is an EMI payment or a
  disbursement credit but never both, a loan has one schedule and one transfer out, and every stored
  row is within its checks.
\<close>

section \<open>The constraints\<close>

definition disbursement_key :: "link_row \<Rightarrow> uuid \<times> uuid" where
  "disbursement_key l = (lk_UserID l, lk_Parent l)"

definition schedule_key :: "uuid \<times> loan_schedule \<Rightarrow> uuid \<times> uuid" where
  "schedule_key r = (fst r, ls_LoanAccountID (snd r))"

definition transfer_key :: "uuid \<times> loan_transfer \<Rightarrow> uuid \<times> uuid" where
  "transfer_key r = (fst r, lt_FromLoanAccountID (snd r))"

text \<open>A transaction is an EMI payment or a disbursement credit, never both; each is of one loan.\<close>

definition exclusive_links :: "db \<Rightarrow> bool" where
  "exclusive_links d \<longleftrightarrow> unique_links (loan_attachments d) \<and> unique_links (loan_disbursements d) \<and>
     distinct (map disbursement_key (loan_disbursements d)) \<and>
     (\<forall>l \<in> set (loan_attachments d). \<not> linked (lk_UserID l) (lk_TransactionID l) (loan_disbursements d))"

text \<open>At most one schedule per loan and one transfer out of it, all within the declared checks.\<close>

definition keyed_terms :: "db \<Rightarrow> bool" where
  "keyed_terms d \<longleftrightarrow> distinct (map schedule_key (loan_schedules d)) \<and>
     distinct (map transfer_key (loan_transfers d)) \<and>
     list_all (\<lambda>r. schedule_checks (snd r)) (loan_schedules d) \<and>
     list_all (\<lambda>r. transfer_checks (snd r)) (loan_transfers d)"

definition loan_books :: "db \<Rightarrow> bool" where
  "loan_books d \<longleftrightarrow> exclusive_links d \<and> keyed_terms d"

section \<open>Every statement keeps them\<close>

lemma unique_replace:
  assumes "distinct (map lk_TransactionID ls)" "distinct (map disbursement_key ls)"
    "\<And>l. l \<in> set ls \<Longrightarrow> lk_TransactionID l = t \<Longrightarrow> disbursement_key l = k"
  shows "distinct (map lk_TransactionID (map (\<lambda>l. if disbursement_key l = k then l\<lparr>lk_TransactionID := t\<rparr> else l) ls))"
  using assms
proof (induction ls)
  case Nil
  then show ?case by simp
next
  case (Cons l ls)
  let ?f = "\<lambda>l. if disbursement_key l = k then l\<lparr>lk_TransactionID := t\<rparr> else l"
  have tl: "distinct (map lk_TransactionID (map ?f ls))"
    using Cons.prems by (intro Cons.IH) auto
  have "lk_TransactionID (?f l) \<noteq> lk_TransactionID (?f m)" if m: "m \<in> set ls" for m
  proof -
    have "disbursement_key l \<noteq> disbursement_key m" "lk_TransactionID l \<noteq> lk_TransactionID m"
      using Cons.prems(1,2) m by (auto simp: image_iff)
    then show ?thesis
      using Cons.prems(3) [of l] Cons.prems(3) [of m] m by auto
  qed
  then show ?case using tl by (auto simp: image_iff)
qed

lemma exclusive_attach:
  assumes "exclusive_links d" "attach_payments a ids u d = Inr (n, d')"
  shows "exclusive_links d'"
proof -
  let ?ids = "filter (\<lambda>t. \<not> linked u t (loan_disbursements d)) ids"
  obtain ls where ls: "insert_links (owns_account u a d) (\<lambda>t. owns_txn u t d) u a ?ids (loan_attachments d) = Inr ls"
    and d': "d' = d\<lparr>loan_attachments := ls\<rparr>"
    using assms(2) by (auto simp: attach_payments_def Let_def split: sum.splits)
  show ?thesis
    using assms(1) loan_links.insert_unique [OF ls]
    by (auto simp: exclusive_links_def d' insert_links_ok(1) [OF ls] new_links_set)
qed

lemma exclusive_credited:
  assumes "exclusive_links d" "put_disbursement a t u d = Inr (n, d')"
  shows "exclusive_links d'"
proof -
  have key: "lk_UserID l = u \<and> lk_Parent l = a \<longleftrightarrow> disbursement_key l = (u, a)" for l
    by (simp add: disbursement_key_def)
  let ?set = "map (\<lambda>l. if disbursement_key l = (u, a) then l\<lparr>lk_TransactionID := t\<rparr> else l) (loan_disbursements d)"
  have linked_set: "linked v x ?set \<Longrightarrow> linked v x (loan_disbursements d) \<or> (v = u \<and> x = t)" for v x
    by (auto simp: linked_def disbursement_key_def split: if_splits)
  consider "d' = d" | "\<not> linked u t (loan_attachments d)" "d' = d\<lparr>loan_disbursements := ?set\<rparr>"
      "\<And>l. l \<in> set (loan_disbursements d) \<Longrightarrow> lk_TransactionID l = t \<Longrightarrow> disbursement_key l = (u, a)"
    | "\<not> linked u t (loan_attachments d)"
      "d' = d\<lparr>loan_disbursements := loan_disbursements d @ [\<lparr>lk_UserID = u, lk_Parent = a, lk_TransactionID = t\<rparr>]\<rparr>"
      "\<And>l. l \<in> set (loan_disbursements d) \<Longrightarrow> disbursement_key l \<noteq> (u, a) \<and> lk_TransactionID l \<noteq> t"
    using assms(2) unfolding put_disbursement_def Let_def key
    by (auto split: if_splits)
  then show ?thesis
  proof cases
    case 1
    then show ?thesis using assms(1) by simp
  next
    case 2
    have "distinct (map disbursement_key ?set)"
      using assms(1) by (intro distinct_map_keep) (auto simp: exclusive_links_def disbursement_key_def)
    moreover have "unique_links ?set"
      unfolding unique_links_def using assms(1) 2(3)
      by (intro unique_replace) (auto simp: exclusive_links_def unique_links_def)
    moreover have "\<not> linked (lk_UserID l) (lk_TransactionID l) ?set" if "l \<in> set (loan_attachments d)" for l
      using linked_set [of "lk_UserID l" "lk_TransactionID l"] that 2(1) assms(1)
      by (auto simp: exclusive_links_def linked_def)
    ultimately show ?thesis
      using assms(1) by (simp add: exclusive_links_def 2(2))
  next
    case 3
    then show ?thesis
      using assms(1) by (auto simp: exclusive_links_def unique_links_def linked_def disbursement_key_def)
  qed
qed

lemma exclusive_cong:
  "loan_attachments d' = loan_attachments d \<Longrightarrow> loan_disbursements d' = loan_disbursements d \<Longrightarrow>
    exclusive_links d' = exclusive_links d"
  by (simp add: exclusive_links_def)

lemma terms_cong:
  "loan_schedules d' = loan_schedules d \<Longrightarrow> loan_transfers d' = loan_transfers d \<Longrightarrow>
    keyed_terms d' = keyed_terms d"
  by (simp add: keyed_terms_def)

lemma exclusive_dropped:
  assumes "exclusive_links d"
  shows "exclusive_links (d\<lparr>loan_attachments := filter p (loan_attachments d)\<rparr>)"
    "exclusive_links (d\<lparr>loan_disbursements := filter q (loan_disbursements d)\<rparr>)"
  using assms by (auto simp: exclusive_links_def unique_links_def distinct_map_filter linked_def)

lemma terms_dropped:
  assumes "keyed_terms d"
  shows "keyed_terms (d\<lparr>loan_schedules := filter p (loan_schedules d)\<rparr>)"
    "keyed_terms (d\<lparr>loan_transfers := filter q (loan_transfers d)\<rparr>)"
  using assms by (auto simp: keyed_terms_def distinct_map_filter list_all_iff)

lemma find_schedule_None: "find_schedule u a d = None \<longleftrightarrow> (u, a) \<notin> schedule_key ` set (loan_schedules d)"
  by (force simp: find_schedule_def find_None_iff schedule_key_def)

lemma terms_upsert:
  assumes "keyed_terms d" "upsert_schedule u s d = Inr (x, d')"
  shows "keyed_terms d'"
proof -
  let ?f = "\<lambda>(v, r). if v = u \<and> ls_LoanAccountID r = ls_LoanAccountID s then (v, s\<lparr>ls_ID := ls_ID r\<rparr>) else (v, r)"
  have "distinct (map schedule_key (map ?f (loan_schedules d)))"
    using assms(1) by (intro distinct_map_keep) (auto simp: keyed_terms_def schedule_key_def split: if_splits)
  moreover have "list_all (\<lambda>r. schedule_checks (snd r)) (map ?f (loan_schedules d))" if "schedule_checks s"
    using assms(1) that by (auto simp: keyed_terms_def list_all_iff schedule_checks_def)
  ultimately show ?thesis
    using assms by (auto simp: upsert_schedule_def keyed_terms_def find_schedule_None schedule_key_def split: if_splits)
qed

lemma terms_opened: "keyed_terms d \<Longrightarrow> open_schedule u s d = Inr (x, d') \<Longrightarrow> keyed_terms d'"
  by (auto simp: open_schedule_def keyed_terms_def find_schedule_None schedule_key_def split: if_splits)

lemma terms_moved: "keyed_terms d \<Longrightarrow> insert_transfer u t d = Inr (x, d') \<Longrightarrow> keyed_terms d'"
  by (fastforce simp: insert_transfer_def keyed_terms_def transfer_key_def split: if_splits)

lemma exclusive_statement:
  "exclusive_links d \<Longrightarrow> detach_payments ids u d = Inr (n, d') \<Longrightarrow> exclusive_links d'"
  "exclusive_links d \<Longrightarrow> delete_disbursement a u d = Inr (n, d') \<Longrightarrow> exclusive_links d'"
  by (auto simp: detach_payments_def delete_links_def delete_disbursement_def Let_def exclusive_dropped)

lemma terms_statement:
  "keyed_terms d \<Longrightarrow> delete_schedule u a d = Inr (n, d') \<Longrightarrow> keyed_terms d'"
  "keyed_terms d \<Longrightarrow> delete_transfer i a u d = Inr (y, d') \<Longrightarrow> keyed_terms d'"
  "keyed_terms d \<Longrightarrow> delete_opened_schedule a u m d = Inr (b, d') \<Longrightarrow> keyed_terms d'"
  by (auto simp: delete_schedule_def delete_transfer_def delete_opened_schedule_def Let_def terms_dropped)

interpretation links: loan_invariant u exclusive_links for u
  by unfold_locales
    (assumption | erule (1) exclusive_attach exclusive_credited exclusive_statement
     | (auto simp: set_payee_def upsert_schedule_def open_schedule_def delete_schedule_def
         insert_transfer_def delete_transfer_def delete_opened_schedule_def Let_def exclusive_links_def
         split: if_splits)[1])+

interpretation terms: loan_invariant u keyed_terms for u
  by unfold_locales
    (assumption | erule (1) terms_upsert terms_opened terms_moved terms_statement
     | (auto simp: attach_payments_def detach_payments_def set_payee_def put_disbursement_def
         delete_disbursement_def Let_def keyed_terms_def split: if_splits sum.splits)[1])+

interpretation books: loan_invariant u loan_books for u
  unfolding loan_books_def by unfold_locales (blast intro: links.statements terms.statements)+

end
