(* ===== verification/Loan_Links.thy ===== *)
theory Loan_Links
  imports Loan_Books
begin

text \<open>
  What \<open>BulkLinkLoan\<close> does to the tables when it succeeds, when it does succeed, and that detaching
  undoes attaching; then the three guarantees of \<open>Loan_Service\<close> and \<open>Loan_Books\<close> on a concrete ledger.
\<close>

section \<open>Attaching\<close>

definition paid_to_loan :: "uuid \<Rightarrow> uuid \<Rightarrow> uuid list \<Rightarrow> txn_row list \<Rightarrow> db \<Rightarrow> txn_row list" where
  "paid_to_loan u a ids txns d =
     (case loan_payee a u d of
        None \<Rightarrow> txns
      | Some p \<Rightarrow> map (\<lambda>t. if tx_ID t \<in> set ids \<and> tx_UserID t = u then t\<lparr>tx_PayeeID := Some p\<rparr> else t) txns)"

definition attached_db :: "uuid \<Rightarrow> uuid \<Rightarrow> uuid list \<Rightarrow> db \<Rightarrow> db" where
  "attached_db u a ids d = d\<lparr>loan_attachments := loan_attachments d @ new_links u a ids,
     transactions := paid_to_loan u a ids (transactions d) d\<rparr>"

definition attachable :: "uuid \<Rightarrow> uuid list \<Rightarrow> db \<Rightarrow> bool" where
  "attachable u ids d \<longleftrightarrow> ids \<noteq> [] \<and> distinct ids \<and> int (length ids) \<le> maxBulkBatch \<and>
     count_owned ids u d = length ids \<and> count_on_loan ids u d = 0 \<and>
     list_all (\<lambda>t. owns_txn u t d \<and> \<not> linked u t (loan_attachments d) \<and> \<not> linked u t (loan_disbursements d)) ids"

lemma filter_all_length: "length (filter P xs) = length xs \<Longrightarrow> filter P xs = xs \<and> list_all P xs"
  by (induction xs) (auto split: if_splits, (metis length_filter_le Suc_n_not_le_n)+)

lemma attach_payments_full:
  assumes "attach_payments a ids u d = Inr (length ids, d')"
  shows "d' = d\<lparr>loan_attachments := loan_attachments d @ new_links u a ids\<rparr> \<and> distinct ids \<and>
    list_all (\<lambda>t. owns_txn u t d \<and> \<not> linked u t (loan_attachments d) \<and> \<not> linked u t (loan_disbursements d)) ids"
proof -
  have "length (filter (\<lambda>t. \<not> linked u t (loan_disbursements d)) ids) = length ids"
    using assms by (auto simp: attach_payments_def Let_def split: sum.splits)
  note free = filter_all_length [OF this]
  then obtain ls where ls: "insert_links (owns_account u a d) (\<lambda>t. owns_txn u t d) u a ids (loan_attachments d) = Inr ls"
    and d': "d' = d\<lparr>loan_attachments := ls\<rparr>"
    using assms by (auto simp: attach_payments_def Let_def split: sum.splits)
  show ?thesis
    using insert_links_ok [OF ls] free by (auto simp: d' list_all_iff linked_def)
qed

lemma outcomes_attach:
  "outcomes (BulkLinkLoan u (Some \<lparr>bl_TransactionIDs = ids, bl_LoanAccountID = Some a\<rparr>))
     (\<lambda>res d'. res = Attached (length ids) \<and> attachable u ids d \<and> d' = attached_db u a ids d) (\<lambda>_ _. True) d"
  unfolding handler_defs
  by (intro wp) (auto simp: attachable_def attached_db_def paid_to_loan_def set_payee_def loan_payee_def
      dest!: attach_payments_full split: option.splits)

lemma insert_links_free:
  assumes "unique_links ls" "distinct ids" "lk_TransactionID ` set ls \<inter> set ids = {}" "p" "list_all t ids"
  shows "insert_links p t u parent ids ls = Inr (ls @ new_links u parent ids)"
  using assms by (auto simp: insert_links_def Let_def unique_links_def)

lemma attach_payments_free:
  assumes "attachable u ids d" "unique_links (loan_attachments d)" "owns_account u a d"
    "lk_TransactionID ` set (loan_attachments d) \<inter> set ids = {}"
  shows "attach_payments a ids u d =
    Inr (length ids, d\<lparr>loan_attachments := loan_attachments d @ new_links u a ids\<rparr>)"
proof -
  have "filter (\<lambda>t. \<not> linked u t (loan_disbursements d)) ids = ids"
    using assms(1) by (auto simp: attachable_def list_all_iff)
  moreover have "list_all (\<lambda>t. owns_txn u t d) ids"
    using assms(1) by (auto simp: attachable_def list_all_iff)
  ultimately show ?thesis
    using assms insert_links_free [OF assms(2) _ assms(4,3), of "\<lambda>t. owns_txn u t d" u a]
    by (simp add: attach_payments_def Let_def attachable_def)
qed

lemma healthy_attach_tx:
  assumes "attach_payments a ids u d =
      Inr (length ids, d\<lparr>loan_attachments := loan_attachments d @ new_links u a ids\<rparr>)"
    and "Q (length ids) (attached_db u a ids d)"
  shows "healthy (attach_tx a ids u) Q d"
proof (cases "loan_payee a u d")
  case None
  then show ?thesis
    unfolding attach_tx_def using assms
    by (intro healthy_seq healthy_exec [where f = "attach_payments a ids u", OF assms(1)] healthy_check
        healthy_query) (simp_all add: loan_payee_def attached_db_def paid_to_loan_def healthy_ret)
next
  case (Some p)
  then show ?thesis
    unfolding attach_tx_def using assms
    by (intro healthy_seq healthy_exec [where f = "attach_payments a ids u", OF assms(1)] healthy_check
        healthy_query)
       (auto simp: loan_payee_def attached_db_def paid_to_loan_def set_payee_def intro!: healthy)
qed

lemma healthy_attach:
  assumes "attachable u ids d" "unique_links (loan_attachments d)"
    "find_account a d = Some r" "ac_UserID r = u" "ac_TypeID r = loanAccountTypeID"
    "lk_TransactionID ` set (loan_attachments d) \<inter> set ids = {}"
  shows "healthy (BulkLinkLoan u (Some \<lparr>bl_TransactionIDs = ids, bl_LoanAccountID = Some a\<rparr>))
    (\<lambda>res d'. res = Attached (length ids) \<and> d' = attached_db u a ids d) d"
proof -
  have own: "owns_account u a d"
    using assms(3,4) by (auto simp: owns_account_def find_account_def find_Some_iff)
  have links: "count_links ids u (loan_attachments d) = 0"
    using assms(6) by (auto simp: count_links_def filter_empty_conv)
  have ok: "ids \<noteq> []" "int (length ids) \<le> maxBulkBatch" "count_owned ids u d = length ids" "count_on_loan ids u d = 0"
    using assms(1) by (simp_all add: attachable_def)
  show ?thesis
    unfolding BulkLinkLoan_def bulk_loan_request.simps option.case Let_def
    by (intro healthy healthy_attach_tx)
       (use assms(3-5) attach_payments_free [OF assms(1,2) own assms(6)] in
         \<open>auto simp: links ok healthy_ret\<close>)
qed

text \<open>Setting a payee moves no transaction between accounts or users, so the counts stand.\<close>

lemma count_owned_payee:
  "length (filter (\<lambda>t. tx_ID t \<in> S \<and> tx_UserID t = u) (map (\<lambda>t. if C t then t\<lparr>tx_PayeeID := p\<rparr> else t) ts)) =
   length (filter (\<lambda>t. tx_ID t \<in> S \<and> tx_UserID t = u) ts)"
  by (induction ts) auto

lemma count_on_loan_payee:
  "length [t. t \<leftarrow> map (\<lambda>t. if C t then t\<lparr>tx_PayeeID := p\<rparr> else t) ts, a \<leftarrow> as,
       tx_AccountID t = ac_ID a \<and> tx_ID t \<in> S \<and> tx_UserID t = u \<and> ac_TypeID a = ''loan''] =
   length [t. t \<leftarrow> ts, a \<leftarrow> as,
       tx_AccountID t = ac_ID a \<and> tx_ID t \<in> S \<and> tx_UserID t = u \<and> ac_TypeID a = ''loan'']"
proof (induction ts)
  case (Cons t ts)
  have "length (concat (map (\<lambda>a. if tx_AccountID t = ac_ID a \<and> tx_ID t \<in> S \<and> tx_UserID t = u \<and> ac_TypeID a = ''loan''
        then [t\<lparr>tx_PayeeID := p\<rparr>] else []) as)) =
      length (concat (map (\<lambda>a. if tx_AccountID t = ac_ID a \<and> tx_ID t \<in> S \<and> tx_UserID t = u \<and> ac_TypeID a = ''loan''
        then [t] else []) as))"
    by (induction as) auto
  then show ?case using Cons by simp
qed simp

lemma attached_fields:
  "transactions (attached_db u a ids d) = paid_to_loan u a ids (transactions d) d"
  "accounts (attached_db u a ids d) = accounts d"
  by (simp_all add: attached_db_def)

lemma attached_counts:
  "count_owned ids u (attached_db u a ids' d) = count_owned ids u d"
  "count_on_loan ids u (attached_db u a ids' d) = count_on_loan ids u d"
  unfolding count_owned_def count_on_loan_def attached_fields paid_to_loan_def
  by (cases "loan_payee a u d"; simp only: option.case count_owned_payee count_on_loan_payee)+

lemma detach_attached:
  assumes "attachable u ids d"
  shows "detach_payments ids u (attached_db u a ids d) =
    Inr (length ids, (attached_db u a ids d)\<lparr>loan_attachments := loan_attachments d\<rparr>)"
proof -
  have free: "\<not> (lk_TransactionID l \<in> set ids \<and> lk_UserID l = u)" if "l \<in> set (loan_attachments d)" for l
    using assms that by (auto simp: attachable_def list_all_iff linked_def)
  then have "delete_links ids u (loan_attachments d @ new_links u a ids) = loan_attachments d"
    by (auto simp: delete_links_def filter_empty_conv new_links_set intro!: filter_True)
  moreover have "count_links ids u (loan_attachments d @ new_links u a ids) = length ids"
  proof -
    have "filter (\<lambda>l. lk_TransactionID l \<in> set ids \<and> lk_UserID l = u) (loan_attachments d) = []"
      using free by (auto simp: filter_empty_conv)
    moreover have "filter (\<lambda>l. lk_TransactionID l \<in> set ids \<and> lk_UserID l = u) (new_links u a ids) = new_links u a ids"
      by (rule filter_True) (simp add: new_links_set)
    ultimately show ?thesis by (simp add: count_links_def new_links_def)
  qed
  ultimately show ?thesis
    by (simp add: detach_payments_def attached_db_def)
qed

lemma healthy_detach:
  assumes "attachable u ids d"
  shows "healthy (BulkLinkLoan u (Some \<lparr>bl_TransactionIDs = ids, bl_LoanAccountID = None\<rparr>))
     (\<lambda>res d'. res = Detached (length ids) \<and> d' = (attached_db u a ids d)\<lparr>loan_attachments := loan_attachments d\<rparr>)
     (attached_db u a ids d)"
  unfolding handler_defs bulk_loan_request.simps option.case
  by (intro healthy; simp add: attached_counts detach_attached [OF assms])
     (use assms in \<open>simp_all add: attachable_def\<close>)

section \<open>A ledger\<close>

text \<open>User 1 has two loans (10 and 12), a bank account (11), a credit (20) and two debits (21, 22).\<close>

definition ex_txn :: "uuid \<Rightarrow> string \<Rightarrow> cents \<Rightarrow> txn_row" where
  "ex_txn i ty m = \<lparr>tx_ID = i, tx_UserID = 1, tx_AccountID = 11, tx_Date = 738900, tx_Description = ''x'',
     tx_Amount = m, tx_Type = ty, tx_CategoryID = None, tx_PayeeID = None, tx_CycleID = None,
     tx_Detached = False, tx_CreatedAt = i, tx_Tags = [], tx_Notes = Some [], tx_ClientKey = None\<rparr>"

definition ex_account :: "uuid \<Rightarrow> string \<Rightarrow> account_row" where
  "ex_account i ty = \<lparr>ac_ID = i, ac_UserID = 1, ac_Name = ''a'', ac_TypeID = ty, ac_Closed = False,
     ac_BillingDay = None\<rparr>"

definition ex_db :: db where
  "ex_db = \<lparr>accounts = [ex_account 10 ''loan'', ex_account 11 ''bank'', ex_account 12 ''loan''],
     transactions = [ex_txn 20 ''credit'' 500000, ex_txn 21 ''debit'' 9000, ex_txn 22 ''debit'' 9000],
     payees = [\<lparr>pe_ID = 30, pe_UserID = 1, pe_Name = ''a'', pe_AccountID = Some 10\<rparr>], categories = [],
     loan_attachments = [], loan_disbursements = [], loan_schedules = [], loan_transfers = [],
     series = [], series_terms = [], recurring_attachments = [], billing_cycles = [], txn_links = [], rules = []\<rparr>"

definition ex_world :: "db world" where
  "ex_world = \<lparr>w_db = ex_db, w_faults = [], w_ids = [100, 101, 102]\<rparr>"

definition ex_attach :: "uuid list \<Rightarrow> uuid option \<Rightarrow> bulk_loan_request option" where
  "ex_attach ids a = Some \<lparr>bl_TransactionIDs = ids, bl_LoanAccountID = a\<rparr>"

section \<open>The properties\<close>

text \<open>When an attach is answered with success, every listed transaction is attached to that loan and
  none of them was attached or a disbursement credit before; each is owned by the user and not on a
  loan account; their payee becomes the loan's payee, when it has one; nothing else changes.\<close>

theorem attach_effect:
  assumes "BulkLinkLoan u (Some \<lparr>bl_TransactionIDs = ids, bl_LoanAccountID = Some a\<rparr>) w = (Inr res, w')"
  shows "res = Attached (length ids) \<and> attachable u ids (w_db w) \<and> w_db w' = attached_db u a ids (w_db w)"
  using outcomes_elim [OF outcomes_attach assms] by simp

theorem attach_effect_witness:
  "w_db (snd (BulkLinkLoan 1 (ex_attach [21, 22] (Some 10)) ex_world)) = attached_db 1 10 [21, 22] ex_db"
proof -
  have "BulkLinkLoan 1 (ex_attach [21, 22] (Some 10)) ex_world =
      (Inr (Attached 2), snd (BulkLinkLoan 1 (ex_attach [21, 22] (Some 10)) ex_world))"
    by code_simp
  from attach_effect [OF this [unfolded ex_attach_def]] show ?thesis
    by (simp add: ex_attach_def ex_world_def)
qed

text \<open>A well-formed attach is answered with success: when the transactions exist, are free and are
  not on a loan account, the target is the user's loan, and no statement fails.\<close>

theorem attach_succeeds:
  assumes "attachable u ids (w_db w)" "unique_links (loan_attachments (w_db w))"
    "find_account a (w_db w) = Some r" "ac_UserID r = u" "ac_TypeID r = loanAccountTypeID"
    "lk_TransactionID ` set (loan_attachments (w_db w)) \<inter> set ids = {}" "w_faults w = []"
  shows "fst (BulkLinkLoan u (Some \<lparr>bl_TransactionIDs = ids, bl_LoanAccountID = Some a\<rparr>) w)
    = Inr (Attached (length ids))"
  using healthy_elim [OF healthy_attach [OF assms(1-6)] assms(7)] by fastforce

theorem attach_succeeds_witness:
  "fst (BulkLinkLoan 1 (ex_attach [21, 22] (Some 10)) ex_world) = Inr (Attached 2)"
proof -
  have "attachable 1 [21, 22] (w_db ex_world)" "unique_links (loan_attachments (w_db ex_world))"
    "find_account 10 (w_db ex_world) = Some (ex_account 10 ''loan'')" "ac_UserID (ex_account 10 ''loan'') = 1"
    "ac_TypeID (ex_account 10 ''loan'') = loanAccountTypeID"
    "lk_TransactionID ` set (loan_attachments (w_db ex_world)) \<inter> set [21, 22] = {}" "w_faults ex_world = []"
    by code_simp+
  from attach_succeeds [OF this] show ?thesis by (simp add: ex_attach_def)
qed

text \<open>Detaching undoes attaching: the same batch sent again without a loan removes exactly the rows
  the attach added (the payees stay, as documented).\<close>

theorem detach_undoes_attach:
  assumes "BulkLinkLoan u (Some \<lparr>bl_TransactionIDs = ids, bl_LoanAccountID = Some a\<rparr>) w = (Inr res, w')"
    and "w_faults w' = []"
  shows "\<exists>w''. BulkLinkLoan u (Some \<lparr>bl_TransactionIDs = ids, bl_LoanAccountID = None\<rparr>) w' =
      (Inr (Detached (length ids)), w'') \<and>
    w_db w'' = (w_db w')\<lparr>loan_attachments := loan_attachments (w_db w)\<rparr>"
proof -
  have e: "attachable u ids (w_db w) \<and> w_db w' = attached_db u a ids (w_db w)"
    using outcomes_elim [OF outcomes_attach assms(1)] by simp
  then have "healthy (BulkLinkLoan u (Some \<lparr>bl_TransactionIDs = ids, bl_LoanAccountID = None\<rparr>))
     (\<lambda>res d'. res = Detached (length ids) \<and> d' = (w_db w')\<lparr>loan_attachments := loan_attachments (w_db w)\<rparr>)
     (w_db w')"
    using healthy_detach by metis
  then show ?thesis using assms(2) by (rule healthy_elim) auto
qed

theorem detach_undoes_attach_witness:
  "\<exists>w''. BulkLinkLoan 1 (ex_attach [21, 22] None) (snd (BulkLinkLoan 1 (ex_attach [21, 22] (Some 10)) ex_world)) =
      (Inr (Detached 2), w'') \<and> loan_attachments (w_db w'') = []"
proof -
  have a: "BulkLinkLoan 1 (ex_attach [21, 22] (Some 10)) ex_world =
      (Inr (Attached 2), snd (BulkLinkLoan 1 (ex_attach [21, 22] (Some 10)) ex_world))"
    "w_faults (snd (BulkLinkLoan 1 (ex_attach [21, 22] (Some 10)) ex_world)) = []"
    by code_simp+
  from detach_undoes_attach [OF a(1) [unfolded ex_attach_def] a(2) [unfolded ex_attach_def]]
  show ?thesis by (auto simp: ex_attach_def ex_world_def ex_db_def)
qed

end
