(* ===== verification/Loan_Transfers.thy ===== *)
theory Loan_Transfers
  imports Loan_Links Loan_Progress
begin

text \<open>
  Balance transfers from request to tables: what \<open>TransferLoanBalance\<close> records and what that does to the
  source, that \<open>DeleteLoanTransfer\<close> undoes it, and where it undoes too little: a loan whose schedule a
  transfer opened may have been transferred on before the first transfer is deleted.
\<close>

section \<open>Reading the transfers of a loan\<close>

lemma scan_settled:
  "fst (fold (scan_transfer a) ts st) =
    (case filter (\<lambda>t. lt_ToLoanAccountID t \<noteq> a) ts of [] \<Rightarrow> fst st
     | x # xs \<Rightarrow> Some (lt_TransferDate (last (x # xs))))"
  by (induction ts arbitrary: st) (auto simp: scan_transfer_def split: list.splits prod.splits)

lemma joined_rows:
  "set [t. (v, t) \<leftarrow> ts, fa \<leftarrow> as, ta \<leftarrow> as, P v t fa ta] =
     {t. \<exists>v fa ta. (v, t) \<in> set ts \<and> fa \<in> set as \<and> ta \<in> set as \<and> P v t fa ta}"
proof (induction ts)
  case (Cons r ts)
  obtain v t where r: "r = (v, t)" by (cases r)
  have "set (concat (map (\<lambda>fa. concat (map (\<lambda>ta. if P v t fa ta then [t] else []) as)) as)) =
      {x. x = t \<and> (\<exists>fa \<in> set as. \<exists>ta \<in> set as. P v t fa ta)}"
    by (auto split: if_splits)
  then show ?case using Cons unfolding r by auto
qed simp

lemma in_transfers_of:
  "t' \<in> set (transfers_of u a d) \<longleftrightarrow>
     (\<exists>t. t' = t\<lparr>lt_AccruedInterest := i64 (lt_Amount t - lt_Principal t)\<rparr> \<and> (u, t) \<in> set (loan_transfers d) \<and>
       lt_FromLoanAccountID t \<in> ac_ID ` set (accounts d) \<and> lt_ToLoanAccountID t \<in> ac_ID ` set (accounts d) \<and>
       (lt_FromLoanAccountID t = a \<or> lt_ToLoanAccountID t = a))"
  unfolding transfers_of_def set_map set_sort joined_rows
  by (rule iffI) (clarsimp, blast intro: sym imageI, clarsimp, rule imageI, simp, metis)

lemma settled_once:
  assumes "find_schedule u a d = Some s" "(u, t) \<in> set (loan_transfers d)"
    "lt_FromLoanAccountID t = a" "lt_ToLoanAccountID t \<noteq> a"
    "a \<in> ac_ID ` set (accounts d)" "lt_ToLoanAccountID t \<in> ac_ID ` set (accounts d)"
    and only: "\<And>r. (u, r) \<in> set (loan_transfers d) \<Longrightarrow> lt_FromLoanAccountID r = a \<Longrightarrow> r = t"
  shows "dt_SettledOn (detail_of u a d) = Some (lt_TransferDate t) \<and> dt_OutstandingPrincipal (detail_of u a d) = 0"
proof -
  let ?out = "filter (\<lambda>t. lt_ToLoanAccountID t \<noteq> a) (transfers_of u a d)"
  have s: "ls_LoanAccountID s = a"
    using assms(1) by (auto simp: find_schedule_def find_Some_iff)
  have "t\<lparr>lt_AccruedInterest := i64 (lt_Amount t - lt_Principal t)\<rparr> \<in> set ?out"
    using assms(2-6) by (auto simp: in_transfers_of)
  then obtain x xs where out: "?out = x # xs" by (cases ?out) auto
  have "lt_TransferDate y = lt_TransferDate t" if "y \<in> set ?out" for y
    using that only by (auto simp: in_transfers_of)
  then have "lt_TransferDate (last (x # xs)) = lt_TransferDate t"
    using out by (metis last_in_set list.distinct(1))
  then have settled: "fst (scan_transfers a (transfers_of u a d)) = Some (lt_TransferDate t)"
    unfolding scan_transfers_def scan_settled out by simp
  then show ?thesis
    using progress_figures [of s "transfers_of u a d" "credit_of u a d" "payments_of u a d"]
    by (simp add: detail_of_def assms(1) detail_origin s)
qed
lemma owned_account_exists: "owns_account u a d \<Longrightarrow> a \<in> ac_ID ` set (accounts d)"
  by (auto simp: owns_account_def)

section \<open>What a transfer writes\<close>

definition transferred :: "uuid \<Rightarrow> loan_transfer \<Rightarrow> loan_schedule option \<Rightarrow> db \<Rightarrow> db" where
  "transferred u t opened d = d\<lparr>loan_transfers := loan_transfers d @ [(u, t)],
     loan_schedules := loan_schedules d @ (case opened of None \<Rightarrow> [] | Some s \<Rightarrow> [(u, s)])\<rparr>"

lemma insert_transfer_ok:
  assumes "insert_transfer u t d = Inr (x, d')"
  shows "d' = d\<lparr>loan_transfers := loan_transfers d @ [(u, t)]\<rparr> \<and> transfer_checks t \<and>
    owns_account u (lt_FromLoanAccountID t) d \<and> owns_account u (lt_ToLoanAccountID t) d \<and>
    list_all (\<lambda>(v, r). v = u \<longrightarrow> lt_ID r \<noteq> lt_ID t \<and> lt_FromLoanAccountID r \<noteq> lt_FromLoanAccountID t) (loan_transfers d)"
  using assms by (auto simp: insert_transfer_def list_all_iff split: if_splits)

lemma target_terms_ok:
  assumes "target_terms now req on amount mode target = Inr terms"
  shows "(mode = LoanTransferOpens \<longleftrightarrow> terms \<noteq> None) \<and> (terms \<noteq> None \<longrightarrow> dt_Schedule target = None)
    \<and> (terms = None \<longrightarrow> dt_Schedule target \<noteq> None)"
  using assms by (auto simp: target_terms_def LoanTransferOpens_def LoanTransferRecast_def
      LoanTransferTakeover_def split: if_splits sum.splits option.splits)

lemma detail_schedule: "dt_Schedule (detail_of u a d) = find_schedule u a d"
  by (auto simp: detail_of_def empty_detail_def detail_origin split: option.splits)

text \<open>The transfer that a successful request records.\<close>

definition records_transfer :: "uuid \<Rightarrow> uuid \<Rightarrow> loan_transfer \<Rightarrow> loan_schedule option \<Rightarrow> db \<Rightarrow> bool" where
  "records_transfer u a t opened d \<longleftrightarrow>
     (let source = detail_of u a d; quote = loanPayoffFor source (lt_TransferDate t) in
      lt_FromLoanAccountID t = a \<and> lt_ToLoanAccountID t \<noteq> a \<and> dt_Schedule source \<noteq> None \<and>
      dt_SettledOn source = None \<and> lt_Amount t = lp_Payoff quote \<and> 0 < lt_Amount t \<and>
      lt_Principal t = lp_OutstandingPrincipal quote \<and>
      owns_account u a d \<and> owns_account u (lt_ToLoanAccountID t) d \<and>
      list_all (\<lambda>(v, r). v = u \<longrightarrow> lt_ID r \<noteq> lt_ID t \<and> lt_FromLoanAccountID r \<noteq> a) (loan_transfers d) \<and>
      (case opened of
         None \<Rightarrow> lt_Mode t \<in> {LoanTransferRecast, LoanTransferTakeover} \<and> find_schedule u (lt_ToLoanAccountID t) d \<noteq> None
       | Some s \<Rightarrow> lt_Mode t = LoanTransferOpens \<and> find_schedule u (lt_ToLoanAccountID t) d = None \<and>
           ls_LoanAccountID s = lt_ToLoanAccountID t \<and> ls_Principal s = lt_Amount t \<and> schedule_checks s))"

lemma found_loan:
  "find_account a d = Some r \<Longrightarrow> ac_UserID r = u \<Longrightarrow> ac_TypeID r = loanAccountTypeID \<Longrightarrow> is_owned_loan u a d"
  by (auto simp: is_owned_loan_def find_account_def find_Some_iff loanAccountTypeID_def)

lemma find_append: "find P (xs @ ys) = (case find P xs of None \<Rightarrow> find P ys | Some x \<Rightarrow> Some x)"
  by (induction xs) simp_all

lemma recorded:
  assumes ins: "insert_transfer u t d = Inr (x, d1)"
    and source: "dt_Schedule (detail_of u a d) \<noteq> None" "dt_SettledOn (detail_of u a d) = None"
    and t: "lt_FromLoanAccountID t = a" "lt_ToLoanAccountID t \<noteq> a" "0 < lt_Amount t"
      "lt_Amount t = lp_Payoff (loanPayoffFor (detail_of u a d) (lt_TransferDate t))"
      "lt_Principal t = lp_OutstandingPrincipal (loanPayoffFor (detail_of u a d) (lt_TransferDate t))"
    and terms: "target_terms now req on m (lt_Mode t) (detail_of u (lt_ToLoanAccountID t) d) = Inr terms"
    and loan: "is_owned_loan u (lt_ToLoanAccountID t) d"
    and opened: "case terms of None \<Rightarrow> d' = d1
      | Some tt \<Rightarrow> \<exists>s. open_schedule u s d1 = Inr ((), d') \<and> ls_LoanAccountID s = lt_ToLoanAccountID t \<and>
          ls_Principal s = lt_Amount t"
  shows "\<exists>opened. records_transfer u a t opened d \<and> d' = transferred u t opened d"
proof -
  note i = insert_transfer_ok [OF ins]
  have il: "is_owned_loan u (lt_ToLoanAccountID t) d1"
    using loan i by (simp add: is_owned_loan_def)
  note tt = target_terms_ok [OF terms]
  have fs: "find_schedule u b d1 = find_schedule u b d" for b
    using i by (simp add: find_schedule_def)
  show ?thesis
  proof (cases terms)
    case None
    then have "lt_Mode t = LoanTransferRecast \<or> lt_Mode t = LoanTransferTakeover"
      using i tt by (auto simp: transfer_checks_def LoanTransferOpens_def LoanTransferRecast_def LoanTransferTakeover_def)
    then have "records_transfer u a t None d \<and> d' = transferred u t None d"
      using None i source t tt opened
      by (auto simp: records_transfer_def transferred_def Let_def detail_schedule)
    then show ?thesis by blast
  next
    case (Some y)
    then obtain s where opened: "open_schedule u s d1 = Inr ((), d')" "ls_LoanAccountID s = lt_ToLoanAccountID t"
        "ls_Principal s = lt_Amount t"
      using opened by auto
    have "records_transfer u a t (Some s) d \<and> d' = transferred u t (Some s) d"
      using Some i source t tt opened il
      by (auto simp: records_transfer_def transferred_def Let_def detail_schedule open_schedule_def fs split: if_splits)
    then show ?thesis by blast
  qed
qed

lemma outcomes_transfer:
  "outcomes (TransferLoanBalance now u (Some a) (Some req))
    (\<lambda>res d'. lt_ToLoanAccountID (ltr_Transfer res) = tr_ToLoanAccountID req \<and>
       parseRecurringDate now (tr_TransferDate req) = Inr (lt_TransferDate (ltr_Transfer res)) \<and>
       snd (ltr_Source res) = detail_of u a d' \<and> snd (ltr_Target res) = detail_of u (tr_ToLoanAccountID req) d' \<and>
       (\<exists>opened. records_transfer u a (ltr_Transfer res) opened d \<and> d' = transferred u (ltr_Transfer res) opened d))
    (\<lambda>_ _. True) d"
  unfolding TransferLoanBalance_def Let_def transfer_tx_def
  apply (intro wp)
  apply simp_all
  subgoal by (rule recorded, assumption, simp_all) (erule found_loan, assumption+, simp)
  subgoal by (rule recorded, assumption, simp_all)
     (erule found_loan, assumption+, simp, rule exI, rule conjI, assumption, simp)
  done

section \<open>Deleting a transfer\<close>

text \<open>Nothing else has been moved into a loan this transfer opened.\<close>

definition undo_free :: "uuid \<Rightarrow> loan_transfer \<Rightarrow> db \<Rightarrow> bool" where
  "undo_free u t d \<longleftrightarrow> (if lt_Mode t = LoanTransferOpens
     then list_all (\<lambda>(v, r). v \<noteq> u \<or> lt_ToLoanAccountID r \<noteq> lt_ToLoanAccountID t) (loan_transfers d) else True)"

lemma healthy_delete_transfer:
  assumes one: "delete_transfer i a u d = Inr (Some t, d1)"
    and two: "if lt_Mode t = LoanTransferOpens
      then delete_opened_schedule (lt_ToLoanAccountID t) u (lt_Amount t) d1 = Inr (True, d2) else d2 = d1"
    and Q: "Q 1 d2"
  shows "healthy (DeleteLoanTransfer u (Some a) (Some i)) Q d"
proof -
  have "healthy (delete_transfer_tx i a u) Q d"
    unfolding delete_transfer_tx_def
  proof (rule healthy_seq, rule healthy_exec [where f = "delete_transfer i a u", OF one], simp, intro impI conjI)
    assume opens: "lt_Mode t = LoanTransferOpens"
    then have two: "delete_opened_schedule (lt_ToLoanAccountID t) u (lt_Amount t) d1 = Inr (True, d2)"
      using two by simp
    show "healthy (seq (exec (delete_opened_schedule (lt_ToLoanAccountID t) u (lt_Amount t))) (\<lambda>gone.
       if gone then ret 1
       else seq (query (find_schedule u (lt_ToLoanAccountID t))) (\<lambda>s.
         seq (check (s = None) errLoanTransferTargetChanged) (\<lambda>_. ret 1)))) Q d1"
      by (rule healthy_seq, rule healthy_exec [where f = "delete_opened_schedule (lt_ToLoanAccountID t) u (lt_Amount t)", OF two]) (use Q in \<open>simp add: healthy_ret\<close>)
  qed (use two Q in \<open>auto intro: healthy_ret\<close>)
  then show ?thesis
    unfolding DeleteLoanTransfer_def by (intro healthy_seq healthy_path_id healthy_on_error healthy_with_tx)
qed

lemma healthy_undo:
  assumes "records_transfer u a t opened d" "undo_free u t d"
  shows "healthy (DeleteLoanTransfer u (Some a) (Some (lt_ID t))) (\<lambda>n d'. n = 1 \<and> d' = d) (transferred u t opened d)"
proof -
  let ?d = "transferred u t opened d"
  let ?d1 = "?d\<lparr>loan_transfers := loan_transfers d\<rparr>"
  have fresh: "\<not> transfer_is (lt_ID t) a u r" if "r \<in> set (loan_transfers d)" for r
    using assms(1) that by (auto simp: records_transfer_def Let_def transfer_is_def list_all_iff split: prod.splits)
  then have one: "delete_transfer (lt_ID t) a u ?d = Inr (Some t, ?d1)"
  proof -
    have "find (transfer_is (lt_ID t) a u) (loan_transfers d) = None"
      using fresh by (simp add: find_None_iff)
    moreover have "filter (\<lambda>r. \<not> transfer_is (lt_ID t) a u r) (loan_transfers d) = loan_transfers d"
      using fresh by simp
    moreover have "transfer_is (lt_ID t) a u (u, t)"
      using assms(1) by (simp add: transfer_is_def records_transfer_def Let_def)
    ultimately show ?thesis by (simp add: delete_transfer_def transferred_def find_append)
  qed
  show ?thesis
  proof (cases opened)
    case None
    then have "?d1 = d" "lt_Mode t \<noteq> LoanTransferOpens"
      using assms(1) by (auto simp: transferred_def records_transfer_def Let_def LoanTransferOpens_def
          LoanTransferRecast_def LoanTransferTakeover_def)
    then show ?thesis
      by (intro healthy_delete_transfer [OF one, of d]) auto
  next
    case (Some s)
    then have opens: "lt_Mode t = LoanTransferOpens" and none: "find_schedule u (lt_ToLoanAccountID t) d = None"
      and s: "ls_LoanAccountID s = lt_ToLoanAccountID t" "ls_Principal s = lt_Amount t"
      using assms(1) by (auto simp: records_transfer_def Let_def)
    have keep: "filter (\<lambda>r. P r \<longrightarrow> fst r = u \<longrightarrow> ls_LoanAccountID (snd r) \<noteq> lt_ToLoanAccountID t)
        (loan_schedules d) = loan_schedules d" for P
      using none by (auto simp: find_schedule_def find_None_iff filter_id_conv)
    have two: "delete_opened_schedule (lt_ToLoanAccountID t) u (lt_Amount t) ?d1 = Inr (True, d)"
      using none s assms(2) opens Some
      by (auto simp: delete_opened_schedule_def Let_def transferred_def schedules_of_def undo_free_def
          list_all_iff keep)
    show ?thesis
      by (rule healthy_delete_transfer [OF one, of d]) (use opens two in auto)
  qed
qed


text \<open>A transfer that opened the schedule of a loan which has itself been transferred on.\<close>

definition onward :: "uuid \<Rightarrow> loan_transfer \<Rightarrow> loan_transfer \<Rightarrow> loan_schedule \<Rightarrow> db \<Rightarrow> bool" where
  "onward u t t2 s d \<longleftrightarrow> loan_books d \<and>
     (u, t) \<in> set (loan_transfers d) \<and> lt_Mode t = LoanTransferOpens \<and>
     list_all (\<lambda>(v, r). v \<noteq> u \<or> r = t \<or> lt_ToLoanAccountID r \<noteq> lt_ToLoanAccountID t) (loan_transfers d) \<and>
     (u, t2) \<in> set (loan_transfers d) \<and> lt_FromLoanAccountID t2 = lt_ToLoanAccountID t \<and>
     (u, s) \<in> set (loan_schedules d) \<and> ls_LoanAccountID s = lt_ToLoanAccountID t \<and> ls_Principal s = lt_Amount t"

lemma keyed_transfer:
  assumes "loan_books d" "(u, t) \<in> set (loan_transfers d)" "(u, r) \<in> set (loan_transfers d)"
    "lt_FromLoanAccountID r = lt_FromLoanAccountID t"
  shows "r = t"
proof -
  have "inj_on transfer_key (set (loan_transfers d))"
    using assms(1) by (simp add: loan_books_def keyed_terms_def distinct_map)
  then show ?thesis
    using inj_onD [of transfer_key _ "(u, r)" "(u, t)"] assms(2-4) by (simp add: transfer_key_def)
qed

lemma healthy_onward:
  assumes "onward u t t2 s d"
  shows "healthy (DeleteLoanTransfer u (Some (lt_FromLoanAccountID t)) (Some (lt_ID t)))
    (\<lambda>n d'. n = 1 \<and> (u, t2) \<in> set (loan_transfers d') \<and> find_schedule u (lt_ToLoanAccountID t) d' = None \<and>
       (u, t) \<notin> set (loan_transfers d')) d"
proof -
  let ?a = "lt_FromLoanAccountID t" and ?b = "lt_ToLoanAccountID t"
  let ?d1 = "d\<lparr>loan_transfers := filter (\<lambda>r. \<not> transfer_is (lt_ID t) ?a u r) (loan_transfers d)\<rparr>"
  let ?d2 = "?d1\<lparr>loan_schedules := filter (\<lambda>r. \<not> (schedules_of u ?b r \<and> ls_Principal (snd r) = lt_Amount t)) (loan_schedules d)\<rparr>"
  have books: "loan_books d" and t: "(u, t) \<in> set (loan_transfers d)" and t2: "(u, t2) \<in> set (loan_transfers d)"
    and s: "(u, s) \<in> set (loan_schedules d)" "ls_LoanAccountID s = ?b" "ls_Principal s = lt_Amount t"
    and opens: "lt_Mode t = LoanTransferOpens"
    using assms by (auto simp: onward_def)
  have is_t: "transfer_is (lt_ID t) ?a u r \<longleftrightarrow> r = (u, t)" if "r \<in> set (loan_transfers d)" for r
    using that keyed_transfer [OF books t, of "snd r"] by (cases r) (auto simp: transfer_is_def)
  have "find (transfer_is (lt_ID t) ?a u) (loan_transfers d) = Some (u, t)"
  proof (cases "find (transfer_is (lt_ID t) ?a u) (loan_transfers d)")
    case None
    then show ?thesis using t is_t by (auto simp: find_None_iff)
  next
    case (Some r)
    then show ?thesis using is_t [of r] by (auto simp: find_Some_iff)
  qed
  then have one: "delete_transfer (lt_ID t) ?a u d = Inr (Some t, ?d1)"
    by (simp add: delete_transfer_def)
  have gone: "\<not> (\<exists>(v, r) \<in> set (loan_transfers ?d1). v = u \<and> lt_ToLoanAccountID r = ?b)"
    using assms is_t t by (auto simp: onward_def list_all_iff)
  have two: "delete_opened_schedule ?b u (lt_Amount t) ?d1 = Inr (True, ?d2)"
    using gone by (auto simp: delete_opened_schedule_def Let_def schedules_of_def intro!: bexI [OF _ s(1)] s)
  have "ls_Principal r = lt_Amount t" if "(u, r) \<in> set (loan_schedules d)" "ls_LoanAccountID r = ?b" for r
  proof -
    have "inj_on schedule_key (set (loan_schedules d))"
      using books by (simp add: loan_books_def keyed_terms_def distinct_map)
    then show ?thesis
      using inj_onD [of schedule_key _ "(u, r)" "(u, s)"] that s by (auto simp: schedule_key_def)
  qed
  then have none: "find_schedule u ?b ?d2 = None"
    by (auto simp: find_schedule_def find_None_iff schedules_of_def)
  have "transfer_checks t"
    using books t by (auto simp: loan_books_def keyed_terms_def list_all_iff)
  then have "t2 \<noteq> t"
    using assms by (auto simp: onward_def transfer_checks_def)
  then have in2: "(u, t2) \<in> set (loan_transfers ?d2)" "(u, t) \<notin> set (loan_transfers ?d2)"
    using t2 is_t t by auto
  show ?thesis
    by (rule healthy_delete_transfer [OF one, of ?d2]) (use opens two none in2 in auto)
qed
section \<open>A ledger with a running loan\<close>

definition ex_loan :: "uuid \<Rightarrow> uuid \<Rightarrow> cents \<Rightarrow> loan_schedule" where
  "ex_loan i a m = \<lparr>ls_ID = i, ls_LoanAccountID = a, ls_Principal = m, ls_ProcessingFee = 0,
     ls_AnnualRateBps = 0, ls_TenureMonths = 1, ls_StartDate = 739000, ls_DisbursalDate = None\<rparr>"

definition ex_loan_world :: "db world" where
  "ex_loan_world = ex_world\<lparr>w_db := ex_db\<lparr>loan_schedules := [(1, ex_loan 40 10 100000)]\<rparr>\<rparr>"

definition ex_move :: loan_transfer_request where
  "ex_move = \<lparr>tr_ToLoanAccountID = 12, tr_TransferDate = ''2020-01-01'', tr_Mode = [],
     tr_TargetAnnualRateBps = Some 0, tr_TargetTenureMonths = Some 1, tr_TargetStartDate = ''2024-06-01''\<rparr>"

definition ex_moved :: loan_transfer where
  "ex_moved = \<lparr>lt_ID = 100, lt_FromLoanAccountID = 10, lt_ToLoanAccountID = 12, lt_Amount = 100000,
     lt_Principal = 100000, lt_AccruedInterest = 0, lt_TransferDate = time_date 2020 1 1, lt_Mode = ''opens''\<rparr>"

lemma ex_detail:
  "dt_Schedule (detail_of 1 10 (w_db ex_loan_world)) = Some (ex_loan 40 10 100000)"
  "dt_SettledOn (detail_of 1 10 (w_db ex_loan_world)) = None"
  "dt_OutstandingPrincipal (detail_of 1 10 (w_db ex_loan_world)) = 100000"
  "dt_LastPaidDate (detail_of 1 10 (w_db ex_loan_world)) = None"
proof -
  have f: "find_schedule 1 10 (w_db ex_loan_world) = Some (ex_loan 40 10 100000)"
    "transfers_of 1 10 (w_db ex_loan_world) = []" "credit_of 1 10 (w_db ex_loan_world) = None"
    "payments_of 1 10 (w_db ex_loan_world) = []"
    by code_simp+
  have s: "ls_LoanAccountID (ex_loan 40 10 100000) = 10" "ls_Principal (ex_loan 40 10 100000) = 100000"
    by (simp_all add: ex_loan_def)
  show "dt_Schedule (detail_of 1 10 (w_db ex_loan_world)) = Some (ex_loan 40 10 100000)"
    by (simp add: detail_schedule f del: One_nat_def)
  show "dt_SettledOn (detail_of 1 10 (w_db ex_loan_world)) = None"
    by (simp add: detail_of_def f detail_origin scan_transfers_def del: One_nat_def)
  show "dt_OutstandingPrincipal (detail_of 1 10 (w_db ex_loan_world)) = 100000"
    using progress_figures [of "ex_loan 40 10 100000" "[]" None "[]"] i64_id [of 100000]
    by (simp add: detail_of_def f s scan_transfers_def debits_def in_i64_def del: One_nat_def)
  show "dt_LastPaidDate (detail_of 1 10 (w_db ex_loan_world)) = None"
    by (simp add: detail_of_def f scheduleDetail_def finish_detail_def conclude_detail_def Let_def
        scan_transfers_def split_beta empty_detail_def del: One_nat_def split: option.splits)
qed

lemma ex_dates:
  "parseRecurringDate 739100 ''2020-01-01'' = Inr (time_date 2020 1 1)"
  "parseRecurringDate 739100 ''2024-06-01'' = Inr (time_date 2024 6 1)"
  "trim_space ''2024-06-01'' \<noteq> []"
  "\<not> addMonthsAnchored (dateOnly 739000) (- 1) < dateOnly (time_date 2020 1 1)"
  by code_simp+

lemma ex_quote:
  "lp_Payoff (loanPayoffFor (detail_of 1 10 (w_db ex_loan_world)) (time_date 2020 1 1)) = 100000"
  "lp_OutstandingPrincipal (loanPayoffFor (detail_of 1 10 (w_db ex_loan_world)) (time_date 2020 1 1)) = 100000"
  "lp_AccruedInterest (loanPayoffFor (detail_of 1 10 (w_db ex_loan_world)) (time_date 2020 1 1)) = 0"
  using ex_dates(4) by (simp_all add: loanPayoffFor_def payoffAnchor_def ex_detail Let_def ex_loan_def del: One_nat_def)


lemma ex_healthy_transfer:
  "healthy (TransferLoanBalance 739100 1 (Some 10) (Some ex_move))
     (\<lambda>_ _. True) (w_db ex_loan_world)"
proof -
  let ?d = "w_db ex_loan_world"
  have g: "find_owned_account 1 10 ?d = Some (ex_account 10 ''loan'')"
    "find_account 12 ?d = Some (ex_account 12 ''loan'')" "detail_of 1 12 ?d = empty_detail"
    by code_simp+
  have t: "target_terms 739100 ex_move (time_date 2020 1 1) 100000 (transfer_mode [] empty_detail) empty_detail
      = Inr (Some \<lparr>lt_principal = 100000, lt_processingFee = 0, lt_annualRateBps = 0, lt_tenureMonths = 1,
          lt_firstDueDate = time_date 2024 6 1, lt_disbursalDate = None\<rparr>)" "transfer_mode [] empty_detail = LoanTransferOpens"
    using ex_dates by (simp_all add: target_terms_def transfer_mode_def transferTargetTerms_def ex_move_def
        empty_detail_def LoanTransferOpens_def maxLoanTenureMonths_def)
  have "healthy (transfer_tx 1 (ex_moved\<lparr>lt_ID := i\<rparr>) (Some \<lparr>lt_principal = 100000, lt_processingFee = 0,
      lt_annualRateBps = 0, lt_tenureMonths = 1, lt_firstDueDate = time_date 2024 6 1, lt_disbursalDate = None\<rparr>))
      (\<lambda>_ _. True) ?d" for i
    unfolding transfer_tx_def ex_moved_def
    by (rule healthy_seq, rule healthy_exec [where a = "()"], code_simp,
        simp del: One_nat_def, rule healthy_seq, rule healthy_new_id, rule healthy_exec [where a = "()"], code_simp, simp)
  then have tx: "healthy (with_tx (transfer_tx 1 \<lparr>lt_ID = i, lt_FromLoanAccountID = 10, lt_ToLoanAccountID = 12,
      lt_Amount = 100000, lt_Principal = 100000, lt_AccruedInterest = 0, lt_TransferDate = time_date 2020 1 1,
      lt_Mode = LoanTransferOpens\<rparr> (Some \<lparr>lt_principal = 100000, lt_processingFee = 0,
      lt_annualRateBps = 0, lt_tenureMonths = 1, lt_firstDueDate = time_date 2024 6 1, lt_disbursalDate = None\<rparr>)))
      (\<lambda>_ _. True) ?d" for i
    by (intro healthy_with_tx) (simp add: ex_moved_def LoanTransferOpens_def)
  have m: "tr_ToLoanAccountID ex_move = 12" "tr_TransferDate ex_move = ''2020-01-01''" "tr_Mode ex_move = []"
    by (simp_all add: ex_move_def)
  have r: "ac_UserID (ex_account 12 ''loan'') = 1" "ac_TypeID (ex_account i ''loan'') = loanAccountTypeID"
    "\<not> ac_Closed (ex_account 12 ''loan'')" for i
    by (simp_all add: ex_account_def loanAccountTypeID_def)
  note step = ex_dates ex_quote ex_detail g t m r
  show ?thesis
    unfolding TransferLoanBalance_def Let_def
    apply (rule healthy_seq, rule healthy_path_id, rule healthy_seq, rule healthy_bind_json)
    apply (rule healthy_seq, rule healthy_or_400, simp only: step)
    apply (rule healthy_seq, rule healthy_check, simp add: m)
    apply (rule healthy_seq, rule healthy_guard, rule g(1), rule r)
    apply (rule healthy_seq, rule healthy_reload)
    apply (rule healthy_seq, rule healthy_check, simp add: step del: One_nat_def)
    apply (rule healthy_seq, rule healthy_check, simp add: step del: One_nat_def)
    apply (rule healthy_seq, rule healthy_check, simp add: step del: One_nat_def)
    apply (rule healthy_seq, rule healthy_ask, simp only: step option.case)
    apply (rule healthy_seq, rule healthy_check, rule refl)
    apply (rule healthy_seq, rule healthy_check, rule refl)
    apply (rule healthy_seq, rule healthy_check, simp)
    apply (rule healthy_seq, rule healthy_reload)
    apply (rule healthy_seq, rule healthy_or_400, simp only: step, rule t(1) [unfolded t(2)])
    apply (rule healthy_seq, rule healthy_new_id)
    apply (rule healthy_seq, rule healthy_on_error)
    apply (rule healthy_mono, simp only: step, rule tx)
    apply (intro healthy TrueI)
    done
qed
section \<open>The properties\<close>

text \<open>C9. When a balance transfer is answered with success, exactly one transfer row is added, for an
  unsettled source with a schedule and no earlier transfer out: it moves the source's payoff on the
  date (principal plus accrued interest), and adds the target's schedule, with that amount as its
  principal, exactly when the mode is \<open>opens\<close>. The source is then settled on the date and owes nothing.\<close>

theorem transfer_effect:
  assumes "TransferLoanBalance now u (Some a) (Some req) w = (Inr res, w')"
  shows "\<exists>opened. records_transfer u a (ltr_Transfer res) opened (w_db w)
    \<and> w_db w' = transferred u (ltr_Transfer res) opened (w_db w)
    \<and> dt_SettledOn (snd (ltr_Source res)) = Some (lt_TransferDate (ltr_Transfer res))
    \<and> dt_OutstandingPrincipal (snd (ltr_Source res)) = 0"
proof -
  obtain opened where rec: "records_transfer u a (ltr_Transfer res) opened (w_db w)"
    and d': "w_db w' = transferred u (ltr_Transfer res) opened (w_db w)"
    and src: "snd (ltr_Source res) = detail_of u a (w_db w')"
    using outcomes_elim [OF outcomes_transfer assms] by auto
  obtain s where s: "find_schedule u a (w_db w) = Some s"
    using rec by (auto simp: records_transfer_def Let_def detail_schedule)
  have s': "find_schedule u a (w_db w') = Some s"
    using s by (auto simp: find_schedule_def d' transferred_def find_append split: option.splits)
  have "dt_SettledOn (detail_of u a (w_db w')) = Some (lt_TransferDate (ltr_Transfer res)) \<and>
      dt_OutstandingPrincipal (detail_of u a (w_db w')) = 0"
  proof (rule settled_once [OF s'])
    show "a \<in> ac_ID ` set (accounts (w_db w'))"
      "lt_ToLoanAccountID (ltr_Transfer res) \<in> ac_ID ` set (accounts (w_db w'))"
      using rec by (auto simp: records_transfer_def Let_def d' transferred_def intro: owned_account_exists)
  qed (use rec in \<open>auto simp: d' transferred_def records_transfer_def Let_def list_all_iff\<close>)
  then show ?thesis using rec d' src by auto
qed

theorem transfer_effect_witness:
  "\<exists>res w'. TransferLoanBalance 739100 1 (Some 10) (Some ex_move) ex_loan_world = (Inr res, w')
    \<and> dt_OutstandingPrincipal (snd (ltr_Source res)) = 0"
proof -
  have "w_faults ex_loan_world = []" by (simp add: ex_loan_world_def ex_world_def)
  with ex_healthy_transfer obtain res w' where
    "TransferLoanBalance 739100 1 (Some 10) (Some ex_move) ex_loan_world = (Inr res, w')"
    by (rule healthy_elim)
  with transfer_effect [OF this] show ?thesis by blast
qed

text \<open>C19. Deleting a transfer undoes it: after a successful transfer, when no statement fails and nothing
  else has been moved into a loan it opened, deleting it puts every table back as it was.\<close>

theorem delete_undoes_transfer:
  assumes "TransferLoanBalance now u (Some a) (Some req) w = (Inr res, w')"
    and "undo_free u (ltr_Transfer res) (w_db w)" and "w_faults w' = []"
  shows "\<exists>w''. DeleteLoanTransfer u (Some a) (Some (lt_ID (ltr_Transfer res))) w' = (Inr 1, w'') \<and> w_db w'' = w_db w"
proof -
  obtain opened where "records_transfer u a (ltr_Transfer res) opened (w_db w)"
    and d': "w_db w' = transferred u (ltr_Transfer res) opened (w_db w)"
    using outcomes_elim [OF outcomes_transfer assms(1)] by auto
  from healthy_undo [OF this(1) assms(2)]
  have "healthy (DeleteLoanTransfer u (Some a) (Some (lt_ID (ltr_Transfer res)))) (\<lambda>n d'. n = 1 \<and> d' = w_db w) (w_db w')"
    by (simp add: d')
  then show ?thesis using assms(3) by (rule healthy_elim) auto
qed

theorem delete_undoes_transfer_witness:
  "\<exists>res w' w''. TransferLoanBalance 739100 1 (Some 10) (Some ex_move) ex_loan_world = (Inr res, w')
    \<and> DeleteLoanTransfer 1 (Some 10) (Some (lt_ID (ltr_Transfer res))) w' = (Inr 1, w'') \<and> w_db w'' = w_db ex_loan_world"
proof -
  have "w_faults ex_loan_world = []" by (simp add: ex_loan_world_def ex_world_def)
  with ex_healthy_transfer obtain res w' where
    tr: "TransferLoanBalance 739100 1 (Some 10) (Some ex_move) ex_loan_world = (Inr res, w')" and f: "w_faults w' = []"
    by (rule healthy_elim)
  have "undo_free 1 (ltr_Transfer res) (w_db ex_loan_world)"
    by (simp add: undo_free_def ex_loan_world_def ex_world_def ex_db_def)
  from delete_undoes_transfer [OF tr this f] tr show ?thesis by blast
qed

text \<open>C33. The revert is not complete. When a transfer opened the schedule of loan B and B's balance has
  since been transferred on to C, deleting the first transfer is accepted: it makes the source live
  again and removes B's schedule, but the transfer from B to C stays, so C still carries the balance
  that the source owes once more.\<close>

theorem revert_leaves_onward_transfer:
  assumes "onward u t t2 s (w_db w)" "w_faults w = []"
  shows "\<exists>w'. DeleteLoanTransfer u (Some (lt_FromLoanAccountID t)) (Some (lt_ID t)) w = (Inr 1, w')
    \<and> (u, t) \<notin> set (loan_transfers (w_db w')) \<and> (u, t2) \<in> set (loan_transfers (w_db w'))
    \<and> dt_Schedule (detail_of u (lt_FromLoanAccountID t2) (w_db w')) = None"
proof -
  have b: "lt_FromLoanAccountID t2 = lt_ToLoanAccountID t" using assms(1) by (simp add: onward_def)
  from healthy_onward [OF assms(1)] assms(2) show ?thesis
    by (rule healthy_elim) (simp add: detail_schedule b)
qed

definition ex_onward_world :: "db world" where
  "ex_onward_world = ex_world\<lparr>w_db := ex_db\<lparr>
     loan_schedules := [(1, ex_loan 40 10 100000), (1, ex_loan 41 12 100000), (1, ex_loan 42 13 50000)],
     loan_transfers := [(1, ex_moved), (1, ex_moved\<lparr>lt_ID := 101, lt_FromLoanAccountID := 12,
       lt_ToLoanAccountID := 13, lt_Mode := ''recast''\<rparr>)]\<rparr>\<rparr>"

theorem revert_leaves_onward_transfer_witness:
  "\<exists>w'. DeleteLoanTransfer 1 (Some 10) (Some 100) ex_onward_world = (Inr 1, w')
    \<and> length (loan_transfers (w_db w')) > 0"
proof -
  have "onward 1 ex_moved (ex_moved\<lparr>lt_ID := 101, lt_FromLoanAccountID := 12, lt_ToLoanAccountID := 13,
      lt_Mode := ''recast''\<rparr>) (ex_loan 41 12 100000) (w_db ex_onward_world)" "w_faults ex_onward_world = []"
    by code_simp+
  from revert_leaves_onward_transfer [OF this] show ?thesis
    by (auto simp: ex_moved_def)
qed

end
