(* ===== verification/Loan_Race.thy ===== *)
theory Loan_Race
  imports Loan_Links
begin

text \<open>
  Two requests that overlap. Under READ COMMITTED (the default isolation level, which
  \<open>db.WithTx\<close> does not change) a statement evaluates its \<open>NOT EXISTS\<close> on the rows committed when it
  starts, and its own rows become visible to others when its transaction commits. So the attach of a
  transaction as an EMI payment and its link as a disbursement credit are two steps each here: the
  read of the guard, and the commit of the rows. The unique indexes are checked at the second step;
  they are per table, so neither sees the other's row.
\<close>

section \<open>Statements in two steps\<close>

definition attach_reads :: "uuid list \<Rightarrow> uuid \<Rightarrow> db \<Rightarrow> uuid list" where
  "attach_reads ids u d = filter (\<lambda>t. \<not> linked u t (loan_disbursements d)) ids"

definition attach_writes :: "uuid \<Rightarrow> uuid list \<Rightarrow> uuid \<Rightarrow> db \<Rightarrow> db_error + nat \<times> db" where
  "attach_writes a ids u d =
     (case insert_links (owns_account u a d) (\<lambda>t. owns_txn u t d) u a ids (loan_attachments d) of
        Inl e \<Rightarrow> Inl e
      | Inr ls \<Rightarrow> Inr (length ids, d\<lparr>loan_attachments := ls\<rparr>))"

definition link_reads :: "uuid \<Rightarrow> uuid \<Rightarrow> db \<Rightarrow> bool" where
  "link_reads t u d \<longleftrightarrow> \<not> linked u t (loan_attachments d)"

definition link_writes :: "uuid \<Rightarrow> uuid \<Rightarrow> uuid \<Rightarrow> bool \<Rightarrow> db \<Rightarrow> db_error + nat \<times> db" where
  "link_writes b t u free d =
     (if free then (case put_disbursement b t u (d\<lparr>loan_attachments := []\<rparr>) of
          Inl e \<Rightarrow> Inl e
        | Inr (n, d') \<Rightarrow> Inr (n, d'\<lparr>loan_attachments := loan_attachments d\<rparr>))
      else Inr (0, d))"

text \<open>Run without interruption, the two steps are the statements of \<open>Loan_Store\<close>.\<close>

lemma attach_uninterrupted: "attach_writes a (attach_reads ids u d) u d = attach_payments a ids u d"
  by (simp add: attach_writes_def attach_reads_def attach_payments_def Let_def)

lemma link_uninterrupted: "link_writes b t u (link_reads t u d) d = put_disbursement b t u d"
  by (auto simp: link_writes_def link_reads_def put_disbursement_def linked_def Let_def owns_account_def
      owns_txn_def)

section \<open>Interleavings\<close>

datatype 'r phase = Ready | Read 'r | Committed | Aborted

type_synonym overlap = "uuid list phase \<times> bool phase \<times> db"

text \<open>One transaction \<open>t\<close> of user \<open>u\<close>: attached to loan \<open>a\<close> by one request, linked as the disbursement
  of loan \<open>b\<close> by the other. A short row count aborts the attach and refuses the link.\<close>

inductive overlaps :: "uuid \<Rightarrow> uuid \<Rightarrow> uuid \<Rightarrow> uuid \<Rightarrow> overlap \<Rightarrow> overlap \<Rightarrow> bool" for u a b t where
  attach_read: "overlaps u a b t (Ready, q, d) (Read (attach_reads [t] u d), q, d)"
| attach_commit: "attach_writes a ids u d = Inr (1, d') \<Longrightarrow> overlaps u a b t (Read ids, q, d) (Committed, q, d')"
| attach_abort: "(\<And>d'. attach_writes a ids u d \<noteq> Inr (1, d')) \<Longrightarrow> overlaps u a b t (Read ids, q, d) (Aborted, q, d)"
| link_read: "overlaps u a b t (p, Ready, d) (p, Read (link_reads t u d), d)"
| link_commit: "link_writes b t u free d = Inr (1, d') \<Longrightarrow> overlaps u a b t (p, Read free, d) (p, Committed, d')"
| link_abort: "(\<And>d'. link_writes b t u free d \<noteq> Inr (1, d')) \<Longrightarrow> overlaps u a b t (p, Read free, d) (p, Aborted, d)"

inductive_cases overlaps_cases: "overlaps u a b t x y"

lemma attach_alone:
  assumes "attach_payments a [t] u d = Inr (1, d1)"
  shows "attach_reads [t] u d = [t]" "owns_account u a d" "owns_txn u t d"
    "attach_writes a [t] u d = Inr (1, d1)" "linked u t (loan_attachments d1)"
    "loan_disbursements d1 = loan_disbursements d" "transactions d1 = transactions d" "accounts d1 = accounts d"
proof -
  have full: "attach_payments a [t] u d = Inr (length [t], d1)" using assms by simp
  note f = attach_payments_full [OF full]
  show r: "attach_reads [t] u d = [t]" using f by (simp add: attach_reads_def)
  show w: "attach_writes a [t] u d = Inr (1, d1)"
    using attach_uninterrupted [of a "[t]" u d] r assms by simp
  show "owns_account u a d" "owns_txn u t d"
    using w by (auto simp: attach_writes_def insert_links_def Let_def split: sum.splits if_splits)
  show "linked u t (loan_attachments d1)" "loan_disbursements d1 = loan_disbursements d"
    "transactions d1 = transactions d" "accounts d1 = accounts d"
    using f by (auto simp: linked_def new_links_def)
qed

lemma put_disbursement_linked:
  assumes "put_disbursement b t u d = Inr (1, d')"
  shows "linked u t (loan_disbursements d')"
proof (cases "\<exists>l \<in> set (loan_disbursements d). lk_UserID l = u \<and> lk_Parent l = b")
  case True
  then obtain l where l: "l \<in> set (loan_disbursements d)" "lk_UserID l = u" "lk_Parent l = b" by blast
  let ?f = "\<lambda>l. if lk_UserID l = u \<and> lk_Parent l = b then l\<lparr>lk_TransactionID := t\<rparr> else l"
  have "loan_disbursements d' = map ?f (loan_disbursements d)"
    using assms True by (auto simp: put_disbursement_def Let_def split: if_splits)
  then have "?f l \<in> set (loan_disbursements d')" using l(1) by auto
  then show ?thesis unfolding linked_def by (rule rev_bexI) (simp add: l)
next
  case False
  then show ?thesis
    using assms by (auto simp: put_disbursement_def Let_def linked_def split: if_splits)
qed

lemma link_alone:
  assumes "put_disbursement b t u d = Inr (1, d2)"
    and "loan_disbursements d1 = loan_disbursements d" "transactions d1 = transactions d" "accounts d1 = accounts d"
  shows "link_reads t u d" "\<exists>d'. link_writes b t u True d1 = Inr (1, d') \<and> linked u t (loan_disbursements d')
    \<and> loan_attachments d' = loan_attachments d1"
proof -
  show "link_reads t u d"
    using assms(1) by (auto simp: put_disbursement_def link_reads_def Let_def split: if_splits)
  obtain d' where d': "put_disbursement b t u (d1\<lparr>loan_attachments := []\<rparr>) = Inr (1, d')"
    using assms by (auto simp: put_disbursement_def owns_account_def owns_txn_def linked_def Let_def
        split: if_splits)
  then show "\<exists>d'. link_writes b t u True d1 = Inr (1, d') \<and> linked u t (loan_disbursements d')
    \<and> loan_attachments d' = loan_attachments d1"
    using put_disbursement_linked [OF d'] by (simp add: link_writes_def)
qed

section \<open>The lost exclusivity\<close>

text \<open>C34. A transaction that could become an EMI payment, and could become a disbursement credit, becomes
  both when the two requests overlap: each reads its guard before the other commits, and both are
  answered with success. One after the other, the second is always refused.\<close>

theorem overlap_breaks_exclusivity:
  assumes "attach_payments a [t] u d = Inr (1, d1)" "put_disbursement b t u d = Inr (1, d2)"
  shows "\<exists>d'. (overlaps u a b t)\<^sup>*\<^sup>* (Ready, Ready, d) (Committed, Committed, d')
    \<and> linked u t (loan_attachments d') \<and> linked u t (loan_disbursements d')"
proof -
  note a = attach_alone [OF assms(1)]
  obtain d' where w: "link_writes b t u True d1 = Inr (1, d')" and l: "linked u t (loan_disbursements d')"
    and la: "loan_attachments d' = loan_attachments d1"
    using link_alone(2) [OF assms(2) a(6-8)] by blast
  have r: "link_reads t u d" using link_alone(1) [OF assms(2) a(6-8)] .
  have "overlaps u a b t (Ready, Ready, d) (Read [t], Ready, d)"
    using attach_read [of u a b t Ready d] a(1) by simp
  also have "(overlaps u a b t)\<^sup>*\<^sup>* (Read [t], Ready, d) (Read [t], Read True, d)"
    using link_read [of u a b t "Read [t]" d] r by auto
  also have "(overlaps u a b t)\<^sup>*\<^sup>* (Read [t], Read True, d) (Committed, Read True, d1)"
    using attach_commit [OF a(4)] by blast
  also have "(overlaps u a b t)\<^sup>*\<^sup>* (Committed, Read True, d1) (Committed, Committed, d')"
    using link_commit [OF w] by blast
  finally have "(overlaps u a b t)\<^sup>*\<^sup>* (Ready, Ready, d) (Committed, Committed, d')" .
  then show ?thesis using a(5) l la by auto
qed

theorem overlap_breaks_exclusivity_witness:
  "\<exists>d'. (overlaps 1 10 12 20)\<^sup>*\<^sup>* (Ready, Ready, ex_db) (Committed, Committed, d')
    \<and> linked 1 20 (loan_attachments d') \<and> linked 1 20 (loan_disbursements d')"
proof -
  obtain d1 d2 where "attach_payments 10 [20] 1 ex_db = Inr (1, d1)" "put_disbursement 12 20 1 ex_db = Inr (1, d2)"
  proof -
    have "attach_payments 10 [20] 1 ex_db = Inr (1, snd (projr (attach_payments 10 [20] 1 ex_db)))"
      "put_disbursement 12 20 1 ex_db = Inr (1, snd (projr (put_disbursement 12 20 1 ex_db)))"
      by code_simp+
    then show ?thesis using that by blast
  qed
  then show ?thesis by (rule overlap_breaks_exclusivity)
qed

end
