(* ===== verification/Recurring_Store.thy ===== *)
theory Recurring_Store
  imports Tables
begin

text \<open>
  The statements the recurring handlers send (\<open>backend/handlers/recurring.go\<close>), as functions on the
  tables. A series stores neither amount nor account nor dates: those are its terms'. \<open>CURRENT_DATE\<close>
  and \<open>time.Now()\<close> are the same day, \<open>now\<close>; \<open>collate\<close> is the database's ordering of names.
\<close>

section \<open>Reads\<close>

definition find_series :: "uuid \<Rightarrow> uuid \<Rightarrow> db \<Rightarrow> series_row option" where
  "find_series u i d = find (\<lambda>s. sr_ID s = i \<and> sr_UserID s = u) (series d)"

definition zero_time :: date where "zero_time = time_date 1 1 1"

definition scanRecurringSeries :: "series_row \<Rightarrow> recurring_series" where
  "scanRecurringSeries s = \<lparr>rs_ID = sr_ID s, rs_Name = sr_Name s, rs_Description = sr_Description s,
     rs_Type = sr_Type s, rs_Frequency = sr_Frequency s, rs_Interval = sr_Interval s,
     rs_CategoryID = sr_CategoryID s, rs_PayeeID = sr_PayeeID s, rs_Active = sr_Active s,
     rs_Notes = sr_Notes s, rs_AccountID = 0, rs_Amount = 0, rs_StartDate = zero_time, rs_EndDate = None,
     rs_NextDueDate = None, rs_MonthlyAmount = 0\<rparr>"

definition in_series :: "uuid \<Rightarrow> uuid \<Rightarrow> uuid \<times> series_term \<Rightarrow> bool" where
  "in_series u i r \<longleftrightarrow> tm_SeriesID (snd r) = i \<and> fst r = u"

definition terms_of :: "uuid \<Rightarrow> uuid \<Rightarrow> db \<Rightarrow> series_term list" where
  "terms_of u i d = sort_key tm_StartDate
     [t. (v, t) \<leftarrow> series_terms d, a \<leftarrow> accounts d, ac_ID a = tm_AccountID t \<and> tm_SeriesID t = i \<and> v = u]"

definition loadRecurringTerms :: "uuid \<Rightarrow> uuid \<Rightarrow> (db, http_error, series_term list) prog" where
  "loadRecurringTerms u i = ask (terms_of u i)"

definition loadRecurringSeries :: "uuid \<Rightarrow> uuid \<Rightarrow> (db, http_error, recurring_series) prog" where
  "loadRecurringSeries u i =
     seq (ask (find_series u i)) (\<lambda>s. case s of
       None \<Rightarrow> fail (not_found ''recurring series not found'')
     | Some s \<Rightarrow> ret (scanRecurringSeries s))"

text \<open>The list's two lateral joins: the term in effect today, and the span of the terms.\<close>

definition effective_term :: "date \<Rightarrow> series_term list \<Rightarrow> series_term option" where
  "effective_term today ts =
     (case sort_key (\<lambda>t. if tm_StartDate t \<le> today then (0 :: int, - tm_StartDate t) else (1, tm_StartDate t)) ts of
        [] \<Rightarrow> None
      | t # _ \<Rightarrow> Some t)"

definition terms_period :: "series_term list \<Rightarrow> date \<times> date option" where
  "terms_period ts =
     (Min (set (map tm_StartDate ts)),
      if list_ex (\<lambda>t. tm_EndDate t = None) ts then None else Some (Max (set (map (the \<circ> tm_EndDate) ts))))"

definition list_row :: "date \<Rightarrow> db \<Rightarrow> series_row \<Rightarrow> (recurring_series \<times> nat) list" where
  "list_row now d s =
     (let ts = map snd (filter (in_series (sr_UserID s) (sr_ID s)) (series_terms d)) in
      case effective_term now ts of
        None \<Rightarrow> []
      | Some et \<Rightarrow>
          (case terms_period ts of (start, en) \<Rightarrow>
             map (\<lambda>_. ((scanRecurringSeries s)\<lparr>rs_AccountID := tm_AccountID et, rs_Amount := tm_Amount et,
                        rs_StartDate := start, rs_EndDate := en\<rparr>,
                      length (filter (\<lambda>l. lk_UserID l = sr_UserID s \<and> lk_Parent l = sr_ID s) (recurring_attachments d))))
               (filter (\<lambda>a. ac_ID a = tm_AccountID et) (accounts d))))"

definition list_series :: "(string \<Rightarrow> int) \<Rightarrow> date \<Rightarrow> uuid \<Rightarrow> db \<Rightarrow> (recurring_series \<times> nat) list" where
  "list_series collate now u d =
     sort_key (\<lambda>r. (if rs_Active (fst r) then 0 else 1 :: int, collate (rs_Name (fst r))))
       (concat (map (list_row now d) (filter (\<lambda>s. sr_UserID s = u) (series d))))"

definition attached_dates :: "uuid \<Rightarrow> uuid \<Rightarrow> db \<Rightarrow> date list" where
  "attached_dates u i d =
     [tx_Date t. l \<leftarrow> recurring_attachments d, t \<leftarrow> transactions d,
        tx_ID t = lk_TransactionID l \<and> lk_Parent l = i \<and> lk_UserID l = u]"

definition txnOrderByDate :: "bool \<Rightarrow> txn_row \<Rightarrow> int \<times> int \<times> nat" where
  "txnOrderByDate asc t =
     (if asc then tx_Date t else - tx_Date t, if tx_Type t = ''credit'' then 0 else 1, tx_ID t)"

definition attached_txns :: "uuid \<Rightarrow> uuid \<Rightarrow> db \<Rightarrow> txn_row list" where
  "attached_txns u i d = sort_key (txnOrderByDate False)
     [t. l \<leftarrow> recurring_attachments d, t \<leftarrow> transactions d, a \<leftarrow> accounts d,
        tx_ID t = lk_TransactionID l \<and> tx_AccountID t = ac_ID a \<and> lk_Parent l = i \<and> lk_UserID l = u]"

text \<open>Stage 1 of the suggestions: the union over the terms of accounts and amounts, and their span.\<close>

definition terms_window :: "series_term list \<Rightarrow> date \<times> date option" where
  "terms_window ts =
     (fold (\<lambda>t m. if dateOnly (tm_StartDate t) < m then dateOnly (tm_StartDate t) else m) ts (dateOnly (tm_StartDate (hd ts))),
      if list_ex (\<lambda>t. tm_EndDate t = None) ts then None
      else fold (\<lambda>t m. case tm_EndDate t of None \<Rightarrow> m
             | Some e \<Rightarrow> (case m of None \<Rightarrow> Some (dateOnly e)
                 | Some x \<Rightarrow> if x < dateOnly e then Some (dateOnly e) else Some x)) ts None)"

definition suggestible :: "series_term list \<Rightarrow> uuid \<Rightarrow> string \<Rightarrow> db \<Rightarrow> txn_row \<Rightarrow> bool" where
  "suggestible ts u ty d t \<longleftrightarrow>
     (case terms_window ts of (minStart, maxEnd) \<Rightarrow>
        tx_UserID t = u \<and> tx_AccountID t \<in> set (map tm_AccountID ts) \<and> tx_Type t = ty \<and>
        tx_Amount t \<in> set (map (\<lambda>t. Abs_amount (tm_Amount t)) ts) \<and> minStart \<le> tx_Date t \<and>
        (case maxEnd of None \<Rightarrow> True | Some e \<Rightarrow> tx_Date t < e) \<and>
        \<not> (\<exists>l \<in> set (recurring_attachments d). lk_TransactionID l = tx_ID t))"

definition candidate_of :: "txn_row \<Rightarrow> candidate" where
  "candidate_of t = \<lparr>cd_ID = tx_ID t, cd_AccountID = tx_AccountID t, cd_Date = tx_Date t,
     cd_Description = tx_Description t, cd_Amount = tx_Amount t, cd_Type = tx_Type t,
     cd_CategoryID = tx_CategoryID t, cd_PayeeID = tx_PayeeID t\<rparr>"

definition suggestion_rows :: "series_term list \<Rightarrow> uuid \<Rightarrow> string \<Rightarrow> db \<Rightarrow> candidate list" where
  "suggestion_rows ts u ty d = map candidate_of (take maxRecurringCandidates (sort_key (txnOrderByDate False)
     [t. t \<leftarrow> transactions d, a \<leftarrow> accounts d, tx_AccountID t = ac_ID a \<and> suggestible ts u ty d t]))"

section \<open>Writes\<close>

definition refs_ok :: "uuid \<Rightarrow> uuid option \<Rightarrow> uuid option \<Rightarrow> db \<Rightarrow> bool" where
  "refs_ok u cat payee d \<longleftrightarrow>
     (case cat of None \<Rightarrow> True
      | Some c \<Rightarrow> \<exists>r \<in> set (categories d). ct_ID r = c \<and> (ct_UserID r = Some u \<or> ct_UserID r = None)) \<and>
     (case payee of None \<Rightarrow> True | Some p \<Rightarrow> \<exists>r \<in> set (payees d). pe_ID r = p \<and> pe_UserID r = u)"

text \<open>\<open>INSERT ... SELECT ... WHERE ... RETURNING\<close>: no row when a reference is not the user's.\<close>

definition insert_series :: "series_row \<Rightarrow> db \<Rightarrow> db_error + bool \<times> db" where
  "insert_series s d =
     (if \<not> refs_ok (sr_UserID s) (sr_CategoryID s) (sr_PayeeID s) d then Inr (False, d)
      else if \<exists>r \<in> set (series d). sr_ID r = sr_ID s \<and> sr_UserID r = sr_UserID s then Inl Unique
      else Inr (True, d\<lparr>series := series d @ [s]\<rparr>))"

definition update_series :: "series_row \<Rightarrow> db \<Rightarrow> db_error + bool \<times> db" where
  "update_series s d =
     (let mine = (\<lambda>r. sr_ID r = sr_ID s \<and> sr_UserID r = sr_UserID s) in
      if \<not> refs_ok (sr_UserID s) (sr_CategoryID s) (sr_PayeeID s) d \<or> \<not> (\<exists>r \<in> set (series d). mine r)
      then Inr (False, d)
      else Inr (True, d\<lparr>series := map (\<lambda>r. if mine r then s else r) (series d)\<rparr>))"

text \<open>Deleting a series cascades to its terms and its attachments.\<close>

definition delete_series :: "uuid \<Rightarrow> uuid \<Rightarrow> db \<Rightarrow> db_error + nat \<times> db" where
  "delete_series u i d =
     (let mine = (\<lambda>r. sr_ID r = i \<and> sr_UserID r = u) in
      if \<not> (\<exists>r \<in> set (series d). mine r) then Inr (0, d)
      else Inr (length (filter mine (series d)),
        d\<lparr>series := filter (\<lambda>r. \<not> mine r) (series d),
          series_terms := filter (\<lambda>r. \<not> in_series u i r) (series_terms d),
          recurring_attachments := filter (\<lambda>l. \<not> (lk_UserID l = u \<and> lk_Parent l = i)) (recurring_attachments d)\<rparr>))"

text \<open>The unique indexes of \<open>recurring_series_terms\<close>: its primary key, and
  \<open>UNIQUE (user_id, series_id, start_date)\<close>. Overlapping terms with different starts pass.\<close>

definition term_clash :: "uuid \<Rightarrow> series_term \<Rightarrow> uuid \<times> series_term \<Rightarrow> bool" where
  "term_clash u t r \<longleftrightarrow> fst r = u \<and>
     (tm_ID (snd r) = tm_ID t \<or> tm_SeriesID (snd r) = tm_SeriesID t \<and> tm_StartDate (snd r) = tm_StartDate t)"

definition insert_term :: "uuid \<Rightarrow> series_term \<Rightarrow> db \<Rightarrow> db_error + nat \<times> db" where
  "insert_term u t d =
     (if \<not> owns_account u (tm_AccountID t) d then Inr (0, d)
      else if list_ex (term_clash u t) (series_terms d) then Inl Unique
      else if find_series u (tm_SeriesID t) d = None then Inl Constraint
      else Inr (1, d\<lparr>series_terms := series_terms d @ [(u, t)]\<rparr>))"

text \<open>\<open>UPDATE recurring_series_terms SET ... WHERE id = .. AND user_id = ..\<close> with the row's new contents.\<close>

definition is_term :: "uuid \<Rightarrow> uuid \<Rightarrow> uuid \<times> series_term \<Rightarrow> bool" where
  "is_term u i r \<longleftrightarrow> tm_ID (snd r) = i \<and> fst r = u"

definition reprice_term :: "uuid \<Rightarrow> uuid \<Rightarrow> cents \<Rightarrow> uuid \<Rightarrow> db \<Rightarrow> db_error + nat \<times> db" where
  "reprice_term u i amount account d =
     (if \<not> owns_account u account d then Inr (0, d)
      else Inr (length (filter (is_term u i) (series_terms d)),
        d\<lparr>series_terms := map (\<lambda>r. if is_term u i r
          then (fst r, (snd r)\<lparr>tm_Amount := amount, tm_AccountID := account\<rparr>) else r) (series_terms d)\<rparr>))"

definition close_term :: "uuid \<Rightarrow> uuid \<Rightarrow> date \<Rightarrow> db \<Rightarrow> db_error + unit \<times> db" where
  "close_term u i en d =
     Inr ((), d\<lparr>series_terms := map (\<lambda>r. if is_term u i r then (fst r, (snd r)\<lparr>tm_EndDate := Some en\<rparr>) else r)
       (series_terms d)\<rparr>)"

definition replace_term :: "uuid \<Rightarrow> series_term \<Rightarrow> db \<Rightarrow> db_error + nat \<times> db" where
  "replace_term u t d =
     (let mine = (\<lambda>r. is_term u (tm_ID t) r \<and> tm_SeriesID (snd r) = tm_SeriesID t) in
      if \<not> owns_account u (tm_AccountID t) d \<or> \<not> list_ex mine (series_terms d) then Inr (0, d)
      else if list_ex (\<lambda>r. \<not> mine r \<and> term_clash u t r) (series_terms d) then Inl Unique
      else Inr (length (filter mine (series_terms d)),
        d\<lparr>series_terms := map (\<lambda>r. if mine r then (u, t) else r) (series_terms d)\<rparr>))"

definition delete_term :: "uuid \<Rightarrow> uuid \<Rightarrow> uuid \<Rightarrow> db \<Rightarrow> db_error + unit \<times> db" where
  "delete_term u i s d =
     Inr ((), d\<lparr>series_terms := filter (\<lambda>r. \<not> (is_term u i r \<and> tm_SeriesID (snd r) = s)) (series_terms d)\<rparr>)"

definition delete_terms :: "uuid \<Rightarrow> uuid \<Rightarrow> db \<Rightarrow> db_error + unit \<times> db" where
  "delete_terms u i d = Inr ((), d\<lparr>series_terms := filter (\<lambda>r. \<not> in_series u i r) (series_terms d)\<rparr>)"

definition attach_recurring :: "uuid \<Rightarrow> uuid list \<Rightarrow> uuid \<Rightarrow> db \<Rightarrow> db_error + nat \<times> db" where
  "attach_recurring i ids u d =
     (case insert_links (find_series u i d \<noteq> None) (\<lambda>t. owns_txn u t d) u i ids (recurring_attachments d) of
        Inl e \<Rightarrow> Inl e
      | Inr ls \<Rightarrow> Inr (length ids, d\<lparr>recurring_attachments := ls\<rparr>))"

definition detach_recurring :: "uuid list \<Rightarrow> uuid \<Rightarrow> db \<Rightarrow> db_error + nat \<times> db" where
  "detach_recurring ids u d =
     Inr (count_links ids u (recurring_attachments d),
          d\<lparr>recurring_attachments := delete_links ids u (recurring_attachments d)\<rparr>)"

section \<open>The loaders in the calculus\<close>

lemma outcomes_load_terms [wp]:
  "Q (terms_of u i d) d \<Longrightarrow> E internal_error d \<Longrightarrow> outcomes (loadRecurringTerms u i) Q E d"
  unfolding loadRecurringTerms_def by (intro wp)

lemma outcomes_load_series [wp]:
  assumes "\<And>s. find_series u i d = Some s \<Longrightarrow> Q (scanRecurringSeries s) d"
    "E internal_error d" "E (not_found ''recurring series not found'') d"
  shows "outcomes (loadRecurringSeries u i) Q E d"
  unfolding loadRecurringSeries_def using assms by (intro wp) auto

end
