(* ===== verification/Recurring_Handlers.thy ===== *)
theory Recurring_Handlers
  imports Recurring_Store
begin

text \<open>
  The recurring endpoints of \<open>backend/handlers/recurring.go\<close>, one definition per handler, each the
  whole handler with its guards in the code's order. \<open>u\<close> is the authenticated user, \<open>now\<close> the day of
  \<open>time.Now()\<close>, \<open>p\<close> and \<open>q\<close> the parsed path parameters and \<open>body\<close> the decoded JSON body (\<open>None\<close> when it
  did not parse).
\<close>

section \<open>Requests and answers\<close>

record create_series_request =
  cs_AccountID :: "uuid option"
  cs_Name :: string
  cs_Description :: string
  cs_Amount :: "cents option"
  cs_Type :: string
  cs_Frequency :: string
  cs_Interval :: int
  cs_StartDate :: string
  cs_EndDate :: string
  cs_CategoryID :: "uuid option"
  cs_PayeeID :: "uuid option"
  cs_Active :: "bool option"
  cs_Notes :: string
  cs_Ranges :: "range_request list"

text \<open>\<open>OptionalUUID\<close> tells an absent field (\<open>None\<close>) from an explicit null (\<open>Some None\<close>).\<close>

record update_series_request =
  us_AccountID :: "uuid option"
  us_Name :: "string option"
  us_Description :: "string option"
  us_Amount :: "cents option"
  us_Type :: "string option"
  us_Frequency :: "string option"
  us_Interval :: "int option"
  us_CategoryID :: "uuid option option"
  us_PayeeID :: "uuid option option"
  us_Active :: "bool option"
  us_Notes :: "string option"
  us_EffectiveDate :: "string option"
  us_Ranges :: "range_request list"

record create_term_request =
  ct_StartDate :: string
  ct_EndDate :: string
  ct_Amount :: cents
  ct_AccountID :: uuid

record update_term_request =
  ut_StartDate :: "string option"
  ut_EndDate :: "string option"
  ut_Amount :: "cents option"
  ut_AccountID :: "uuid option"

record attach_request =
  ra_SeriesID :: uuid
  ra_TransactionIDs :: "uuid list"

record forecast_item =
  fi_Date :: date
  fi_Amount :: cents
  fi_Type :: string
  fi_Matched :: bool

definition errRecurringAccountNotOwned :: db_error where
  "errRecurringAccountNotOwned = Refused ''referenced account not found''"

definition no_rows :: db_error where
  "no_rows = Refused ''no rows in result set''"

definition type_check :: "string \<Rightarrow> (db, http_error, unit) prog" where
  "type_check ty = check (ty = ''debit'' \<or> ty = ''credit'') (bad_request ''type must be 'debit' or 'credit'')"

definition frequency_check :: "string \<Rightarrow> (db, http_error, unit) prog" where
  "frequency_check f = check (isValidRecurringFrequency f)
     (bad_request ''frequency must be one of daily, weekly, monthly, yearly'')"

text \<open>A field of a partial update: the check runs when the field is present.\<close>

definition when_given :: "'a option \<Rightarrow> ('a \<Rightarrow> (db, http_error, unit) prog) \<Rightarrow> (db, http_error, unit) prog" where
  "when_given x f = (case x of None \<Rightarrow> ret () | Some a \<Rightarrow> f a)"

definition given :: "'a option \<Rightarrow> 'a \<Rightarrow> 'a" where
  "given x a = (case x of None \<Rightarrow> a | Some b \<Rightarrow> b)"

section \<open>The list\<close>

definition with_derived :: "date \<Rightarrow> recurring_series \<Rightarrow> recurring_series" where
  "with_derived now s = s\<lparr>rs_NextDueDate := nextRecurringOccurrence s (dateOnly now),
     rs_MonthlyAmount := recurringMonthlyAmount s\<rparr>"

definition GetRecurringSeries ::
  "(string \<Rightarrow> int) \<Rightarrow> date \<Rightarrow> uuid \<Rightarrow> (db, http_error, (recurring_series \<times> nat) list) prog" where
  "GetRecurringSeries collate now u =
     seq (ask (list_series collate now u)) (\<lambda>rows. ret (map (\<lambda>(s, n). (with_derived now s, n)) rows))"

section \<open>Creating a series\<close>

definition new_term :: "uuid \<Rightarrow> uuid \<Rightarrow> parsed_range \<Rightarrow> series_term" where
  "new_term i s r = \<lparr>tm_ID = i, tm_SeriesID = s, tm_StartDate = pr_start r, tm_EndDate = pr_end r,
     tm_Amount = pr_amount r, tm_AccountID = pr_account r\<rparr>"

fun insert_ranges :: "uuid \<Rightarrow> uuid \<Rightarrow> parsed_range list \<Rightarrow> (db, db_error, unit) prog" where
  "insert_ranges u s [] = ret ()"
| "insert_ranges u s (r # rs) =
     seq new_id (\<lambda>i.
     seq (exec (insert_term u (new_term i s r))) (\<lambda>n.
     seq (check (n \<noteq> 0) errRecurringAccountNotOwned) (\<lambda>_.
       insert_ranges u s rs)))"

text \<open>The ranges of the request: the supplied list, or the single legacy triple.\<close>

definition requested_ranges :: "date \<Rightarrow> create_series_request \<Rightarrow> (db, http_error, parsed_range list) prog" where
  "requested_ranges now req =
     (if cs_Ranges req \<noteq> [] then or_400 (parseSeriesRanges now (cs_Ranges req))
      else if trim_space (cs_StartDate req) = [] then
        fail (bad_request ''startDate, accountId and amount (or a ranges list) are required'')
      else case (cs_AccountID req, cs_Amount req) of
        (Some a, Some m) \<Rightarrow>
          seq (check (m > 0) (bad_request ''amount must be positive'')) (\<lambda>_.
          seq (or_400 (parseRecurringDate now (cs_StartDate req))) (\<lambda>start.
          seq (or_400 (parseRecurringEnd now (cs_EndDate req) start)) (\<lambda>en.
            ret [\<lparr>pr_start = start, pr_end = en, pr_amount = m, pr_account = a\<rparr>])))
      | _ \<Rightarrow> fail (bad_request ''startDate, accountId and amount (or a ranges list) are required''))"

definition create_tx :: "series_row \<Rightarrow> parsed_range list \<Rightarrow> (db, db_error, unit) prog" where
  "create_tx s ranges =
     seq (exec (insert_series s)) (\<lambda>ok.
     seq (check ok no_rows) (\<lambda>_.
       insert_ranges (sr_UserID s) (sr_ID s) ranges))"

definition create_error :: "db_error \<Rightarrow> http_error" where
  "create_error e =
     (if e = errRecurringAccountNotOwned then bad_request ''referenced account not found''
      else if e = no_rows then bad_request ''referenced account, category, or payee not found''
      else internal_error)"

definition CreateRecurringSeries ::
  "date \<Rightarrow> uuid \<Rightarrow> create_series_request option \<Rightarrow> (db, http_error, recurring_series) prog" where
  "CreateRecurringSeries now u body =
     seq (bind_json body) (\<lambda>req.
     seq (type_check (cs_Type req)) (\<lambda>_.
     seq (frequency_check (cs_Frequency req)) (\<lambda>_.
     let interval = (if cs_Interval req \<le> 0 then 1 else cs_Interval req) in
     seq (check (interval \<le> 365) (bad_request ''interval must be between 1 and 365'')) (\<lambda>_.
     seq (requested_ranges now req) (\<lambda>ranges.
     let primary = primaryRange ranges (dateOnly now) in
     seq new_id (\<lambda>i.
     let row = \<lparr>sr_ID = i, sr_UserID = u, sr_Name = cs_Name req, sr_Description = cs_Description req,
                sr_Type = cs_Type req, sr_Frequency = cs_Frequency req, sr_Interval = interval,
                sr_CategoryID = cs_CategoryID req, sr_PayeeID = cs_PayeeID req,
                sr_Active = given (cs_Active req) True, sr_Notes = cs_Notes req\<rparr> in
     seq (on_error (with_tx (create_tx row ranges)) create_error) (\<lambda>_.
       ret (with_derived now ((scanRecurringSeries row)\<lparr>rs_StartDate := pr_start (hd ranges),
         rs_EndDate := pr_end (last ranges), rs_AccountID := pr_account primary,
         rs_Amount := pr_amount primary\<rparr>)))))))))"

section \<open>Changing a series\<close>

text \<open>The walk over the terms: the one covering the date and the next one after it.\<close>

fun change_at :: "series_term option \<Rightarrow> series_term list \<Rightarrow> date \<Rightarrow> series_term option \<times> series_term option" where
  "change_at covering [] eff = (covering, None)"
| "change_at covering (t # ts) eff =
     (if eff < dateOnly (tm_StartDate t) then (covering, Some t)
      else if (case tm_EndDate t of None \<Rightarrow> True | Some e \<Rightarrow> eff < dateOnly e) then change_at (Some t) ts eff
      else change_at covering ts eff)"

definition open_change ::
  "uuid \<Rightarrow> uuid \<Rightarrow> date \<Rightarrow> series_term option \<Rightarrow> cents \<Rightarrow> uuid \<Rightarrow> (db, db_error, unit) prog" where
  "open_change u i eff next_term amount account =
     seq new_id (\<lambda>k.
     seq (exec (insert_term u \<lparr>tm_ID = k, tm_SeriesID = i, tm_StartDate = eff,
       tm_EndDate = map_option (\<lambda>t. dateOnly (tm_StartDate t)) next_term, tm_Amount = amount,
       tm_AccountID = account\<rparr>)) (\<lambda>n.
       check (n \<noteq> 0) errRecurringAccountNotOwned))"

definition applyRecurringChange ::
  "uuid \<Rightarrow> uuid \<Rightarrow> series_term list \<Rightarrow> date \<Rightarrow> cents \<Rightarrow> uuid \<Rightarrow> (db, db_error, unit) prog" where
  "applyRecurringChange u i terms eff amount account =
     (let eff = dateOnly eff in
      case change_at None terms eff of (covering, next_term) \<Rightarrow>
        (case covering of
           None \<Rightarrow> open_change u i eff next_term amount account
         | Some t \<Rightarrow>
             if dateOnly (tm_StartDate t) = eff then
               seq (exec (reprice_term u (tm_ID t) amount account)) (\<lambda>n.
                 check (n \<noteq> 0) errRecurringAccountNotOwned)
             else seq (exec (close_term u (tm_ID t) eff)) (\<lambda>_.
               open_change u i eff next_term amount account)))"

definition merge_series :: "update_series_request \<Rightarrow> recurring_series \<Rightarrow> recurring_series" where
  "merge_series req s = s\<lparr>
     rs_AccountID := given (us_AccountID req) (rs_AccountID s), rs_Name := given (us_Name req) (rs_Name s),
     rs_Description := given (us_Description req) (rs_Description s), rs_Amount := given (us_Amount req) (rs_Amount s),
     rs_Type := given (us_Type req) (rs_Type s), rs_Frequency := given (us_Frequency req) (rs_Frequency s),
     rs_Interval := given (us_Interval req) (rs_Interval s),
     rs_CategoryID := given (us_CategoryID req) (rs_CategoryID s),
     rs_PayeeID := given (us_PayeeID req) (rs_PayeeID s), rs_Active := given (us_Active req) (rs_Active s),
     rs_Notes := given (us_Notes req) (rs_Notes s)\<rparr>"

definition merge_checks :: "update_series_request \<Rightarrow> (db, http_error, unit) prog" where
  "merge_checks req =
     seq (when_given (us_Name req) (\<lambda>n. check (trim_space n \<noteq> []) (bad_request ''name must not be empty''))) (\<lambda>_.
     seq (when_given (us_Amount req) (\<lambda>m. check (m > 0) (bad_request ''amount must be positive''))) (\<lambda>_.
     seq (when_given (us_Type req) type_check) (\<lambda>_.
     seq (when_given (us_Frequency req) frequency_check) (\<lambda>_.
       when_given (us_Interval req) (\<lambda>n. check (1 \<le> n \<and> n \<le> 365)
         (bad_request ''interval must be between 1 and 365''))))))"

definition row_of :: "uuid \<Rightarrow> uuid \<Rightarrow> recurring_series \<Rightarrow> series_row" where
  "row_of u i s = \<lparr>sr_ID = i, sr_UserID = u, sr_Name = rs_Name s, sr_Description = rs_Description s,
     sr_Type = rs_Type s, sr_Frequency = rs_Frequency s, sr_Interval = rs_Interval s,
     sr_CategoryID = rs_CategoryID s, sr_PayeeID = rs_PayeeID s, sr_Active = rs_Active s, sr_Notes = rs_Notes s\<rparr>"

definition update_tx ::
  "uuid \<Rightarrow> uuid \<Rightarrow> recurring_series \<Rightarrow> series_term list \<Rightarrow> parsed_range list \<Rightarrow> bool \<Rightarrow> date
    \<Rightarrow> (db, db_error, unit) prog" where
  "update_tx u i s terms newRanges valueChanged eff =
     seq (if newRanges \<noteq> [] then seq (exec (delete_terms u i)) (\<lambda>_. insert_ranges u i newRanges)
          else if valueChanged then applyRecurringChange u i terms eff (rs_Amount s) (rs_AccountID s)
          else ret ()) (\<lambda>_.
     seq (exec (update_series (row_of u i s))) (\<lambda>ok.
       check ok no_rows))"

definition update_error :: "db_error \<Rightarrow> http_error" where
  "update_error e =
     (if e = errRecurringAccountNotOwned then bad_request ''referenced account not found''
      else if e = no_rows then bad_request ''referenced category or payee not found''
      else if e = Unique then bad_request errRecurringRangeOverlap
      else internal_error)"

definition requested_date :: "date \<Rightarrow> string option \<Rightarrow> string + date \<times> bool" where
  "requested_date now s =
     (case s of
        None \<Rightarrow> Inr (dateOnly now, False)
      | Some s \<Rightarrow> if trim_space s = [] then Inr (dateOnly now, False)
          else (case parseRecurringDate now s of Inl e \<Rightarrow> Inl e | Inr d \<Rightarrow> Inr (d, True)))"

definition UpdateRecurringSeries ::
  "date \<Rightarrow> uuid \<Rightarrow> uuid option \<Rightarrow> update_series_request option \<Rightarrow> (db, http_error, recurring_series) prog" where
  "UpdateRecurringSeries now u p body =
     seq (path_id ''invalid id'' p) (\<lambda>i.
     seq (bind_json body) (\<lambda>req.
     seq (loadRecurringSeries u i) (\<lambda>s.
     seq (loadRecurringTerms u i) (\<lambda>terms.
     let orig = deriveRecurringSeries now s terms; s = merge_series req orig in
     seq (merge_checks req) (\<lambda>_.
     seq (if us_Ranges req \<noteq> [] then or_400 (parseSeriesRanges now (us_Ranges req)) else ret []) (\<lambda>newRanges.
     let valueChanged = (newRanges = [] \<and> (rs_Amount s \<noteq> rs_Amount orig \<or> rs_AccountID s \<noteq> rs_AccountID orig)) in
     seq (or_400 (requested_date now (us_EffectiveDate req))) (\<lambda>(eff, explicitEff).
     let early = (valueChanged \<and> eff < dateOnly (rs_StartDate s)) in
     seq (check (\<not> (early \<and> explicitEff)) (bad_request ''effective date must not be before start date'')) (\<lambda>_.
     let eff = (if early then dateOnly (rs_StartDate s) else eff) in
     seq (on_error (with_tx (update_tx u i s terms newRanges valueChanged eff)) update_error) (\<lambda>_.
     seq (loadRecurringTerms u i) (\<lambda>terms'.
       ret (with_derived now (deriveRecurringSeries now s terms'))))))))))))"

definition DeleteRecurringSeries :: "uuid \<Rightarrow> uuid option \<Rightarrow> (db, http_error, unit) prog" where
  "DeleteRecurringSeries u p =
     seq (path_id ''invalid id'' p) (\<lambda>i.
     seq (run_stmt (delete_series u i)) (\<lambda>n.
       check (n \<noteq> 0) (not_found ''recurring series not found'')))"

section \<open>Terms\<close>

definition GetRecurringTerms :: "uuid \<Rightarrow> uuid option \<Rightarrow> (db, http_error, series_term list) prog" where
  "GetRecurringTerms u p =
     seq (path_id ''invalid id'' p) (\<lambda>i.
     seq (loadRecurringSeries u i) (\<lambda>_.
       loadRecurringTerms u i))"

definition term_error :: "db_error \<Rightarrow> http_error" where
  "term_error e =
     (if e = no_rows then bad_request ''referenced account not found''
      else if e = Unique then bad_request errRecurringRangeOverlap
      else internal_error)"

definition CreateRecurringTerm ::
  "date \<Rightarrow> uuid \<Rightarrow> uuid option \<Rightarrow> create_term_request option \<Rightarrow> (db, http_error, series_term) prog" where
  "CreateRecurringTerm now u p body =
     seq (path_id ''invalid id'' p) (\<lambda>i.
     seq (bind_json body) (\<lambda>req.
     seq (check (ct_Amount req > 0) (bad_request ''amount must be positive'')) (\<lambda>_.
     seq (or_400 (parseRecurringDate now (ct_StartDate req))) (\<lambda>start.
     seq (or_400 (parseRecurringEnd now (ct_EndDate req) start)) (\<lambda>en.
     seq (loadRecurringSeries u i) (\<lambda>_.
     seq (loadRecurringTerms u i) (\<lambda>terms.
     seq (check (\<not> recurringTermsOverlap terms start en 0) (bad_request errRecurringRangeOverlap)) (\<lambda>_.
     seq new_id (\<lambda>k.
     let t = \<lparr>tm_ID = k, tm_SeriesID = i, tm_StartDate = start, tm_EndDate = en, tm_Amount = ct_Amount req,
              tm_AccountID = ct_AccountID req\<rparr> in
     seq (on_error (with_tx (seq (exec (insert_term u t)) (\<lambda>n. check (n \<noteq> 0) no_rows))) term_error) (\<lambda>_.
       ret t))))))))))"

definition merge_term :: "date \<Rightarrow> update_term_request \<Rightarrow> series_term \<Rightarrow> (db, http_error, series_term) prog" where
  "merge_term now req t =
     seq (case ut_StartDate req of
            None \<Rightarrow> ret t
          | Some s \<Rightarrow> seq (or_400 (parseRecurringDate now s)) (\<lambda>d. ret (t\<lparr>tm_StartDate := d\<rparr>))) (\<lambda>t.
     seq (case ut_EndDate req of
            None \<Rightarrow> ret t
          | Some s \<Rightarrow> if trim_space s = [] then ret (t\<lparr>tm_EndDate := None\<rparr>)
              else seq (or_400 (parseRecurringDate now s)) (\<lambda>d. ret (t\<lparr>tm_EndDate := Some d\<rparr>))) (\<lambda>t.
     seq (case ut_Amount req of
            None \<Rightarrow> ret t
          | Some m \<Rightarrow> seq (check (m > 0) (bad_request ''amount must be positive'')) (\<lambda>_.
              ret (t\<lparr>tm_Amount := m\<rparr>))) (\<lambda>t.
     ret (case ut_AccountID req of None \<Rightarrow> t | Some a \<Rightarrow> t\<lparr>tm_AccountID := a\<rparr>))))"

definition UpdateRecurringTerm ::
  "date \<Rightarrow> uuid \<Rightarrow> uuid option \<Rightarrow> uuid option \<Rightarrow> update_term_request option \<Rightarrow> (db, http_error, series_term) prog" where
  "UpdateRecurringTerm now u p q body =
     seq (path_id ''invalid id'' p) (\<lambda>i.
     seq (path_id ''invalid term id'' q) (\<lambda>k.
     seq (bind_json body) (\<lambda>req.
     seq (loadRecurringSeries u i) (\<lambda>_.
     seq (loadRecurringTerms u i) (\<lambda>terms. case find (\<lambda>t. tm_ID t = k) terms of
       None \<Rightarrow> fail (not_found ''term not found'')
     | Some current \<Rightarrow>
     seq (merge_term now req current) (\<lambda>merged.
     seq (check (case tm_EndDate merged of None \<Rightarrow> True | Some e \<Rightarrow> dateOnly (tm_StartDate merged) < dateOnly e)
       (bad_request ''end date must be after start date'')) (\<lambda>_.
     seq (check (\<not> recurringTermsOverlap terms (tm_StartDate merged) (tm_EndDate merged) k)
       (bad_request errRecurringRangeOverlap)) (\<lambda>_.
     seq (on_error (with_tx (seq (exec (replace_term u merged)) (\<lambda>n. check (n \<noteq> 0) no_rows))) term_error) (\<lambda>_.
       ret merged)))))))))"

definition DeleteRecurringTerm :: "uuid \<Rightarrow> uuid option \<Rightarrow> uuid option \<Rightarrow> (db, http_error, unit) prog" where
  "DeleteRecurringTerm u p q =
     seq (path_id ''invalid id'' p) (\<lambda>i.
     seq (path_id ''invalid term id'' q) (\<lambda>k.
     seq (loadRecurringSeries u i) (\<lambda>_.
     seq (loadRecurringTerms u i) (\<lambda>terms.
     seq (check (list_ex (\<lambda>t. tm_ID t = k) terms) (not_found ''term not found'')) (\<lambda>_.
     seq (check (length terms \<noteq> 1) (bad_request ''a series must keep at least one range'')) (\<lambda>_.
       on_error (with_tx (exec (delete_term u k i))) (\<lambda>_. internal_error)))))))"

section \<open>Forecast, suggestions and links\<close>

definition forecast_items :: "recurring_series \<Rightarrow> series_term list \<Rightarrow> date list \<Rightarrow> date list \<Rightarrow> forecast_item list" where
  "forecast_items s terms matched occs =
     map (\<lambda>occ. \<lparr>fi_Date = occ,
       fi_Amount = (case recurringTermAt terms occ of None \<Rightarrow> rs_Amount s | Some t \<Rightarrow> tm_Amount t),
       fi_Type = rs_Type s, fi_Matched = (dateOnly occ \<in> set matched)\<rparr>) occs"

definition GetRecurringForecast ::
  "date \<Rightarrow> uuid \<Rightarrow> uuid option \<Rightarrow> string \<Rightarrow> (db, http_error, forecast_item list) prog" where
  "GetRecurringForecast now u p count =
     seq (path_id ''invalid id'' p) (\<lambda>i.
     seq (loadRecurringSeries u i) (\<lambda>s.
     let count = clampQueryInt count defaultForecastCount 1 maxForecastCount in
     seq (ask (attached_dates u i)) (\<lambda>attached.
     seq (loadRecurringTerms u i) (\<lambda>terms.
     let s = deriveRecurringSeries now s terms in
       ret (forecast_items s terms (recurringMatchedOccurrences s attached (recurringMaxDaysOff s))
         (recurringUpcoming s (dateOnly now) count))))))"

definition GetRecurringSuggestions ::
  "date \<Rightarrow> uuid \<Rightarrow> uuid option \<Rightarrow> string \<Rightarrow> (db, http_error, suggestion list) prog" where
  "GetRecurringSuggestions now u p limit =
     seq (path_id ''invalid id'' p) (\<lambda>i.
     seq (loadRecurringSeries u i) (\<lambda>s.
     let limit = clampQueryInt limit defaultRecurringSuggestionLimit 1 maxRecurringSuggestionLimit in
     seq (loadRecurringTerms u i) (\<lambda>terms.
     let s = deriveRecurringSeries now s terms;
         terms = (if terms = [] then [\<lparr>tm_ID = 0, tm_SeriesID = 0, tm_StartDate = zero_time, tm_EndDate = None,
                   tm_Amount = rs_Amount s, tm_AccountID = rs_AccountID s\<rparr>] else terms) in
     seq (ask (suggestion_rows terms u (rs_Type s))) (\<lambda>txns.
       ret (suggestion_page limit (score_candidates s terms txns))))))"

definition GetRecurringTransactions :: "uuid \<Rightarrow> uuid option \<Rightarrow> (db, http_error, txn_row list) prog" where
  "GetRecurringTransactions u p =
     seq (path_id ''invalid id'' p) (\<lambda>i.
     seq (loadRecurringSeries u i) (\<lambda>_.
       ask (attached_txns u i)))"

definition attach_recurring_error :: "db_error \<Rightarrow> http_error" where
  "attach_recurring_error e =
     (if e = Unique then conflict ''one or more transactions are already linked to a recurring series''
      else internal_error)"

definition AttachRecurring :: "uuid \<Rightarrow> attach_request option \<Rightarrow> (db, http_error, nat) prog" where
  "AttachRecurring u body =
     seq (bind_json body) (\<lambda>req. let ids = ra_TransactionIDs req in
     seq (check (ids \<noteq> []) (bad_request ''no transaction ids provided'')) (\<lambda>_.
     seq (check (int (length ids) \<le> maxBulkBatch) (bad_request ''too many transaction ids (max 5000 per request)'')) (\<lambda>_.
     seq (ask (\<lambda>d. find_series u (ra_SeriesID req) d \<noteq> None)) (\<lambda>seriesOwned.
     seq (check seriesOwned (not_found ''recurring series not found'')) (\<lambda>_.
     seq (ask (count_owned ids u)) (\<lambda>owned.
     seq (check (owned = length ids) (bad_request ''one or more transactions not found'')) (\<lambda>_.
     seq (ask (\<lambda>d. count_links ids u (recurring_attachments d))) (\<lambda>already.
     seq (check (already = 0)
       (conflict (dec already @ '' of the selected transactions are already linked to a recurring series - detach them first''))) (\<lambda>_.
       on_error (exec (attach_recurring (ra_SeriesID req) ids u)) attach_recurring_error)))))))))"

definition DetachRecurring :: "uuid \<Rightarrow> uuid list option \<Rightarrow> (db, http_error, nat) prog" where
  "DetachRecurring u body =
     seq (bind_json body) (\<lambda>ids.
     seq (check (ids \<noteq> []) (bad_request ''no transaction ids provided'')) (\<lambda>_.
     seq (check (int (length ids) \<le> maxBulkBatch) (bad_request ''too many transaction ids (max 5000 per request)'')) (\<lambda>_.
       run_stmt (detach_recurring ids u))))"

section \<open>The endpoints together\<close>

datatype recurring_call =
    ListSeries
  | PostSeries "create_series_request option"
  | PutSeries "uuid option" "update_series_request option"
  | DropSeries "uuid option"
  | ListTerms "uuid option"
  | PostTerm "uuid option" "create_term_request option"
  | PutTerm "uuid option" "uuid option" "update_term_request option"
  | DropTerm "uuid option" "uuid option"
  | Forecast "uuid option" string
  | Suggest "uuid option" string
  | ListAttached "uuid option"
  | Attach "attach_request option"
  | Detach "uuid list option"

fun serve_recurring :: "(string \<Rightarrow> int) \<Rightarrow> date \<Rightarrow> uuid \<Rightarrow> recurring_call \<Rightarrow> (db, http_error, unit) prog" where
  "serve_recurring collate now u ListSeries = forget (GetRecurringSeries collate now u)"
| "serve_recurring collate now u (PostSeries b) = forget (CreateRecurringSeries now u b)"
| "serve_recurring collate now u (PutSeries p b) = forget (UpdateRecurringSeries now u p b)"
| "serve_recurring collate now u (DropSeries p) = forget (DeleteRecurringSeries u p)"
| "serve_recurring collate now u (ListTerms p) = forget (GetRecurringTerms u p)"
| "serve_recurring collate now u (PostTerm p b) = forget (CreateRecurringTerm now u p b)"
| "serve_recurring collate now u (PutTerm p q b) = forget (UpdateRecurringTerm now u p q b)"
| "serve_recurring collate now u (DropTerm p q) = forget (DeleteRecurringTerm u p q)"
| "serve_recurring collate now u (Forecast p c) = forget (GetRecurringForecast now u p c)"
| "serve_recurring collate now u (Suggest p l) = forget (GetRecurringSuggestions now u p l)"
| "serve_recurring collate now u (ListAttached p) = forget (GetRecurringTransactions u p)"
| "serve_recurring collate now u (Attach b) = forget (AttachRecurring u b)"
| "serve_recurring collate now u (Detach b) = forget (DetachRecurring u b)"

end
