(* ===== verification/Recurring_Service.thy ===== *)
theory Recurring_Service
  imports Recurring_Handlers Ranges
begin

text \<open>
  What the recurring endpoints guarantee whatever statements fail: a refused request changes nothing,
  and \<open>recurring_invariant\<close>, the contract of a predicate every statement keeps, with its
  interpretations: other users' rows, and the keys and references of the tables.
\<close>

section \<open>Rules for the handlers' own pieces\<close>

lemma outcomes_type_check [wp]:
  "Q () d \<Longrightarrow> (\<And>m. E (bad_request m) d) \<Longrightarrow> outcomes (type_check ty) Q E d"
  unfolding type_check_def by (intro wp)

lemma outcomes_frequency_check [wp]:
  "Q () d \<Longrightarrow> (\<And>m. E (bad_request m) d) \<Longrightarrow> outcomes (frequency_check f) Q E d"
  unfolding frequency_check_def by (intro wp)

lemma outcomes_when_given [wp]:
  "(x = None \<Longrightarrow> Q () d) \<Longrightarrow> (\<And>a. x = Some a \<Longrightarrow> outcomes (f a) Q E d) \<Longrightarrow> outcomes (when_given x f) Q E d"
  by (cases x) (simp_all add: when_given_def outcomes_ret)

lemma outcomes_merge_checks [wp]:
  assumes "(\<And>m. us_Amount req = Some m \<Longrightarrow> 0 < m) \<Longrightarrow> Q () d" "\<And>m. E (bad_request m) d"
  shows "outcomes (merge_checks req) Q E d"
  unfolding merge_checks_def by (intro wp assms) (auto intro: assms)

definition sound_ranges :: "parsed_range list \<Rightarrow> bool" where
  "sound_ranges rs \<longleftrightarrow> ranges_ok rs \<and> rs \<noteq> [] \<and> (\<forall>r \<in> set rs. 0 < pr_amount r)"

lemma outcomes_requested_ranges [wp]:
  assumes "\<And>rs. sound_ranges rs \<Longrightarrow>
      (cs_Ranges req \<noteq> [] \<longrightarrow> parseSeriesRanges now (cs_Ranges req) = Inr rs) \<Longrightarrow> Q rs d"
    "\<And>m. E (bad_request m) d"
  shows "outcomes (requested_ranges now req) Q E d"
proof -
  have "sound_ranges rs" if "parseSeriesRanges now (cs_Ranges req) = Inr rs" for rs
    using parseSeriesRanges_ok [OF that] by (simp add: sound_ranges_def)
  moreover have "sound_ranges [\<lparr>pr_start = st, pr_end = en, pr_amount = m, pr_account = a\<rparr>]"
    if "parseRecurringEnd now (cs_EndDate req) st = Inr en" "0 < m" for st en m a
    using parseRecurringEnd_proper [OF that(1)] that(2) by (simp add: sound_ranges_def ranges_ok_def range_proper_def)
  ultimately show ?thesis
    unfolding requested_ranges_def using assms
    by (auto intro!: wp split: option.splits)
qed

lemma outcomes_merge_term [wp]:
  assumes "\<And>t'. tm_ID t' = tm_ID t \<Longrightarrow> tm_SeriesID t' = tm_SeriesID t \<Longrightarrow>
      (0 < tm_Amount t \<longrightarrow> 0 < tm_Amount t') \<Longrightarrow> Q t' d" "\<And>m. E (bad_request m) d"
  shows "outcomes (merge_term now req t) Q E d"
  unfolding merge_term_def by (intro wp assms) (auto split: option.splits)

lemmas recurring_handler_defs = GetRecurringSeries_def CreateRecurringSeries_def
  UpdateRecurringSeries_def DeleteRecurringSeries_def GetRecurringTerms_def CreateRecurringTerm_def
  UpdateRecurringTerm_def DeleteRecurringTerm_def GetRecurringForecast_def
  GetRecurringSuggestions_def GetRecurringTransactions_def AttachRecurring_def DetachRecurring_def
  Let_def

section \<open>Refusals\<close>

text \<open>Inside a transaction the state an error leaves does not matter.\<close>

lemma outcomes_in_tx: "(\<And>a d'. Q a d') \<Longrightarrow> (\<And>e d'. E e d') \<Longrightarrow> outcomes m Q E d"
  unfolding outcomes_def by (auto split: prod.splits sum.splits)

lemma delete_series_none: "delete_series u i d = Inr (0, d') \<Longrightarrow> d' = d"
  by (auto simp: delete_series_def Let_def filter_empty_conv split: if_splits)

lemmas refused_tx = outcomes_in_tx [where m = "create_tx s rs" for s rs]
  outcomes_in_tx [where m = "update_tx u i s ts rs v eff" for u i s ts rs v eff]

lemma outcomes_recurring_refused:
  "outcomes (serve_recurring collate now u c) (\<lambda>_ _. True) (\<lambda>e d'. status e < 500 \<longrightarrow> d' = d) d"
  by (cases c; simp only: serve_recurring.simps recurring_handler_defs; intro wp refused_tx;
      auto simp: internal_error_def dest: delete_series_none)

section \<open>Invariants of the statements\<close>

locale recurring_invariant =
  fixes u :: uuid and I :: "db \<Rightarrow> bool"
  assumes created: "I d \<Longrightarrow> sr_UserID s = u \<Longrightarrow> insert_series s d = Inr (b, d') \<Longrightarrow> I d'"
    and updated: "I d \<Longrightarrow> sr_UserID s = u \<Longrightarrow> update_series s d = Inr (b, d') \<Longrightarrow> I d'"
    and deleted: "I d \<Longrightarrow> delete_series u i d = Inr (n, d') \<Longrightarrow> I d'"
    and inserted: "I d \<Longrightarrow> tm_ID t \<noteq> 0 \<Longrightarrow> insert_term u t d = Inr (n, d') \<Longrightarrow> I d'"
    and repriced: "I d \<Longrightarrow> reprice_term u i m a d = Inr (n, d') \<Longrightarrow> I d'"
    and closed: "I d \<Longrightarrow> close_term u i en d = Inr (x, d') \<Longrightarrow> I d'"
    and replaced: "I d \<Longrightarrow> replace_term u t d = Inr (n, d') \<Longrightarrow> I d'"
    and removed: "I d \<Longrightarrow> delete_term u i s' d = Inr (x, d') \<Longrightarrow> I d'"
    and cleared: "I d \<Longrightarrow> delete_terms u i d = Inr (x, d') \<Longrightarrow> I d'"
    and attached: "I d \<Longrightarrow> attach_recurring i ids u d = Inr (n, d') \<Longrightarrow> I d'"
    and detached: "I d \<Longrightarrow> detach_recurring ids u d = Inr (n, d') \<Longrightarrow> I d'"
begin

lemma insert_ranges_keep:
  assumes "I d" "\<And>d'. I d' \<Longrightarrow> Q () d'" "\<And>e d'. E e d'"
  shows "outcomes (insert_ranges u s rs) Q E d"
  using assms(1)
proof (induction rs arbitrary: d)
  case Nil
  then show ?case using assms(2) by (auto intro: wp)
next
  case (Cons r rs)
  show ?case
    unfolding insert_ranges.simps
    by (intro wp Cons.IH assms(3)) (erule inserted [OF Cons.prems, rotated], simp add: new_term_def)
qed

lemma change_keeps:
  assumes "I d" "\<And>d'. I d' \<Longrightarrow> Q () d'" "\<And>e d'. E e d'"
  shows "outcomes (applyRecurringChange u i ts eff m a) Q E d"
proof -
  have "outcomes (applyRecurringChange u i ts eff m a) (\<lambda>_. I) (\<lambda>_ _. True) d"
    unfolding applyRecurringChange_def open_change_def Let_def
    by (intro wp TrueI)
      (use assms(1) in \<open>auto elim!: inserted [rotated 2] repriced [rotated] dest: closed\<close>)
  then show ?thesis by (rule outcomes_mono) (use assms(2,3) in auto)
qed

lemma create_keeps:
  assumes "I d" "sr_UserID s = u" "\<And>d'. I d' \<Longrightarrow> Q () d'" "\<And>e d'. E e d'"
  shows "outcomes (create_tx s rs) Q E d"
  unfolding create_tx_def assms(2)
  by (intro wp assms(4) insert_ranges_keep) (use assms created in auto)

lemma update_keeps:
  assumes "I d" "\<And>d'. I d' \<Longrightarrow> Q () d'" "\<And>e d'. E e d'"
  shows "outcomes (update_tx u i s ts rs v eff) Q E d"
proof -
  have upd: "update_series (row_of u i s) d1 = Inr (b, d2) \<Longrightarrow> I d1 \<Longrightarrow> I d2" for d1 b d2
    using updated [of d1 "row_of u i s"] by (simp add: row_of_def)
  show ?thesis
    unfolding update_tx_def
    by (intro wp assms(3) insert_ranges_keep change_keeps) (use assms cleared in \<open>auto dest: upd\<close>)
qed

lemmas single_statements = deleted replaced removed attached detached

lemma serve_keeps: "I d \<Longrightarrow> outcomes (serve_recurring collate now u c) (\<lambda>_. I) (\<lambda>_. I) d"
  by (cases c; simp only: serve_recurring.simps recurring_handler_defs;
      intro wp create_keeps update_keeps;
      (assumption | erule (1) single_statements | (erule inserted [rotated 2], assumption, simp)
        | (simp; fail)))

lemma step_keeps: "I (w_db w) \<Longrightarrow> serve_recurring collate now u c w = (r, w') \<Longrightarrow> I (w_db w')"
  using outcomes_elim [OF serve_keeps] by (cases r) fastforce+

end

section \<open>Tenancy\<close>

lemma others_filtered:
  assumes "\<And>s. sr_UserID s \<noteq> u \<Longrightarrow> k1 s" "\<And>r. fst r \<noteq> u \<Longrightarrow> k2 r" "\<And>l. lk_UserID l \<noteq> u \<Longrightarrow> k3 l"
  shows "others u (d\<lparr>series := filter k1 (series d), series_terms := filter k2 (series_terms d),
      recurring_attachments := filter k3 (recurring_attachments d)\<rparr>) = others u d"
    and "others u (d\<lparr>series_terms := filter k2 (series_terms d)\<rparr>) = others u d"
    and "others u (d\<lparr>recurring_attachments := filter k3 (recurring_attachments d)\<rparr>) = others u d"
  unfolding others_def by (simp_all add: assms filter_filter_same del: filter_filter)

lemma others_mapped:
  assumes "\<And>r. fst r \<noteq> u \<Longrightarrow> f r = r" "\<And>r. fst r = u \<Longrightarrow> fst (f r) = u"
  shows "others u (d\<lparr>series_terms := map f (series_terms d)\<rparr>) = others u d"
proof -
  have "filter (\<lambda>r. fst r \<noteq> u) (map f rs) = filter (\<lambda>r. fst r \<noteq> u) rs" for rs
    using assms by (induction rs) auto
  then show ?thesis by (simp add: others_def)
qed

lemma others_recurring:
  shows "sr_UserID s = u \<Longrightarrow> insert_series s d = Inr (b, d') \<Longrightarrow> others u d' = others u d"
    and "sr_UserID s = u \<Longrightarrow> update_series s d = Inr (b, d') \<Longrightarrow> others u d' = others u d"
    and "delete_series u i d = Inr (n, d') \<Longrightarrow> others u d' = others u d"
    and "insert_term u t d = Inr (n, d') \<Longrightarrow> others u d' = others u d"
    and "reprice_term u i m a d = Inr (n, d') \<Longrightarrow> others u d' = others u d"
    and "close_term u i en d = Inr (x, d') \<Longrightarrow> others u d' = others u d"
    and "replace_term u t d = Inr (n, d') \<Longrightarrow> others u d' = others u d"
    and "delete_term u i s' d = Inr (x, d') \<Longrightarrow> others u d' = others u d"
    and "delete_terms u i d = Inr (x, d') \<Longrightarrow> others u d' = others u d"
    and "attach_recurring i ids u d = Inr (n, d') \<Longrightarrow> others u d' = others u d"
    and "detach_recurring ids u d = Inr (n, d') \<Longrightarrow> others u d' = others u d"
proof -
  show "sr_UserID s = u \<Longrightarrow> insert_series s d = Inr (b, d') \<Longrightarrow> others u d' = others u d"
    by (auto simp: insert_series_def others_def split: if_splits)
  show "sr_UserID s = u \<Longrightarrow> update_series s d = Inr (b, d') \<Longrightarrow> others u d' = others u d"
    by (auto simp: update_series_def Let_def others_def filter_map_same split: if_splits)
  show "insert_term u t d = Inr (n, d') \<Longrightarrow> others u d' = others u d"
    by (auto simp: insert_term_def others_def split: if_splits)
  show "attach_recurring i ids u d = Inr (n, d') \<Longrightarrow> others u d' = others u d"
    by (auto simp: attach_recurring_def others_def filter_mine_new_links split: sum.splits
        dest!: insert_links_ok(1))
qed (auto simp: delete_series_def delete_term_def delete_terms_def detach_recurring_def delete_links_def
    reprice_term_def close_term_def replace_term_def Let_def in_series_def is_term_def
    simp del: de_Morgan_conj intro!: others_filtered others_mapped split: if_splits)

interpretation recurring_tenancy: recurring_invariant u "\<lambda>d. others u d = others u d0" for u d0
  by unfold_locales (drule others_recurring [where u = u, rotated -1]; simp)+

end
