(* ===== verification/Recurring_Terms.thy ===== *)
theory Recurring_Terms
  imports Recurring_Books
begin

text \<open>
  What the recurring handlers keep beyond the schema: the terms of a series are non-empty intervals that
  share no day, and a series has at least one term (\<open>series_books\<close>). The list a handler loads is then
  well formed (\<open>terms_ok\<close>), which is what the resolvers of \<open>Terms\<close> rely on. The lemmas show what each
  write does to the list, and that every request keeps the invariant.
\<close>

section \<open>The invariant\<close>

definition apart :: "series_term \<Rightarrow> series_term \<Rightarrow> bool" where
  "apart a b \<longleftrightarrow> ends_by (tm_EndDate a) (tm_StartDate b) \<or> ends_by (tm_EndDate b) (tm_StartDate a)"

abbreviation proper_term :: "series_term \<Rightarrow> bool" where
  "proper_term t \<equiv> proper (tm_StartDate t) (tm_EndDate t)"

definition terms_apart :: "db \<Rightarrow> bool" where
  "terms_apart d \<longleftrightarrow> (\<forall>r \<in> set (series_terms d). proper_term (snd r) \<and>
     (\<forall>q \<in> set (series_terms d). term_series r = term_series q \<longrightarrow> r \<noteq> q \<longrightarrow> apart (snd r) (snd q)))"

definition all_have_terms :: "db \<Rightarrow> bool" where
  "all_have_terms d \<longleftrightarrow> series_key ` set (series d) \<subseteq> term_series ` set (series_terms d)"

definition series_books :: "db \<Rightarrow> bool" where
  "series_books d \<longleftrightarrow> recurring_keys d \<and> terms_apart d \<and> all_have_terms d"

lemma apart_sym: "apart a b \<Longrightarrow> apart b a"
  by (auto simp: apart_def)

lemma apart_iff:
  "proper_term a \<Longrightarrow> proper_term b \<Longrightarrow> apart a b \<longleftrightarrow> \<not> (\<exists>x. covers a x \<and> covers b x)"
  using span_disjoint_iff [of "tm_StartDate a" "tm_EndDate a" "tm_StartDate b" "tm_EndDate b"]
  by (auto simp: apart_def)

section \<open>The loaded list\<close>

lemma concat_unique:
  assumes "distinct (map k xs)" "i \<in> k ` set xs"
  shows "concat (map (\<lambda>x. if k x = i \<and> P then [t] else []) xs) = (if P then [t] else [])"
  using assms
proof (induction xs)
  case (Cons x xs)
  show ?case
  proof (cases "k x = i")
    case True
    have "concat (map (\<lambda>x. if k x = i \<and> P then [t] else []) xs) = []"
      using Cons.prems(1) True by (auto simp: image_iff)
    then show ?thesis using True by simp
  next
    case False
    then show ?thesis using Cons by simp
  qed
qed simp

lemma terms_of_rows:
  assumes "recurring_keys d"
  shows "terms_of u i d = sort_key tm_StartDate (map snd (filter (in_series u i) (series_terms d)))"
proof -
  have acc: "distinct (map ac_ID (accounts d))" using assms by (simp add: recurring_keys_def)
  have held: "tm_AccountID (snd r) \<in> ac_ID ` set (accounts d)" if "r \<in> set (series_terms d)" for r
    using keys_owned [OF assms that] by (force simp: owns_account_def)
  have "concat (map (\<lambda>(v, t). concat (map (\<lambda>a. if ac_ID a = tm_AccountID t \<and> tm_SeriesID t = i \<and> v = u
        then [t] else []) (accounts d))) rs) = map snd (filter (in_series u i) rs)"
    if "set rs \<subseteq> set (series_terms d)" for rs
    using that
  proof (induction rs)
    case (Cons r rs)
    obtain v t where r: "r = (v, t)" by (cases r)
    have "tm_AccountID t \<in> ac_ID ` set (accounts d)"
      using Cons.prems held [of "(v, t)"] by (simp add: r)
    from concat_unique [OF acc this, of "tm_SeriesID t = i \<and> v = u" t] show ?case
      using Cons by (cases "tm_SeriesID t = i \<and> v = u") (auto simp: in_series_def r)
  qed simp
  then show ?thesis by (simp add: terms_of_def)
qed

lemma set_terms_of:
  "recurring_keys d \<Longrightarrow> t \<in> set (terms_of u i d) \<longleftrightarrow> (u, t) \<in> set (series_terms d) \<and> tm_SeriesID t = i"
  by (force simp: terms_of_rows in_series_def)

lemma distinct_map_sort: "distinct (map f (sort_key g xs)) \<longleftrightarrow> distinct (map f xs)"
  by (simp add: distinct_map)

lemma distinct_terms_of:
  assumes "recurring_keys d"
  shows "distinct (map tm_ID (terms_of u i d))"
proof -
  have "distinct (map tm_ID (map snd (filter (in_series u i) rs)))"
    if "distinct (map term_key rs)" for rs
    using that by (induction rs) (auto simp: in_series_def term_key_def image_iff)
  then have "distinct (map tm_ID (map snd (filter (in_series u i) (series_terms d))))"
    using assms by (simp add: recurring_keys_def)
  then show ?thesis
    unfolding terms_of_rows [OF assms] distinct_map_sort .
qed

lemma terms_ok_sort:
  assumes "distinct ts" "\<And>t. t \<in> set ts \<Longrightarrow> proper_term t"
    "\<And>a b. a \<in> set ts \<Longrightarrow> b \<in> set ts \<Longrightarrow> a \<noteq> b \<Longrightarrow> apart a b"
  shows "terms_ok (sort_key tm_StartDate ts)"
proof -
  let ?s = "sort_key tm_StartDate ts"
  have "ends_by (tm_EndDate (?s ! i)) (tm_StartDate (?s ! j))" if ij: "i < j" "j < length ?s" for i j
  proof -
    have in_ts: "?s ! i \<in> set ts" "?s ! j \<in> set ts"
      using ij nth_mem [of i ?s] nth_mem [of j ?s] by simp_all
    have "?s ! i \<noteq> ?s ! j"
      using assms(1) ij nth_eq_iff_index_eq [of ?s i j] by simp
    moreover have "tm_StartDate (?s ! i) \<le> tm_StartDate (?s ! j)"
      using sorted_sort_key [of tm_StartDate ts] ij by (simp add: sorted_iff_nth_mono_less)
    ultimately show ?thesis
      using assms(3) [OF in_ts] ends_by_start [OF assms(2) [OF in_ts(2)], of "tm_StartDate (?s ! i)"]
      by (auto simp: apart_def)
  qed
  then show ?thesis using assms(2) by (simp add: terms_ok_def sorted_wrt_iff_nth_less)
qed

lemma loaded_terms_ok:
  assumes "recurring_keys d" "terms_apart d"
  shows "terms_ok (terms_of u i d)"
proof -
  let ?ts = "map snd (filter (in_series u i) (series_terms d))"
  have mem: "t \<in> set ?ts \<longleftrightarrow> (u, t) \<in> set (series_terms d) \<and> tm_SeriesID t = i" for t
    using set_terms_of [OF assms(1), of t u i] by (simp add: terms_of_rows [OF assms(1)])
  have "distinct (map tm_ID ?ts)"
    using distinct_terms_of [OF assms(1), of u i] unfolding terms_of_rows [OF assms(1)] distinct_map_sort .
  then have "distinct ?ts" by (metis distinct_map)
  then show ?thesis
    unfolding terms_of_rows [OF assms(1)]
  proof (rule terms_ok_sort)
    fix a b assume "a \<in> set ?ts" "b \<in> set ?ts" "a \<noteq> b"
    then show "apart a b"
      using assms(2) unfolding mem terms_apart_def term_series_def by fastforce
  next
    fix t assume "t \<in> set ?ts"
    then show "proper_term t" using assms(2) unfolding mem terms_apart_def by fastforce
  qed
qed

lemma books_terms_ok: "series_books d \<Longrightarrow> terms_ok (terms_of u i d)"
  by (simp add: series_books_def loaded_terms_ok)

lemma terms_of_empty: "recurring_keys d \<Longrightarrow> terms_of u i d = [] \<longleftrightarrow> (u, i) \<notin> term_series ` set (series_terms d)"
proof -
  assume k: "recurring_keys d"
  have "terms_of u i d = [] \<longleftrightarrow> (\<forall>t. t \<notin> set (terms_of u i d))" by (cases "terms_of u i d") auto
  then show ?thesis unfolding set_terms_of [OF k] by (force simp: term_series_def)
qed

lemma books_has_terms: "series_books d \<Longrightarrow> find_series u i d = Some s \<Longrightarrow> terms_of u i d \<noteq> []"
  using find_series_iff [of u i d] by (auto simp: series_books_def terms_of_empty all_have_terms_def)

section \<open>Writes\<close>

lemma apart_insert:
  assumes "terms_apart d" "proper_term t"
    "\<And>q. q \<in> set (series_terms d) \<Longrightarrow> term_series q = term_series (u, t) \<Longrightarrow> apart (snd q) t"
  shows "terms_apart (d\<lparr>series_terms := series_terms d @ [(u, t)]\<rparr>)"
  using assms apart_sym unfolding terms_apart_def by auto

lemma apart_drop: "terms_apart d \<Longrightarrow> terms_apart (d\<lparr>series_terms := filter p (series_terms d)\<rparr>)"
  by (simp add: terms_apart_def)

lemma apart_cong: "series_terms d' = series_terms d \<Longrightarrow> terms_apart d' = terms_apart d"
  by (simp add: terms_apart_def)

text \<open>Rewriting the one term of a key.\<close>

lemma apart_rewrite:
  assumes "terms_apart d" "recurring_keys d" "(u, t) \<in> set (series_terms d)"
    "tm_ID t' = tm_ID t" "tm_SeriesID t' = tm_SeriesID t" "proper_term t'"
    "\<And>q. q \<in> set (series_terms d) \<Longrightarrow> term_series q = term_series (u, t) \<Longrightarrow> q \<noteq> (u, t) \<Longrightarrow> apart (snd q) t'"
  shows "terms_apart (d\<lparr>series_terms := map (\<lambda>r. if r = (u, t) then (u, t') else r) (series_terms d)\<rparr>)"
proof -
  have "term_series (u, t') = term_series (u, t)" by (simp add: term_series_def assms(5))
  then show ?thesis
    using assms(1,3,6,7) apart_sym unfolding terms_apart_def by (auto 0 3)
qed

lemma the_term:
  assumes "recurring_keys d" "(u, t) \<in> set (series_terms d)" "r \<in> set (series_terms d)"
  shows "is_term u (tm_ID t) r \<longleftrightarrow> r = (u, t)"
proof -
  have "inj_on term_key (set (series_terms d))"
    using assms(1) by (simp add: recurring_keys_def distinct_map)
  then have "term_key r = term_key (u, t) \<longleftrightarrow> r = (u, t)"
    using assms(2,3) by (auto dest: inj_onD)
  then show ?thesis by (simp add: is_term_key term_key_def)
qed

end
