(* ===== verification/Recurring_Changes.thy ===== *)
theory Recurring_Changes
  imports Recurring_Terms
begin

text \<open>
  What the two kinds of edit of \<open>UpdateRecurringSeries\<close> do to a series' terms: replacing the list by the
  request's ranges, and recording one amount or account change from a date on
  (\<open>applyRecurringChange\<close>).
\<close>

section \<open>Storing ranges\<close>

definition range_of :: "series_term \<Rightarrow> parsed_range" where
  "range_of t = \<lparr>pr_start = tm_StartDate t, pr_end = tm_EndDate t, pr_amount = tm_Amount t,
     pr_account = tm_AccountID t\<rparr>"

lemma range_of_new [simp]: "range_of (new_term i s r) = r"
  by (simp add: range_of_def new_term_def)

lemma new_term_simps [simp]:
  "tm_ID (new_term i s r) = i" "tm_SeriesID (new_term i s r) = s" "tm_StartDate (new_term i s r) = pr_start r"
  "tm_EndDate (new_term i s r) = pr_end r" "tm_AccountID (new_term i s r) = pr_account r"
  by (simp_all add: new_term_def)

lemma ranges_ok_Cons:
  "ranges_ok (r # rs) \<longleftrightarrow> (\<forall>q \<in> set rs. ends_by (pr_end r) (pr_start q)) \<and> range_proper r \<and> ranges_ok rs"
  by (auto simp: ranges_ok_def)

text \<open>The rows of a series' ranges, appended to the table.\<close>

definition stores :: "uuid \<Rightarrow> uuid \<Rightarrow> parsed_range list \<Rightarrow> db \<Rightarrow> db \<Rightarrow> bool" where
  "stores u s rs d d' \<longleftrightarrow> (\<exists>ts. d' = d\<lparr>series_terms := series_terms d @ map (Pair u) ts\<rparr> \<and>
     map range_of ts = rs \<and> (\<forall>t \<in> set ts. tm_SeriesID t = s))"

lemma stores_Nil: "stores u s [] d d"
  unfolding stores_def by (rule exI [of _ "[]"]) simp

lemma stores_Cons:
  assumes "tm_SeriesID t = s" "stores u s rs (d\<lparr>series_terms := series_terms d @ [(u, t)]\<rparr>) d'"
  shows "stores u s (range_of t # rs) d d'"
proof -
  from assms(2) obtain ts where "d' = d\<lparr>series_terms := series_terms d @ map (Pair u) (t # ts)\<rparr>"
    "map range_of ts = rs" "\<forall>t \<in> set ts. tm_SeriesID t = s"
    by (auto simp: stores_def)
  then show ?thesis unfolding stores_def using assms(1) by (intro exI [of _ "t # ts"]) simp
qed

text \<open>The rows stored already end before the ranges still to come.\<close>

definition room_for :: "uuid \<times> uuid \<Rightarrow> parsed_range list \<Rightarrow> db \<Rightarrow> bool" where
  "room_for k rs d \<longleftrightarrow> (\<forall>q \<in> set (series_terms d). term_series q = k \<longrightarrow>
     (\<forall>r \<in> set rs. ends_by (tm_EndDate (snd q)) (pr_start r)))"

lemma outcomes_insert_ranges:
  assumes "recurring_keys d" "terms_apart d" "room_for (u, s) rs d" "ranges_ok rs"
    and "\<And>d'. recurring_keys d' \<Longrightarrow> terms_apart d' \<Longrightarrow> stores u s rs d d' \<Longrightarrow> Q () d'"
    and "\<And>e d'. E e d'"
  shows "outcomes (insert_ranges u s rs) Q E d"
  using assms(1-5)
proof (induction rs arbitrary: d)
  case Nil
  then show ?case by (auto intro!: wp simp: stores_Nil)
next
  case (Cons r rs)
  have step: "outcomes (insert_ranges u s rs) Q E d'"
    if i: "i \<noteq> 0" and ins: "insert_term u (new_term i s r) d = Inr (n, d')" and n: "n \<noteq> 0" for i n d'
  proof -
    let ?t = "new_term i s r"
    have d': "d' = d\<lparr>series_terms := series_terms d @ [(u, ?t)]\<rparr>"
      using ins n by (elim insert_term_Inr) simp_all
    have key: "term_series (u, ?t) = (u, s)" by (simp add: term_series_def)
    have keys: "recurring_keys d'"
      using keys_inserted [OF Cons.prems(1) _ ins] i by simp
    have "apart (snd q) ?t" if "q \<in> set (series_terms d)" "term_series q = (u, s)" for q
      using Cons.prems(3) that by (simp add: room_for_def apart_def)
    then have apart: "terms_apart d'"
      unfolding d' using Cons.prems(2,4) key
      by (intro apart_insert) (simp_all add: ranges_ok_Cons range_proper_def)
    have room: "room_for (u, s) rs d'"
      using Cons.prems(3,4) by (auto simp: room_for_def d' ranges_ok_Cons)
    show ?thesis
    proof (rule Cons.IH [OF keys apart room])
      fix d2 assume "recurring_keys d2" "terms_apart d2" "stores u s rs d' d2"
      then show "Q () d2"
        using stores_Cons [of ?t s u rs d d2] Cons.prems(5) by (simp add: d')
    qed (use Cons.prems(4) in \<open>simp add: ranges_ok_Cons\<close>)
  qed
  show ?case
    unfolding insert_ranges.simps by (intro wp assms(6)) (rule step)
qed

lemma stored_terms:
  assumes "recurring_keys d'" "stores u s rs d d1" "series_terms d' = series_terms d1"
    "(u, s) \<notin> term_series ` set (series_terms d)" "ranges_ok rs"
  shows "map range_of (terms_of u s d') = rs"
proof -
  obtain ts where d': "series_terms d' = series_terms d @ map (Pair u) ts" and ts: "map range_of ts = rs"
    and s: "\<forall>t \<in> set ts. tm_SeriesID t = s"
    using assms(2,3) by (auto simp: stores_def)
  have "filter (in_series u s) (series_terms d) = []"
    using assms(4) by (auto simp: filter_empty_conv in_series_key image_iff)
  moreover have "filter (in_series u s) (map (Pair u) ts) = map (Pair u) ts"
    using s by (auto simp: in_series_def)
  ultimately have rows: "map snd (filter (in_series u s) (series_terms d')) = ts"
    by (simp add: d' comp_def)
  have "sorted_wrt (<) (map pr_start rs)"
    using ranges_ok_starts [OF assms(5)] by (simp add: sorted_wrt_map)
  moreover have "map pr_start rs = map tm_StartDate ts"
    unfolding ts [symmetric] by (simp add: range_of_def)
  ultimately have "sorted (map tm_StartDate ts)"
    using strict_sorted_imp_sorted by metis
  then have "sort_key tm_StartDate ts = ts"
    by (rule sort_key_id_if_sorted)
  then show ?thesis
    unfolding terms_of_rows [OF assms(1)] rows using ts by simp
qed

section \<open>One change of amount or account\<close>

text \<open>The amount and account in force on a day, none in a gap.\<close>

definition priced :: "series_term list \<Rightarrow> date \<Rightarrow> (cents \<times> uuid) option" where
  "priced ts x = map_option (\<lambda>t. (tm_Amount t, tm_AccountID t)) (recurringTermContaining ts x)"

lemma priced_mem:
  "terms_ok ts \<Longrightarrow> t \<in> set ts \<Longrightarrow> covers t x \<Longrightarrow> priced ts x = Some (tm_Amount t, tm_AccountID t)"
  using recurringTermContaining_iff [of ts x t] by (simp add: priced_def)

lemma priced_none: "terms_ok ts \<Longrightarrow> (\<And>t. t \<in> set ts \<Longrightarrow> \<not> covers t x) \<Longrightarrow> priced ts x = None"
  using recurringTermContaining_iff [of ts x] by (cases "recurringTermContaining ts x") (auto simp: priced_def)

lemma ends_by_simps [simp]: "ends_by None st = False" "ends_by (Some e) st = (e \<le> st)"
  by (simp_all add: ends_by_def)

definition next_start :: "series_term list \<Rightarrow> date \<Rightarrow> date option" where
  "next_start ts eff = map_option tm_StartDate (find (\<lambda>t. eff < tm_StartDate t) ts)"

lemma next_start_ends:
  assumes "terms_ok ts"
  shows "proper eff (next_start ts eff)"
    "q \<in> set ts \<Longrightarrow> eff < tm_StartDate q \<Longrightarrow> ends_by (next_start ts eff) (tm_StartDate q)"
proof -
  have "proper eff (next_start ts eff) \<and>
      (\<forall>q \<in> set ts. eff < tm_StartDate q \<longrightarrow> ends_by (next_start ts eff) (tm_StartDate q))"
    using assms
  proof (induction ts)
    case (Cons t ts)
    then show ?case
      using ends_by_start [of "tm_StartDate t" "tm_EndDate t"]
      by (auto simp: next_start_def terms_ok_Cons proper_def intro: less_imp_le)
  qed (simp add: next_start_def proper_def)
  then show "proper eff (next_start ts eff)"
    "q \<in> set ts \<Longrightarrow> eff < tm_StartDate q \<Longrightarrow> ends_by (next_start ts eff) (tm_StartDate q)" by auto
qed

lemma change_at_spec:
  assumes "terms_ok ts"
  shows "change_at c ts eff =
    (case recurringTermContaining ts eff of None \<Rightarrow> c | Some t \<Rightarrow> Some t, find (\<lambda>t. eff < tm_StartDate t) ts)"
  using assms
proof (induction ts arbitrary: c)
  case (Cons t ts)
  show ?case
  proof (cases "covers t eff")
    case True
    have "recurringTermContaining ts eff = None"
    proof (cases ts)
      case (Cons q qs)
      then have "ends_by (tm_EndDate t) (tm_StartDate q)" using Cons.prems by (simp add: terms_ok_Cons)
      then show ?thesis using True Cons by (auto simp: in_span ends_by_def split: option.splits)
    qed simp
    then show ?thesis using True Cons by (auto simp: in_span terms_ok_Cons split: option.splits)
  next
    case False
    then show ?thesis using Cons by (auto simp: in_span terms_ok_Cons split: option.splits)
  qed
qed simp

text \<open>Until when a change from \<open>eff\<close> holds: to the end of the term that starts on that day, otherwise to
  the start of the next term, whatever the end of the term covering the day was.\<close>

definition change_until :: "series_term list \<Rightarrow> date \<Rightarrow> date option" where
  "change_until ts eff =
     (case recurringTermContaining ts eff of
        Some t \<Rightarrow> if tm_StartDate t = eff then tm_EndDate t else next_start ts eff
      | None \<Rightarrow> next_start ts eff)"

definition repriced :: "uuid \<Rightarrow> uuid \<Rightarrow> date \<Rightarrow> cents \<Rightarrow> uuid \<Rightarrow> db \<Rightarrow> db \<Rightarrow> bool" where
  "repriced u i eff m a d d' \<longleftrightarrow>
     (\<exists>ts. d' = d\<lparr>series_terms := ts\<rparr> \<and>
        filter (\<lambda>r. term_series r \<noteq> (u, i)) ts = filter (\<lambda>r. term_series r \<noteq> (u, i)) (series_terms d) \<and>
        term_series ` set (series_terms d) \<subseteq> term_series ` set ts) \<and>
     (\<forall>x. priced (terms_of u i d') x =
        (if x \<in> span eff (change_until (terms_of u i d) eff) then Some (m, a) else priced (terms_of u i d) x))"

text \<open>The list after rewriting one row, and after adding one.\<close>

definition rewrite_row :: "uuid \<Rightarrow> series_term \<Rightarrow> series_term \<Rightarrow> db \<Rightarrow> db" where
  "rewrite_row u t t' d = d\<lparr>series_terms := map (\<lambda>r. if r = (u, t) then (u, t') else r) (series_terms d)\<rparr>"

definition add_row :: "uuid \<Rightarrow> series_term \<Rightarrow> db \<Rightarrow> db" where
  "add_row u t d = d\<lparr>series_terms := series_terms d @ [(u, t)]\<rparr>"

lemma rewrite_rowI:
  assumes "recurring_keys d" "(u, t) \<in> set (series_terms d)" "f (u, t) = (u, t')"
  shows "d\<lparr>series_terms := map (\<lambda>r. if is_term u (tm_ID t) r then f r else r) (series_terms d)\<rparr> = rewrite_row u t t' d"
proof -
  have "map (\<lambda>r. if is_term u (tm_ID t) r then f r else r) (series_terms d) =
      map (\<lambda>r. if r = (u, t) then (u, t') else r) (series_terms d)"
    by (rule map_cong [OF refl]) (use the_term [OF assms(1,2)] assms(3) in auto)
  then show ?thesis by (simp add: rewrite_row_def)
qed

lemma rewrite_row_terms:
  assumes "recurring_keys d" "recurring_keys (rewrite_row u t t' d)" "t \<in> set (terms_of u i d)"
    "tm_SeriesID t' = tm_SeriesID t"
  shows "set (terms_of u i (rewrite_row u t t' d)) = insert t' (set (terms_of u i d) - {t})"
  using assms by (auto simp: set_terms_of rewrite_row_def)

lemma rewrite_row_elsewhere:
  assumes "tm_SeriesID t = i" "tm_SeriesID t' = tm_SeriesID t"
  shows "filter (\<lambda>r. term_series r \<noteq> (u, i)) (series_terms (rewrite_row u t t' d)) =
      filter (\<lambda>r. term_series r \<noteq> (u, i)) (series_terms d)"
    and "term_series ` set (series_terms (rewrite_row u t t' d)) = term_series ` set (series_terms d)"
proof -
  have same: "term_series (if r = (u, t) then (u, t') else r) = term_series r" for r
    using assms by (simp add: term_series_def)
  show "filter (\<lambda>r. term_series r \<noteq> (u, i)) (series_terms (rewrite_row u t t' d)) =
      filter (\<lambda>r. term_series r \<noteq> (u, i)) (series_terms d)"
    unfolding rewrite_row_def using assms(1)
    by (simp del: filter_map, intro filter_map_same) (auto simp: same, simp add: term_series_def)
  show "term_series ` set (series_terms (rewrite_row u t t' d)) = term_series ` set (series_terms d)"
  proof -
    have "map term_series (series_terms (rewrite_row u t t' d)) = map term_series (series_terms d)"
      unfolding rewrite_row_def using same by (simp del: if_split)
    then show ?thesis by (metis list.set_map)
  qed
qed

lemma add_row_terms:
  "recurring_keys d \<Longrightarrow> recurring_keys (add_row u t d) \<Longrightarrow> tm_SeriesID t = i \<Longrightarrow>
    set (terms_of u i (add_row u t d)) = insert t (set (terms_of u i d))"
  by (auto simp: set_terms_of add_row_def)

lemma repricedI:
  assumes "recurring_keys d" "terms_apart d" "recurring_keys d'" "terms_apart d'"
    "d' = d\<lparr>series_terms := ts\<rparr>"
    "filter (\<lambda>r. term_series r \<noteq> (u, i)) ts = filter (\<lambda>r. term_series r \<noteq> (u, i)) (series_terms d)"
    "term_series ` set (series_terms d) \<subseteq> term_series ` set ts"
    and in_force: "\<And>x. x \<in> span eff (change_until (terms_of u i d) eff) \<Longrightarrow>
      \<exists>t \<in> set (terms_of u i d'). covers t x \<and> (tm_Amount t, tm_AccountID t) = (m, a)"
    and before: "\<And>x t. x \<notin> span eff (change_until (terms_of u i d) eff) \<Longrightarrow> t \<in> set (terms_of u i d) \<Longrightarrow>
      covers t x \<Longrightarrow> \<exists>t' \<in> set (terms_of u i d'). covers t' x \<and>
        (tm_Amount t', tm_AccountID t') = (tm_Amount t, tm_AccountID t)"
    and gaps: "\<And>x t'. x \<notin> span eff (change_until (terms_of u i d) eff) \<Longrightarrow> t' \<in> set (terms_of u i d') \<Longrightarrow>
      covers t' x \<Longrightarrow> \<exists>t \<in> set (terms_of u i d). covers t x"
  shows "repriced u i eff m a d d'"
proof -
  let ?old = "terms_of u i d" and ?new = "terms_of u i d'"
  have ok: "terms_ok ?old" "terms_ok ?new"
    using assms(1-4) by (simp_all add: loaded_terms_ok)
  have "priced ?new x = (if x \<in> span eff (change_until ?old eff) then Some (m, a) else priced ?old x)" for x
  proof (cases "x \<in> span eff (change_until ?old eff)")
    case True
    then obtain t where "t \<in> set ?new" "covers t x" "(tm_Amount t, tm_AccountID t) = (m, a)"
      using in_force by blast
    then show ?thesis using True priced_mem [OF ok(2), of t x] by simp
  next
    case False
    show ?thesis
    proof (cases "\<exists>t \<in> set ?old. covers t x")
      case True
      then obtain t t' where "t \<in> set ?old" "covers t x" "t' \<in> set ?new" "covers t' x"
        "(tm_Amount t', tm_AccountID t') = (tm_Amount t, tm_AccountID t)"
        using before [OF False] by blast
      then show ?thesis using False priced_mem [OF ok(1), of t x] priced_mem [OF ok(2), of t' x] by simp
    next
      case none: False
      then show ?thesis
        using gaps [OF False] priced_none [OF ok(1), of x] priced_none [OF ok(2), of x] False by auto
    qed
  qed
  then show ?thesis using assms(5-7) by (auto simp: repriced_def)
qed

lemma terms_apartD:
  "terms_apart d \<Longrightarrow> r \<in> set (series_terms d) \<Longrightarrow> q \<in> set (series_terms d) \<Longrightarrow>
    term_series r = term_series q \<Longrightarrow> r \<noteq> q \<Longrightarrow> apart (snd r) (snd q)"
  unfolding terms_apart_def by blast

lemma loaded:
  assumes "recurring_keys d" "terms_apart d" "t \<in> set (terms_of u i d)"
  shows "(u, t) \<in> set (series_terms d)" "tm_SeriesID t = i" "term_series (u, t) = (u, i)" "proper_term t"
    "\<And>q. q \<in> set (series_terms d) \<Longrightarrow> term_series q = (u, i) \<Longrightarrow> q \<noteq> (u, t) \<Longrightarrow> apart (snd q) t"
    "\<And>q. q \<in> set (series_terms d) \<Longrightarrow> term_series q = (u, i) \<Longrightarrow> snd q \<in> set (terms_of u i d)"
proof -
  have t: "(u, t) \<in> set (series_terms d)" "tm_SeriesID t = i"
    using assms(3) by (simp_all add: set_terms_of [OF assms(1)])
  then show "(u, t) \<in> set (series_terms d)" "tm_SeriesID t = i" "term_series (u, t) = (u, i)" "proper_term t"
    using assms(2) by (auto simp: terms_apart_def term_series_def)
  fix q assume q: "q \<in> set (series_terms d)" "term_series q = (u, i)"
  then have "q = (u, snd q)" "tm_SeriesID (snd q) = i" by (auto simp: term_series_def)
  then show "snd q \<in> set (terms_of u i d)"
    using q(1) by (simp add: set_terms_of [OF assms(1)])
  assume "q \<noteq> (u, t)"
  then have "apart (snd q) (snd (u, t))"
    using t q by (intro terms_apartD [OF assms(2)]) (auto simp: term_series_def)
  then show "apart (snd q) t" by simp
qed

lemma rewrite_keys:
  assumes "recurring_keys d" "(u, t) \<in> set (series_terms d)" "tm_ID t' = tm_ID t"
    "tm_SeriesID t' = tm_SeriesID t" "owns_account u (tm_AccountID t') d"
  shows "recurring_keys (rewrite_row u t t' d)"
  unfolding rewrite_row_def
  by (rule keys_mapped [OF assms(1)])
    (use assms(3-5) keys_owned [OF assms(1)] in \<open>auto simp: key_defs\<close>)

text \<open>The change of a term that starts on the day.\<close>

lemma repriced_in_place:
  fixes m :: cents
  assumes d: "recurring_keys d" "terms_apart d" and t: "t \<in> set (terms_of u i d)" "tm_StartDate t = eff"
    and a: "owns_account u a d"
  defines "d' \<equiv> rewrite_row u t (t\<lparr>tm_Amount := m, tm_AccountID := a\<rparr>) d"
  shows "recurring_keys d' \<and> terms_apart d' \<and> repriced u i eff m a d d'"
proof -
  let ?t = "t\<lparr>tm_Amount := m, tm_AccountID := a\<rparr>"
  note l = loaded [OF d t(1)]
  have keys: "recurring_keys d'"
    unfolding d'_def using l a d by (intro rewrite_keys) simp_all
  have ap: "terms_apart d'"
    unfolding d'_def rewrite_row_def using l d
    by (intro apart_rewrite) (auto simp: apart_def)
  have mem: "set (terms_of u i d') = insert ?t (set (terms_of u i d) - {t})"
    unfolding d'_def using rewrite_row_terms [OF d(1) keys [unfolded d'_def] t(1)] by simp
  have cov: "covers t eff" using l(4) t(2) by (auto simp: in_span proper_def split: option.splits)
  then have "recurringTermContaining (terms_of u i d) eff = Some t"
    using recurringTermContaining_iff [OF loaded_terms_ok [OF d]] t(1) by blast
  then have until: "change_until (terms_of u i d) eff = tm_EndDate t"
    by (simp add: change_until_def t(2))
  have "repriced u i eff m a d d'"
  proof (rule repricedI [OF d keys ap])
    show "d' = d\<lparr>series_terms := series_terms d'\<rparr>" by (simp add: d'_def rewrite_row_def)
  next
    fix x assume x: "x \<in> span eff (change_until (terms_of u i d) eff)"
    show "\<exists>t \<in> set (terms_of u i d'). covers t x \<and> (tm_Amount t, tm_AccountID t) = (m, a)"
      using x by (intro bexI [of _ ?t]) (simp_all add: mem until t(2))
  next
    fix x q assume "x \<notin> span eff (change_until (terms_of u i d) eff)" "q \<in> set (terms_of u i d)" "covers q x"
    then show "\<exists>t' \<in> set (terms_of u i d'). covers t' x \<and> (tm_Amount t', tm_AccountID t') = (tm_Amount q, tm_AccountID q)"
      by (intro bexI [of _ q]) (auto simp: mem until t(2))
  next
    fix x q assume "x \<notin> span eff (change_until (terms_of u i d) eff)" "q \<in> set (terms_of u i d')" "covers q x"
    then show "\<exists>t \<in> set (terms_of u i d). covers t x" by (auto simp: mem until t(2))
  qed (use rewrite_row_elsewhere [of t i ?t u d] l(2) in \<open>simp_all add: d'_def\<close>)
  then show ?thesis using keys ap by blast
qed

lemma add_keys:
  assumes "recurring_keys d" "insert_term u t d = Inr (n, d')" "n \<noteq> 0" "tm_ID t \<noteq> 0"
  shows "d' = add_row u t d" "recurring_keys d'"
  using assms(2) keys_inserted [OF assms(1,4,2)] assms(3)
  by (auto elim!: insert_term_Inr simp: add_row_def)

lemma later_term:
  assumes "terms_ok ts" "q \<in> set ts" "recurringTermContaining ts eff = c" "c \<noteq> Some q"
  shows "ends_by (tm_EndDate q) eff \<or> ends_by (next_start ts eff) (tm_StartDate q)"
proof (cases "eff < tm_StartDate q")
  case True
  then show ?thesis using next_start_ends(2) [OF assms(1,2)] by blast
next
  case False
  have "\<not> covers q eff"
    using recurringTermContaining_iff [OF assms(1), of eff q] assms(2-4) by auto
  then show ?thesis using False by (auto simp: in_span ends_by_def split: option.splits)
qed

text \<open>The change of a day no term covers.\<close>

lemma repriced_opened:
  assumes d: "recurring_keys d" "terms_apart d" "recurring_keys (add_row u t d)"
    and none: "recurringTermContaining (terms_of u i d) eff = None"
    and t: "tm_SeriesID t = i" "tm_StartDate t = eff" "tm_EndDate t = next_start (terms_of u i d) eff"
  shows "terms_apart (add_row u t d) \<and> repriced u i eff (tm_Amount t) (tm_AccountID t) d (add_row u t d)"
proof -
  let ?ts = "terms_of u i d"
  note ok = loaded_terms_ok [OF d(1,2), of u i]
  have free: "apart q t" if "q \<in> set ?ts" for q
    using later_term [OF ok that none] by (auto simp: apart_def t)
  have "apart (snd q) t" if "q \<in> set (series_terms d)" "term_series q = (u, i)" for q
  proof -
    have "q = (u, snd q)" "tm_SeriesID (snd q) = i" using that(2) by (auto simp: term_series_def)
    then show ?thesis using that(1) by (intro free) (simp add: set_terms_of [OF d(1)])
  qed
  then have ap: "terms_apart (add_row u t d)"
    unfolding add_row_def using d(2) next_start_ends(1) [OF ok]
    by (intro apart_insert) (simp_all add: t term_series_def)
  have mem: "set (terms_of u i (add_row u t d)) = insert t (set ?ts)"
    by (rule add_row_terms [OF d(1,3) t(1)])
  have until: "change_until ?ts eff = next_start ?ts eff"
    by (simp add: change_until_def none)
  have "repriced u i eff (tm_Amount t) (tm_AccountID t) d (add_row u t d)"
  proof (rule repricedI [OF d(1,2,3) ap])
    show "add_row u t d = d\<lparr>series_terms := series_terms (add_row u t d)\<rparr>" by (simp add: add_row_def)
  qed (auto simp: add_row_def [of u t d] mem [unfolded add_row_def] until t term_series_def)
  then show ?thesis using ap by blast
qed

text \<open>The change of a day inside a term: the term is closed there.\<close>

lemma closed_row:
  assumes d: "recurring_keys d" "terms_apart d"
    and cover: "recurringTermContaining (terms_of u i d) eff = Some t" and late: "tm_StartDate t < eff"
  defines "d1 \<equiv> rewrite_row u t (t\<lparr>tm_EndDate := Some eff\<rparr>) d"
  shows "recurring_keys d1" "terms_apart d1"
    "set (terms_of u i d1) = insert (t\<lparr>tm_EndDate := Some eff\<rparr>) (set (terms_of u i d) - {t})"
proof -
  let ?t = "t\<lparr>tm_EndDate := Some eff\<rparr>"
  have t: "t \<in> set (terms_of u i d)" "covers t eff"
    using cover recurringTermContaining_iff [OF loaded_terms_ok [OF d]] by blast+
  note l = loaded [OF d t(1)]
  show keys: "recurring_keys d1"
    unfolding d1_def using l d keys_owned [OF d(1) l(1)] by (intro rewrite_keys) simp_all
  show "terms_apart d1"
    unfolding d1_def rewrite_row_def
  proof (intro apart_rewrite [OF d(2,1) l(1)])
    fix q assume q: "q \<in> set (series_terms d)" "term_series q = term_series (u, t)" "q \<noteq> (u, t)"
    then have "apart (snd q) t" using l(3,5) by simp
    then show "apart (snd q) ?t" using t(2) by (auto simp: apart_def in_span ends_by_def split: option.splits)
  qed (simp_all add: proper_def late)
  show "set (terms_of u i d1) = insert ?t (set (terms_of u i d) - {t})"
    unfolding d1_def using rewrite_row_terms [OF d(1) keys [unfolded d1_def] t(1)] by simp
qed

lemma repriced_split:
  assumes d: "recurring_keys d" "terms_apart d"
    and cover: "recurringTermContaining (terms_of u i d) eff = Some t" and late: "tm_StartDate t < eff"
  defines "d1 \<equiv> rewrite_row u t (t\<lparr>tm_EndDate := Some eff\<rparr>) d"
  assumes keys: "recurring_keys (add_row u k d1)"
    and k: "tm_SeriesID k = i" "tm_StartDate k = eff" "tm_EndDate k = next_start (terms_of u i d) eff"
  shows "terms_apart (add_row u k d1) \<and> repriced u i eff (tm_Amount k) (tm_AccountID k) d (add_row u k d1)"
proof -
  let ?ts = "terms_of u i d" and ?t = "t\<lparr>tm_EndDate := Some eff\<rparr>" and ?d2 = "add_row u k d1"
  note ok = loaded_terms_ok [OF d, of u i]
  have t: "t \<in> set ?ts" "covers t eff"
    using cover recurringTermContaining_iff [OF ok] by blast+
  note d1 = closed_row [OF d cover late, folded d1_def]
  have free: "apart q k" if "q \<in> set (terms_of u i d1)" for q
  proof (cases "q = ?t")
    case False
    then show ?thesis
      using that later_term [OF ok _ cover, of q] by (auto simp: d1(3) apart_def k)
  qed (simp add: apart_def k)
  have "apart (snd q) k" if "q \<in> set (series_terms d1)" "term_series q = (u, i)" for q
  proof -
    have "q = (u, snd q)" "tm_SeriesID (snd q) = i" using that(2) by (auto simp: term_series_def)
    then show ?thesis using that(1) by (intro free) (simp add: set_terms_of [OF d1(1)])
  qed
  then have ap: "terms_apart ?d2"
    unfolding add_row_def using d1(2) next_start_ends(1) [OF ok]
    by (intro apart_insert) (simp_all add: k term_series_def)
  have mem: "set (terms_of u i ?d2) = insert k (insert ?t (set ?ts - {t}))"
    unfolding add_row_terms [OF d1(1) keys k(1)] d1(3) ..
  have until: "change_until ?ts eff = next_start ?ts eff"
    using late by (simp add: change_until_def cover)
  have within: "x < eff" if "covers t x" "x \<notin> span eff (next_start ?ts eff)" for x
  proof (rule ccontr)
    assume "\<not> x < eff"
    with that(2) obtain n where n: "next_start ?ts eff = Some n" "n \<le> x" "\<not> x < eff"
      by (auto simp: in_span split: option.splits)
    then obtain q where found: "find (\<lambda>t. eff < tm_StartDate t) ?ts = Some q" and "tm_StartDate q = n"
      by (auto simp: next_start_def)
    then have q: "q \<in> set ?ts" "eff < tm_StartDate q" "tm_StartDate q = n"
      by (auto simp: find_Some_iff)
    then have "apart (snd (u, q)) t"
      using loaded(5) [OF d t(1), of "(u, q)"] loaded(1,3) [OF d q(1)] late by fastforce
    then have "ends_by (tm_EndDate t) n"
      using q ends_by_start [OF loaded(4) [OF d q(1)], of "tm_StartDate t"] late by (auto simp: apart_def)
    then show False using that(1) n by (auto simp: in_span ends_by_def split: option.splits)
  qed
  have "repriced u i eff (tm_Amount k) (tm_AccountID k) d ?d2"
  proof (rule repricedI [OF d keys ap])
    show "?d2 = d\<lparr>series_terms := series_terms ?d2\<rparr>" by (simp add: add_row_def d1_def rewrite_row_def)
    show "filter (\<lambda>r. term_series r \<noteq> (u, i)) (series_terms ?d2) = filter (\<lambda>r. term_series r \<noteq> (u, i)) (series_terms d)"
      "term_series ` set (series_terms d) \<subseteq> term_series ` set (series_terms ?d2)"
      using rewrite_row_elsewhere [of t i ?t u d] loaded(2) [OF d t(1)]
      by (auto simp: add_row_def d1_def term_series_def [of "(u, k)"] k(1))
  next
    fix x assume "x \<in> span eff (change_until ?ts eff)"
    then show "\<exists>t \<in> set (terms_of u i ?d2). covers t x \<and> (tm_Amount t, tm_AccountID t) = (tm_Amount k, tm_AccountID k)"
      by (intro bexI [of _ k]) (simp_all add: mem until k)
  next
    fix x q assume x: "x \<notin> span eff (change_until ?ts eff)" "q \<in> set ?ts" "covers q x"
    show "\<exists>t' \<in> set (terms_of u i ?d2). covers t' x \<and> (tm_Amount t', tm_AccountID t') = (tm_Amount q, tm_AccountID q)"
    proof (cases "q = t")
      case True
      then show ?thesis
        using x within [of x] by (intro bexI [of _ ?t]) (auto simp: mem until in_span)
    next
      case False
      then show ?thesis using x by (intro bexI [of _ q]) (simp_all add: mem)
    qed
  next
    fix x q assume x: "x \<notin> span eff (change_until ?ts eff)" "q \<in> set (terms_of u i ?d2)" "covers q x"
    have "covers ?t x \<Longrightarrow> covers t x"
      using t(2) by (auto simp: in_span split: option.splits)
    then show "\<exists>t \<in> set ?ts. covers t x"
      using x t(1) by (auto simp: mem until k)
  qed
  then show ?thesis using ap by blast
qed

section \<open>The change in the calculus\<close>

lemma outcomes_change:
  assumes d: "recurring_keys d" "terms_apart d"
    and Q: "\<And>d'. recurring_keys d' \<Longrightarrow> terms_apart d' \<Longrightarrow> repriced u i eff m a d d' \<Longrightarrow> Q () d'"
    and E: "\<And>e d'. E e d'"
  shows "outcomes (applyRecurringChange u i (terms_of u i d) eff m a) Q E d"
proof -
  let ?ts = "terms_of u i d"
  note ok = loaded_terms_ok [OF d, of u i]
  have in_place: "Q () d'" if "recurringTermContaining ?ts eff = Some t" "tm_StartDate t = eff"
    "reprice_term u (tm_ID t) m a d = Inr (n, d')" "n \<noteq> 0" for t n d'
  proof -
    have t: "t \<in> set ?ts" using that(1) recurringTermContaining_iff [OF ok] by blast
    have a: "owns_account u a d" using that(3,4) by (auto simp: reprice_term_def split: if_splits)
    then have "d' = rewrite_row u t (t\<lparr>tm_Amount := m, tm_AccountID := a\<rparr>) d"
      using that(3) rewrite_rowI [OF d(1) loaded(1) [OF d t]] by (simp add: reprice_term_def)
    then show ?thesis using repriced_in_place [OF d t that(2) a, of m] Q by simp
  qed
  have split: "Q () d2" if "recurringTermContaining ?ts eff = Some t" "tm_StartDate t \<noteq> eff"
    "close_term u (tm_ID t) eff d = Inr (x, d1)" "insert_term u k d1 = Inr (n, d2)" "n \<noteq> 0" "tm_ID k \<noteq> 0"
    "k = \<lparr>tm_ID = j, tm_SeriesID = i, tm_StartDate = eff, tm_EndDate = next_start ?ts eff, tm_Amount = m, tm_AccountID = a\<rparr>"
    for t x d1 k n d2 j
  proof -
    have t: "t \<in> set ?ts" "covers t eff" using that(1) recurringTermContaining_iff [OF ok] by blast+
    have late: "tm_StartDate t < eff" using t(2) that(2) by (simp add: in_span)
    have d1: "d1 = rewrite_row u t (t\<lparr>tm_EndDate := Some eff\<rparr>) d"
      using that(3) rewrite_rowI [OF d(1) loaded(1) [OF d t(1)]] by (simp add: close_term_def)
    have "recurring_keys d1" unfolding d1 by (rule closed_row(1) [OF d that(1) late])
    from add_keys [OF this that(4-6)] show ?thesis
      using repriced_split [OF d that(1) late, of k] Q by (simp add: d1 that(7))
  qed
  have opened: "Q () d'" if "recurringTermContaining ?ts eff = None" "insert_term u k d = Inr (n, d')" "n \<noteq> 0" "tm_ID k \<noteq> 0"
    "k = \<lparr>tm_ID = j, tm_SeriesID = i, tm_StartDate = eff, tm_EndDate = next_start ?ts eff, tm_Amount = m, tm_AccountID = a\<rparr>"
    for k n d' j
    using add_keys [OF d(1) that(2-4)] repriced_opened [OF d, of u k i eff] that(1) Q by (simp add: that(5))
  show ?thesis
  proof (cases "recurringTermContaining ?ts eff")
    case None
    show ?thesis
      unfolding applyRecurringChange_def open_change_def Let_def dateOnly_id change_at_spec [OF ok] next_start_def [symmetric] None
        option.case prod.case
      by (intro wp E) (erule opened [OF None], assumption, simp, rule refl)
  next
    case (Some t)
    show ?thesis
      unfolding applyRecurringChange_def open_change_def Let_def dateOnly_id change_at_spec [OF ok] next_start_def [symmetric] Some
        option.case prod.case
      by (intro wp E; (erule (2) in_place [OF Some] | erule (1) split [OF Some], assumption, assumption, simp, rule refl))
  qed
qed

end
