(* ===== verification/Recurring_Kept.thy ===== *)
theory Recurring_Kept
  imports Recurring_Changes
begin

text \<open>
  Every recurring request keeps \<open>series_books\<close>, whatever statements fail: the invariant of the single
  statements under the guards the handlers evaluate before them, of the two transactions that write
  several rows, and of the endpoints.
\<close>

section \<open>Single statements under their guards\<close>

lemma booksD:
  assumes "series_books d"
  shows "recurring_keys d" "terms_apart d" "all_have_terms d"
  using assms by (simp_all add: series_books_def)

lemma books_same_series:
  "recurring_keys d' \<Longrightarrow> terms_apart d' \<Longrightarrow> all_have_terms d \<Longrightarrow>
    series_key ` set (series d') = series_key ` set (series d) \<Longrightarrow>
    term_series ` set (series_terms d) \<subseteq> term_series ` set (series_terms d') \<Longrightarrow> series_books d'"
  unfolding series_books_def all_have_terms_def by (metis subset_trans)

lemma update_series_keys:
  assumes "update_series s d = Inr (b, d')"
  shows "series_key ` set (series d') = series_key ` set (series d)" "series_terms d' = series_terms d"
proof (atomize (full), cases "d' = d")
  case False
  let ?f = "\<lambda>r. if sr_ID r = sr_ID s \<and> sr_UserID r = sr_UserID s then s else r"
  have d': "d' = d\<lparr>series := map ?f (series d)\<rparr>"
    using assms False by (simp add: update_series_def Let_def split: if_splits)
  have "map series_key (series d') = map series_key (series d)"
    by (simp add: series_key_def d')
  then have "series_key ` set (series d') = series_key ` set (series d)"
    by (metis list.set_map)
  moreover have "series_terms d' = series_terms d" by (simp add: d')
  ultimately show "series_key ` set (series d') = series_key ` set (series d) \<and> series_terms d' = series_terms d" ..
qed simp

lemma books_updated:
  assumes "series_books d" "update_series s d = Inr (b, d')"
  shows "series_books d'"
  using keys_updated [OF booksD(1) [OF assms(1)] assms(2)] update_series_keys [OF assms(2)]
    booksD(2,3) [OF assms(1)] apart_cong [of d' d]
  by (intro books_same_series) auto

lemma books_deleted:
  assumes "series_books d" "delete_series u i d = Inr (n, d')"
  shows "series_books d'"
proof (cases "d' = d")
  case False
  have d': "series d' = filter (\<lambda>r. series_key r \<noteq> (u, i)) (series d)"
      "series_terms d' = filter (\<lambda>r. term_series r \<noteq> (u, i)) (series_terms d)"
    using assms(2) False unfolding delete_series_def Let_def mine_key in_series_key
    by (auto split: if_splits)
  have "terms_apart d'"
    using apart_drop [OF booksD(2) [OF assms(1)], of "\<lambda>r. term_series r \<noteq> (u, i)"]
    by (rule apart_cong [THEN iffD2, rotated]) (simp add: d')
  moreover have "all_have_terms d'"
    using booksD(3) [OF assms(1)] by (fastforce simp: all_have_terms_def d' image_iff subset_iff)
  ultimately show ?thesis
    using keys_deleted [OF booksD(1) [OF assms(1)] assms(2)] by (simp add: series_books_def)
qed (use assms(1) in simp)

lemma books_links:
  assumes "series_books d"
  shows "attach_recurring i ids u d = Inr (n, d') \<Longrightarrow> series_books d'"
    and "detach_recurring ids u d = Inr (n, d') \<Longrightarrow> series_books d'"
proof -
  show "attach_recurring i ids u d = Inr (n, d') \<Longrightarrow> series_books d'"
    using keys_attached [OF booksD(1) [OF assms], of i ids u n d'] booksD [OF assms] apart_cong [of d' d]
    by (intro books_same_series [of d' d]) (auto simp: attach_recurring_def split: sum.splits)
  show "detach_recurring ids u d = Inr (n, d') \<Longrightarrow> series_books d'"
    using keys_dropped(2) [OF booksD(1) [OF assms]] booksD [OF assms] apart_cong [of d' d]
    by (intro books_same_series [of d' d]) (auto simp: detach_recurring_def delete_links_def)
qed

text \<open>The overlap check is what makes the new row disjoint from the others.\<close>

lemma no_overlap_apart:
  assumes d: "recurring_keys d" "terms_apart d" and t: "proper_term t"
    and ok: "\<not> recurringTermsOverlap (terms_of u i d) (tm_StartDate t) (tm_EndDate t) ex"
    and q: "q \<in> set (series_terms d)" "term_series q = (u, i)" "tm_ID (snd q) \<noteq> ex"
  shows "apart (snd q) t"
proof -
  have q': "q = (u, snd q)" "tm_SeriesID (snd q) = i" using q(2) by (auto simp: term_series_def)
  then have mem: "snd q \<in> set (terms_of u i d)" using q(1) by (simp add: set_terms_of [OF d(1)])
  have "\<forall>p \<in> set (terms_of u i d). proper_term p"
    using loaded(4) [OF d] by blast
  then have "span (tm_StartDate (snd q)) (tm_EndDate (snd q)) \<inter> span (tm_StartDate t) (tm_EndDate t) = {}"
    using recurringTermsOverlap_iff [OF _ t, of "terms_of u i d" ex] ok mem q(3) by blast
  then show ?thesis
    using span_disjoint_iff [OF loaded(4) [OF d mem] t] by (simp add: apart_def)
qed

lemma books_inserted:
  assumes "series_books d" "tm_ID t \<noteq> 0" "proper_term t" "insert_term u t d = Inr (n, d')"
    "\<not> recurringTermsOverlap (terms_of u (tm_SeriesID t) d) (tm_StartDate t) (tm_EndDate t) 0"
  shows "series_books d'"
  using assms(4)
proof (cases rule: insert_term_Inr)
  case 2
  note d = booksD [OF assms(1)]
  have ap: "apart (snd q) t" if "q \<in> set (series_terms d)" "term_series q = term_series (u, t)" for q
  proof -
    have "tm_ID (snd q) \<noteq> 0" using keys_refs(1) [OF d(1) that(1)] by (simp add: term_refs_def)
    with that show ?thesis
      using no_overlap_apart [OF d(1,2) assms(3,5), of q] by (simp add: term_series_def)
  qed
  have "terms_apart d'"
    unfolding 2(2) by (rule apart_insert [OF d(2) assms(3) ap])
  then show ?thesis
    using d(3) keys_inserted [OF d(1) assms(2,4)] by (intro books_same_series [of d' d]) (auto simp: 2(2))
qed (use assms(1) in simp)

lemma books_replaced:
  assumes "series_books d" "t \<in> set (terms_of u i d)" "tm_ID t' = tm_ID t" "tm_SeriesID t' = tm_SeriesID t"
    "proper_term t'" "replace_term u t' d = Inr (n, d')"
    "\<not> recurringTermsOverlap (terms_of u i d) (tm_StartDate t') (tm_EndDate t') (tm_ID t)"
  shows "series_books d'"
proof -
  note d = booksD [OF assms(1)] and l = loaded [OF booksD(1,2) [OF assms(1)] assms(2)]
  have mine: "is_term u (tm_ID t') r \<and> tm_SeriesID (snd r) = tm_SeriesID t' \<longleftrightarrow> is_term u (tm_ID t) r"
    if "r \<in> set (series_terms d)" for r
    using the_term [OF d(1) l(1) that] assms(3,4) by auto
  consider "d' = d" | "d' = rewrite_row u t t' d" "owns_account u (tm_AccountID t') d"
  proof (cases "d' = d")
    case False
    then have "owns_account u (tm_AccountID t') d"
      "d' = d\<lparr>series_terms := map (\<lambda>r. if is_term u (tm_ID t') r \<and> tm_SeriesID (snd r) = tm_SeriesID t'
        then (u, t') else r) (series_terms d)\<rparr>"
      using assms(6) by (auto simp: replace_term_def Let_def split: if_splits)
    moreover have "map (\<lambda>r. if is_term u (tm_ID t') r \<and> tm_SeriesID (snd r) = tm_SeriesID t' then (u, t') else r) (series_terms d)
        = map (\<lambda>r. if is_term u (tm_ID t) r then (u, t') else r) (series_terms d)"
      by (rule map_cong [OF refl]) (simp add: mine)
    ultimately show ?thesis
      using that(2) rewrite_rowI [OF d(1) l(1), of "\<lambda>_. (u, t')" t'] by simp
  qed
  then show ?thesis
  proof cases
    case 2
    have keys: "recurring_keys d'" unfolding 2(1) by (rule rewrite_keys [OF d(1) l(1) assms(3,4) 2(2)])
    have "apart (snd q) t'" if q: "q \<in> set (series_terms d)" "term_series q = term_series (u, t)" "q \<noteq> (u, t)" for q
      using the_term [OF d(1) l(1) q(1)] q(3) q(2) l(2)
      by (intro no_overlap_apart [OF d(1,2) assms(5,7) q(1)]) (auto simp: is_term_def term_series_def)
    then have "terms_apart d'"
      unfolding 2(1) rewrite_row_def by (intro apart_rewrite [OF d(2,1) l(1) assms(3,4,5)])
    then show ?thesis
      using keys d(3) rewrite_row_elsewhere(2) [of t i t' u d] l(2) assms(4)
      by (intro books_same_series [of d' d]) (auto simp: 2(1) rewrite_row_def)
  qed (use assms(1) in simp)
qed

lemma books_removed:
  assumes "series_books d" "delete_term u k i d = Inr (x, d')" "length (terms_of u i d) \<noteq> 1"
  shows "series_books d'"
proof -
  note d = booksD [OF assms(1)]
  let ?p = "\<lambda>r. \<not> (is_term u k r \<and> tm_SeriesID (snd r) = i)"
  have d': "d' = d\<lparr>series_terms := filter ?p (series_terms d)\<rparr>"
    using assms(2) by (simp add: delete_term_def)
  have "all_have_terms d'"
    unfolding all_have_terms_def
  proof
    fix key assume key: "key \<in> series_key ` set (series d')"
    then obtain r where r: "r \<in> set (series_terms d)" "term_series r = key"
      using d(3) by (fastforce simp: all_have_terms_def d')
    show "key \<in> term_series ` set (series_terms d')"
    proof (cases "?p r")
      case True
      then show ?thesis using r by (force simp: d')
    next
      case False
      then have ri: "r = (u, snd r)" "tm_SeriesID (snd r) = i" "tm_ID (snd r) = k" by (auto simp: is_term_def)
      then have mem: "snd r \<in> set (terms_of u i d)"
        using r(1) by (simp add: set_terms_of [OF d(1)])
      obtain t where t: "t \<in> set (terms_of u i d)" "t \<noteq> snd r"
      proof -
        have "distinct (terms_of u i d)"
          using distinct_terms_of [OF d(1)] by (metis distinct_map)
        then have "set (terms_of u i d) \<noteq> {snd r}"
          using assms(3) distinct_card [of "terms_of u i d"] by auto
        then show ?thesis using mem that by blast
      qed
      have "tm_ID t \<noteq> k"
        using distinct_terms_of [OF d(1), of u i] t mem ri(3) by (auto simp: distinct_map dest: inj_onD)
      then have "(u, t) \<in> set (series_terms d')" "term_series (u, t) = key"
        using t(1) r(2) arg_cong [OF ri(1), of fst] ri(2)
        by (auto simp: d' set_terms_of [OF d(1)] is_term_def term_series_def)
      then show ?thesis by force
    qed
  qed
  then show ?thesis
    using keys_dropped(1) [OF d(1)] apart_drop [OF d(2)] by (simp add: series_books_def d')
qed

section \<open>The transactions\<close>

lemma outcomes_create_tx:
  assumes "series_books d" "sound_ranges rs"
    and Q: "\<And>d'. series_books d' \<Longrightarrow> series_key s \<notin> series_key ` set (series d) \<Longrightarrow>
      stores (sr_UserID s) (sr_ID s) rs (d\<lparr>series := series d @ [s]\<rparr>) d' \<Longrightarrow> Q () d'"
    and E: "\<And>e d'. E e d'"
  shows "outcomes (create_tx s rs) Q E d"
proof -
  note d = booksD [OF assms(1)]
  have "outcomes (insert_ranges (sr_UserID s) (sr_ID s) rs) Q E d1"
    if "insert_series s d = Inr (b, d1)" "b" for b d1
    using that(1)
  proof (cases rule: insert_series_Inr)
    case 2
    have fresh: "term_series q \<noteq> series_key s" if "q \<in> set (series_terms d)" for q
      using keys_refs(1) [OF d(1) that] 2(3) by (auto simp: term_refs_def)
    show ?thesis
    proof (rule outcomes_insert_ranges [OF keys_created [OF d(1) that(1)]])
      show "terms_apart d1" using d(2) by (simp add: 2(2) terms_apart_def)
      show "room_for (sr_UserID s, sr_ID s) rs d1"
        using fresh by (simp add: 2(2) room_for_def series_key_def)
      show "ranges_ok rs" using assms(2) by (simp add: sound_ranges_def)
      fix d' assume d': "recurring_keys d'" "terms_apart d'" "stores (sr_UserID s) (sr_ID s) rs d1 d'"
      then obtain ts where ts: "d' = d1\<lparr>series_terms := series_terms d @ map (Pair (sr_UserID s)) ts\<rparr>"
        "map range_of ts = rs" "\<forall>t \<in> set ts. tm_SeriesID t = sr_ID s"
        by (auto simp: stores_def 2(2))
      have "rs \<noteq> []" using assms(2) by (simp add: sound_ranges_def)
      then obtain t qs where "ts = t # qs" using ts(2) by (cases ts) auto
      then have "series_key s \<in> term_series ` set (series_terms d')"
        using ts(1,3) by (simp add: term_series_def series_key_def)
      then have "all_have_terms d'"
        using d(3) by (auto simp: all_have_terms_def ts(1) 2(2))
      then show "Q () d'" using Q d' 2 by (simp add: series_books_def)
    qed (rule E)
  qed (use that(2) in simp)
  then show ?thesis
    unfolding create_tx_def by (intro wp E)
qed

text \<open>The state between the edit of the terms and that of the series row.\<close>

definition edited ::
  "uuid \<Rightarrow> uuid \<Rightarrow> recurring_series \<Rightarrow> parsed_range list \<Rightarrow> bool \<Rightarrow> date \<Rightarrow> db \<Rightarrow> db \<Rightarrow> bool" where
  "edited u i s newRanges valueChanged eff d d1 \<longleftrightarrow>
     (if newRanges \<noteq> [] then stores u i newRanges
        (d\<lparr>series_terms := filter (\<lambda>r. \<not> in_series u i r) (series_terms d)\<rparr>) d1
      else if valueChanged then repriced u i eff (rs_Amount s) (rs_AccountID s) d d1
      else d1 = d)"

lemma books_replaced_ranges:
  assumes "series_books d" "recurring_keys d1" "terms_apart d1" "rs \<noteq> []"
    "stores u i rs (d\<lparr>series_terms := filter (\<lambda>r. \<not> in_series u i r) (series_terms d)\<rparr>) d1"
  shows "series_books d1"
proof -
  obtain ts where ts: "series_terms d1 = filter (\<lambda>r. \<not> in_series u i r) (series_terms d) @ map (Pair u) ts"
    "series d1 = series d" "map range_of ts = rs" "\<forall>t \<in> set ts. tm_SeriesID t = i"
    using assms(5) unfolding stores_def by fastforce
  have "ts \<noteq> []" using ts(3) assms(4) by blast
  then have here: "(u, i) \<in> term_series ` set (map (Pair u) ts)"
    using ts(4) by (cases ts) (simp_all add: term_series_def)
  have "term_series r \<in> term_series ` set (series_terms d1)" if "r \<in> set (series_terms d)" for r
  proof (cases "in_series u i r")
    case True
    then show ?thesis using here unfolding ts(1) set_append image_Un in_series_key by (simp only: Un_iff simp_thms)
  next
    case False
    then show ?thesis using that by (simp add: ts(1))
  qed
  then have "term_series ` set (series_terms d) \<subseteq> term_series ` set (series_terms d1)" by blast
  then show ?thesis
    by (rule books_same_series [OF assms(2,3) booksD(3) [OF assms(1)], rotated]) (simp add: ts(2))
qed

lemma outcomes_update_tx:
  assumes "series_books d" "newRanges = [] \<or> sound_ranges newRanges"
    and Q: "\<And>d1 d'. series_books d' \<Longrightarrow> edited u i s newRanges valueChanged eff d d1 \<Longrightarrow>
      update_series (row_of u i s) d1 = Inr (True, d') \<Longrightarrow> Q () d'"
    and E: "\<And>e d'. E e d'"
  shows "outcomes (update_tx u i s (terms_of u i d) newRanges valueChanged eff) Q E d"
proof -
  note d = booksD [OF assms(1)]
  let ?row = "outcomes (seq (exec (update_series (row_of u i s))) (\<lambda>ok. check ok no_rows)) Q E"
  have row: "?row d1" if "series_books d1" "edited u i s newRanges valueChanged eff d d1" for d1
    by (intro wp E) (use Q [OF books_updated [OF that(1)] that(2)] in auto)
  have ranges: "?row d1" if "newRanges \<noteq> []" "recurring_keys d1" "terms_apart d1"
    "stores u i newRanges (d\<lparr>series_terms := filter (\<lambda>r. \<not> in_series u i r) (series_terms d)\<rparr>) d1" for d1
    using that by (intro row books_replaced_ranges [OF assms(1)]) (simp_all add: edited_def)
  have change: "?row d1" if "newRanges = []" "valueChanged" "recurring_keys d1" "terms_apart d1"
    "repriced u i eff (rs_Amount s) (rs_AccountID s) d d1" for d1
    using that d(3) by (intro row books_same_series [of d1 d]) (auto simp: edited_def repriced_def)
  have cleared: "recurring_keys d0" "terms_apart d0" "room_for (u, i) newRanges d0"
    "d0 = d\<lparr>series_terms := filter (\<lambda>r. \<not> in_series u i r) (series_terms d)\<rparr>"
    if "delete_terms u i d = Inr (x, d0)" for x d0
    using that keys_dropped(1) [OF d(1)] apart_drop [OF d(2)]
    by (auto simp: delete_terms_def room_for_def in_series_key)
  have replaced: "outcomes (insert_ranges u i newRanges) (\<lambda>_. ?row) E d0"
    if "newRanges \<noteq> []" "delete_terms u i d = Inr (x, d0)" for x d0
    using assms(2) that(1) cleared [OF that(2)]
    by (intro outcomes_insert_ranges ranges E) (simp_all add: sound_ranges_def)
  show ?thesis
    unfolding update_tx_def
  proof (rule outcomes_seq, intro outcomes_if)
    assume "newRanges \<noteq> []"
    then show "outcomes (seq (exec (delete_terms u i)) (\<lambda>_. insert_ranges u i newRanges)) (\<lambda>_. ?row) E d"
      by (intro outcomes_seq outcomes_exec E replaced)
  next
    assume "\<not> newRanges \<noteq> []" "valueChanged"
    then show "outcomes (applyRecurringChange u i (terms_of u i d) eff (rs_Amount s) (rs_AccountID s)) (\<lambda>_. ?row) E d"
      by (intro outcomes_change [OF d(1,2)] change E) simp_all
  next
    assume "\<not> newRanges \<noteq> []" "\<not> valueChanged"
    then have "?row d" by (intro row assms(1)) (simp add: edited_def)
    then show "outcomes (ret ()) (\<lambda>_. ?row) E d" by (rule outcomes_ret)
  qed
qed

section \<open>The endpoints\<close>

lemma sound_parsed: "parseSeriesRanges now reqs = Inr rs \<Longrightarrow> sound_ranges rs"
  using parseSeriesRanges_ok by (auto simp: sound_ranges_def)

lemma proper_parsed: "parseRecurringEnd now s st = Inr en \<Longrightarrow> proper st en"
  by (rule parseRecurringEnd_proper)

lemma books_create: "series_books d \<Longrightarrow> outcomes (CreateRecurringSeries now u b) (\<lambda>_. series_books) (\<lambda>_. series_books) d"
  unfolding CreateRecurringSeries_def Let_def by (intro wp outcomes_create_tx)

lemma books_update: "series_books d \<Longrightarrow> outcomes (UpdateRecurringSeries now u p b) (\<lambda>_. series_books) (\<lambda>_. series_books) d"
  unfolding UpdateRecurringSeries_def Let_def
  by (intro wp outcomes_update_tx) (simp_all add: sound_parsed)

lemma books_drop: "series_books d \<Longrightarrow> outcomes (DeleteRecurringSeries u p) (\<lambda>_. series_books) (\<lambda>_. series_books) d"
  unfolding DeleteRecurringSeries_def by (intro wp; (assumption | erule (1) books_deleted))

lemma books_add_term: "series_books d \<Longrightarrow> outcomes (CreateRecurringTerm now u p b) (\<lambda>_. series_books) (\<lambda>_. series_books) d"
  unfolding CreateRecurringTerm_def Let_def
  by (intro wp; (assumption | erule books_inserted [rotated 3]; simp add: proper_parsed))

lemma books_edit_term: "series_books d \<Longrightarrow> outcomes (UpdateRecurringTerm now u p q b) (\<lambda>_. series_books) (\<lambda>_. series_books) d"
proof -
  assume books: "series_books d"
  have "series_books d'" if "find (\<lambda>t. tm_ID t = k) (terms_of u i d) = Some t" "tm_ID t' = tm_ID t"
    "tm_SeriesID t' = tm_SeriesID t" "case tm_EndDate t' of None \<Rightarrow> True | Some e \<Rightarrow> dateOnly (tm_StartDate t') < dateOnly e"
    "\<not> recurringTermsOverlap (terms_of u i d) (tm_StartDate t') (tm_EndDate t') k" "replace_term u t' d = Inr (n, d')"
    for k i t t' n d'
    using that by (intro books_replaced [OF books _ that(2,3) _ that(6)])
      (auto simp: find_Some_iff proper_def split: option.splits)
  then show ?thesis
    unfolding UpdateRecurringTerm_def Let_def using books by (intro wp)
qed

lemma books_drop_term: "series_books d \<Longrightarrow> outcomes (DeleteRecurringTerm u p q) (\<lambda>_. series_books) (\<lambda>_. series_books) d"
  unfolding DeleteRecurringTerm_def by (intro wp; (assumption | erule (2) books_removed))

lemma books_attach:
  "series_books d \<Longrightarrow> outcomes (AttachRecurring u b) (\<lambda>_. series_books) (\<lambda>_. series_books) d"
  "series_books d \<Longrightarrow> outcomes (DetachRecurring u b2) (\<lambda>_. series_books) (\<lambda>_. series_books) d"
  unfolding AttachRecurring_def DetachRecurring_def Let_def
  by (intro wp; (assumption | erule (1) books_links))+

lemma outcomes_serve_books:
  "series_books d \<Longrightarrow> outcomes (serve_recurring collate now u c) (\<lambda>_. series_books) (\<lambda>_. series_books) d"
  by (cases c; simp only: serve_recurring.simps;
      rule outcomes_forget;
      (rule books_create books_update books_drop books_add_term books_edit_term books_drop_term books_attach, assumption)?;
      (simp only: GetRecurringSeries_def GetRecurringTerms_def GetRecurringForecast_def
         GetRecurringSuggestions_def GetRecurringTransactions_def Let_def; intro wp)?; assumption)

end
