(* ===== verification/Recurring_Edits.thy ===== *)
theory Recurring_Edits
  imports Recurring_Kept
begin

text \<open>
  What a successful create or update of a series does, read back through the terms: the request's ranges
  are the stored ones, the answer of a create is what the readers derive, and an amount or account
  change is in force from its date on and nowhere else.
\<close>

section \<open>The successful runs\<close>

lemma deriveRecurringSeries_terms:
  assumes "ts \<noteq> []"
  shows "rs_StartDate (deriveRecurringSeries now s ts) = tm_StartDate (hd ts)"
  using assms by (auto simp: deriveRecurringSeries_def Let_def split: option.splits)

lemma terms_of_cong:
  "series_terms d' = series_terms d \<Longrightarrow> accounts d' = accounts d \<Longrightarrow> terms_of u i d' = terms_of u i d"
  by (simp add: terms_of_def)

lemma update_series_terms:
  "update_series s d = Inr (b, d') \<Longrightarrow> terms_of u i d' = terms_of u i d"
  by (rule terms_of_cong) (auto simp: update_series_def Let_def split: if_splits)

lemma outcomes_change_run:
  assumes "series_books d" "find_series u i d = Some s0" "us_Ranges req = []"
    and orig: "orig = deriveRecurringSeries now (scanRecurringSeries s0) (terms_of u i d)"
    and change: "(m, a) = (given (us_Amount req) (rs_Amount orig), given (us_AccountID req) (rs_AccountID orig))"
      "(m, a) \<noteq> (rs_Amount orig, rs_AccountID orig)"
    and date: "requested_date now (us_EffectiveDate req) = Inr (e, b)"
  shows "outcomes (UpdateRecurringSeries now u (Some i) (Some req))
    (\<lambda>_ d'. \<exists>d1. repriced u i (max e (rs_StartDate orig)) m a d d1 \<and> terms_of u i d' = terms_of u i d1)
    (\<lambda>_ _. True) d"
proof -
  let ?s = "merge_series req orig"
  have s: "rs_Amount ?s = m" "rs_AccountID ?s = a" "rs_StartDate ?s = rs_StartDate orig"
    using change(1) by (simp_all add: merge_series_def)
  have fin: "\<exists>d1. repriced u i (max e (rs_StartDate orig)) m a d d1 \<and> terms_of u i d' = terms_of u i d1"
    if "edited u i ?s [] v (if v \<and> e < dateOnly (rs_StartDate ?s) then dateOnly (rs_StartDate ?s) else e) d d1"
      "v \<longleftrightarrow> rs_Amount ?s \<noteq> rs_Amount orig \<or> rs_AccountID ?s \<noteq> rs_AccountID orig"
      "update_series (row_of u i ?s) d1 = Inr (x, d')" for v d1 d' x
  proof -
    have "v" using that(2) change(2) by (simp add: s)
    moreover have "(if e < rs_StartDate orig then rs_StartDate orig else e) = max e (rs_StartDate orig)"
      by auto
    ultimately have "repriced u i (max e (rs_StartDate orig)) m a d d1"
      using that(1) unfolding dateOnly_id s by (simp add: edited_def s)
    then show ?thesis using update_series_terms [OF that(3)] by blast
  qed
  show ?thesis
    unfolding UpdateRecurringSeries_def Let_def
  proof (intro wp outcomes_update_tx TrueI, goal_cases)
    case (6 i' req' s1 r eff expl d1 d')
    then have eqs: "i' = i" "req' = req" "s1 = s0" "eff = e"
      using assms(2) date by auto
    show ?case
      by (rule fin [OF 6(10) [unfolded eqs orig [symmetric]] _ 6(11) [unfolded eqs orig [symmetric]]]) simp
  qed (use assms(1,3) in simp_all)
qed

lemma outcomes_replace_run:
  assumes "series_books d" "us_Ranges req \<noteq> []"
  shows "outcomes (UpdateRecurringSeries now u (Some i) (Some req))
    (\<lambda>_ d'. parseSeriesRanges now (us_Ranges req) = Inr (map range_of (terms_of u i d'))) (\<lambda>_ _. True) d"
proof -
  have fin: "map range_of (terms_of u i d') = rs"
    if "edited u i s rs v eff d d1" "update_series (row_of u i s) d1 = Inr (True, d')" "series_books d'"
      "sound_ranges rs" for s rs v eff d1 d'
  proof (rule stored_terms [OF booksD(1) [OF that(3)] _ update_series_keys(2) [OF that(2)]])
    let ?d0 = "d\<lparr>series_terms := filter (\<lambda>r. \<not> in_series u i r) (series_terms d)\<rparr>"
    show "stores u i rs ?d0 d1" "ranges_ok rs" using that(1,4) by (auto simp: edited_def sound_ranges_def)
    show "(u, i) \<notin> term_series ` set (series_terms ?d0)" by (auto simp: in_series_key)
  qed
  show ?thesis
    unfolding UpdateRecurringSeries_def Let_def
    by (intro wp outcomes_update_tx TrueI) (use assms fin sound_parsed in \<open>auto\<close>)
qed

text \<open>The range a new series shows is the term its readers show.\<close>

lemma range_of_simps [simp]:
  "pr_start (range_of t) = tm_StartDate t" "pr_end (range_of t) = tm_EndDate t"
  "pr_amount (range_of t) = tm_Amount t" "pr_account (range_of t) = tm_AccountID t"
  by (simp_all add: range_of_def)

lemma term_at_loop_Some: "\<exists>t'. term_at_loop (Some t) ts d = Some t'"
  by (induction ts arbitrary: t) auto

lemma primary_term:
  assumes "l = None \<or> l = Some q"
  shows "primary_loop (range_of q) (map range_of ts) d =
    range_of (case term_at_loop l ts d of None \<Rightarrow> q | Some t \<Rightarrow> t)"
  using assms
proof (induction ts arbitrary: l q)
  case (Cons t ts)
  have "primary_loop (range_of t) (map range_of ts) d =
      range_of (case term_at_loop (Some t) ts d of None \<Rightarrow> t | Some t \<Rightarrow> t)"
    by (rule Cons.IH) simp
  then show ?case using Cons.prems term_at_loop_Some [of t ts d] by (auto split: option.splits)
qed auto

lemma primaryRange_terms:
  assumes "ts \<noteq> []"
  shows "\<exists>t. recurringTermAt ts d = Some t \<and> primaryRange (map range_of ts) d = range_of t"
  using primary_term [of None "hd ts" ts d] assms
  by (auto simp: recurringTermAt_def primaryRange_def hd_map split: option.splits)

lemma created_summary:
  assumes "map range_of ts = rs" "rs \<noteq> []"
  shows "deriveRecurringSeries now s ts = s\<lparr>rs_StartDate := pr_start (hd rs), rs_EndDate := pr_end (last rs),
    rs_AccountID := pr_account (primaryRange rs (dateOnly now)), rs_Amount := pr_amount (primaryRange rs (dateOnly now))\<rparr>"
proof -
  have ts: "ts \<noteq> []" using assms by auto
  obtain t where "recurringTermAt ts now = Some t" "primaryRange rs now = range_of t"
    using primaryRange_terms [OF ts, of now] assms(1) by auto
  moreover have "hd rs = range_of (hd ts)" "last rs = range_of (last ts)"
    using ts assms(1) by (auto simp: hd_map last_map)
  ultimately show ?thesis
    using ts by (simp add: deriveRecurringSeries_def Let_def)
qed

lemma outcomes_create_run:
  assumes "series_books d"
  shows "outcomes (CreateRecurringSeries now u (Some req))
    (\<lambda>s d'. \<exists>row. find_series u (rs_ID s) d' = Some row \<and>
       s = with_derived now (deriveRecurringSeries now (scanRecurringSeries row) (terms_of u (rs_ID s) d')) \<and>
       (cs_Ranges req \<noteq> [] \<longrightarrow> parseSeriesRanges now (cs_Ranges req) = Inr (map range_of (terms_of u (rs_ID s) d'))))
    (\<lambda>_ _. True) d"
proof -
  have id: "rs_ID (with_derived now ((scanRecurringSeries row)\<lparr>rs_StartDate := a, rs_EndDate := b,
      rs_AccountID := c, rs_Amount := m\<rparr>)) = sr_ID row" for row a b c m
    by (simp add: with_derived_def scanRecurringSeries_def)
  have stored: "map range_of (terms_of u (sr_ID row) d') = rs \<and> find_series u (sr_ID row) d' = Some row"
    if "sound_ranges rs" "series_books d'" "series_key row \<notin> series_key ` set (series d)" "sr_UserID row = u"
      "stores (sr_UserID row) (sr_ID row) rs (d\<lparr>series := series d @ [row]\<rparr>) d'" for row rs d'
  proof
    let ?d0 = "d\<lparr>series := series d @ [row]\<rparr>"
    have key: "series_key row = (u, sr_ID row)" by (simp add: series_key_def that(4))
    have "(u, sr_ID row) \<notin> term_series ` set (series_terms ?d0)"
      using keys_refs(1) [OF booksD(1) [OF assms]] that(3) by (auto simp: term_refs_def key)
    then show "map range_of (terms_of u (sr_ID row) d') = rs"
      using that(1) by (intro stored_terms [OF booksD(1) [OF that(2)] that(5) [unfolded that(4)] refl])
        (simp_all add: sound_ranges_def)
    have "find_series u (sr_ID row) d = None" using that(3) by (simp add: find_series_iff key)
    moreover have "series d' = series d @ [row]" using that(5) by (auto simp: stores_def)
    ultimately show "find_series u (sr_ID row) d' = Some row"
      using that(4) by (auto simp: find_series_def find_None_iff find_Some_iff nth_append)
  qed
  show ?thesis
    unfolding CreateRecurringSeries_def Let_def
  proof (intro wp outcomes_create_tx TrueI assms, goal_cases)
    case (2 req' rs i d')
    have ne: "rs \<noteq> []" using 2(3) by (simp add: sound_ranges_def)
    from stored [OF 2(3,6,7) _ 2(8)] show ?case
      using 2(1,4) unfolding id by (intro exI conjI) (auto simp: created_summary [OF _ ne])
  qed
qed

section \<open>An example\<close>

definition ex_row :: series_row where
  "ex_row = \<lparr>sr_ID = 9, sr_UserID = 2, sr_Name = ''Gym'', sr_Description = [], sr_Type = ''debit'',
     sr_Frequency = ''monthly'', sr_Interval = 1, sr_CategoryID = None, sr_PayeeID = None, sr_Active = True,
     sr_Notes = []\<rparr>"

definition ex_term :: series_term where
  "ex_term = \<lparr>tm_ID = 1, tm_SeriesID = 9, tm_StartDate = time_date 2024 1 1, tm_EndDate = Some (time_date 2024 7 1),
     tm_Amount = 500, tm_AccountID = 3\<rparr>"

definition ex_books :: db where
  "ex_books = \<lparr>accounts = [\<lparr>ac_ID = 3, ac_UserID = 2, ac_Name = [], ac_TypeID = [], ac_Closed = False, ac_BillingDay = None\<rparr>,
       \<lparr>ac_ID = 4, ac_UserID = 2, ac_Name = [], ac_TypeID = [], ac_Closed = False, ac_BillingDay = None\<rparr>],
     transactions = [], payees = [], categories = [], loan_attachments = [], loan_disbursements = [],
     loan_schedules = [], loan_transfers = [], series = [ex_row], series_terms = [(2, ex_term)],
     recurring_attachments = [], billing_cycles = [], txn_links = [], rules = []\<rparr>"

definition ex_state :: "db world" where
  "ex_state = \<lparr>w_db = ex_books, w_faults = [], w_ids = [7, 8, 10]\<rparr>"

definition ex_change :: update_series_request where
  "ex_change = \<lparr>us_AccountID = None, us_Name = None, us_Description = None, us_Amount = Some 700, us_Type = None,
     us_Frequency = None, us_Interval = None, us_CategoryID = None, us_PayeeID = None, us_Active = None,
     us_Notes = None, us_EffectiveDate = Some ''2024-04-01'', us_Ranges = []\<rparr>"

lemma ex_loads:
  "requested_date (time_date 2024 4 10) (us_EffectiveDate ex_change) = Inr (time_date 2024 4 1, True)"
  "find_series 2 9 ex_books = Some ex_row" "terms_of 2 9 ex_books = [ex_term]"
  by code_simp+

lemma ex_derived:
  "deriveRecurringSeries (time_date 2024 4 10) (scanRecurringSeries ex_row) [ex_term] =
     (scanRecurringSeries ex_row)\<lparr>rs_StartDate := time_date 2024 1 1, rs_EndDate := Some (time_date 2024 7 1),
       rs_AccountID := 3, rs_Amount := 500\<rparr>"
  by code_simp

definition ex_after :: db where
  "ex_after = ex_books\<lparr>series_terms := [(2, ex_term\<lparr>tm_EndDate := Some (time_date 2024 4 1)\<rparr>),
     (2, ex_term\<lparr>tm_ID := 7, tm_StartDate := time_date 2024 4 1, tm_EndDate := None, tm_Amount := 700\<rparr>)]\<rparr>"

lemma ex_change_tx:
  "with_tx (update_tx 2 9 (merge_series ex_change ((scanRecurringSeries ex_row)\<lparr>rs_StartDate := time_date 2024 1 1,
      rs_EndDate := Some (time_date 2024 7 1), rs_AccountID := 3, rs_Amount := 500\<rparr>))
    [ex_term] [] True (time_date 2024 4 1)) ex_state = (Inr (), \<lparr>w_db = ex_after, w_faults = [], w_ids = [8, 10]\<rparr>)"
  by code_simp

lemma ex_merged:
  "rs_Amount (merge_series ex_change s) = 700" "rs_StartDate (merge_series ex_change s) = rs_StartDate s"
  "us_Ranges ex_change = []"
  by (simp_all add: merge_series_def ex_change_def given_def)

lemma ex_checks: "merge_checks ex_change w = (Inr (), w)"
  by (simp add: merge_checks_def when_given_def seq_def check_def ret_def ex_change_def)

lemma ex_april: "time_date 2024 4 1 < time_date 2024 1 1 \<longleftrightarrow> False"
  by code_simp

lemma ex_reads [simp]:
  "ask f ex_state = (Inr (f ex_books), ex_state)"
  "ask f \<lparr>w_db = d, w_faults = [], w_ids = is\<rparr> = (Inr (f d), \<lparr>w_db = d, w_faults = [], w_ids = is\<rparr>)"
  by (simp_all add: ask_def query_def on_error_def exec_def faulty_def sent_def ex_state_def)

lemma ex_change_runs:
  "\<exists>s. UpdateRecurringSeries (time_date 2024 4 10) 2 (Some 9) (Some ex_change) ex_state =
    (Inr s, \<lparr>w_db = ex_after, w_faults = [], w_ids = [8, 10]\<rparr>)"
  unfolding UpdateRecurringSeries_def
  by (simp add: Let_def seq_def path_id_def bind_json_def ret_def fail_def check_def or_400_def ex_loads ex_derived
      ex_change_tx ex_merged ex_april ex_checks loadRecurringSeries_def
      loadRecurringTerms_def on_error_def)

definition ex_replace :: update_series_request where
  "ex_replace = ex_change\<lparr>us_Amount := None, us_EffectiveDate := None, us_Ranges := ex_requests\<rparr>"

definition ex_create :: create_series_request where
  "ex_create = \<lparr>cs_AccountID = None, cs_Name = ''Rent'', cs_Description = [], cs_Amount = None, cs_Type = ''debit'',
     cs_Frequency = ''monthly'', cs_Interval = 0, cs_StartDate = [], cs_EndDate = [], cs_CategoryID = None,
     cs_PayeeID = None, cs_Active = None, cs_Notes = [], cs_Ranges = ex_requests\<rparr>"

definition ex_new_row :: series_row where
  "ex_new_row = ex_row\<lparr>sr_ID := 7, sr_Name := ''Rent''\<rparr>"

lemma ex_replace_tx:
  "with_tx (update_tx 2 9 (merge_series ex_replace (deriveRecurringSeries (time_date 2024 6 1) (scanRecurringSeries ex_row) [ex_term]))
      [ex_term] ex_ranges False (time_date 2024 6 1)) ex_state =
    (Inr (), \<lparr>w_db = ex_books\<lparr>series_terms := [(2, new_term 7 9 (ex_ranges ! 0)), (2, new_term 8 9 (ex_ranges ! 1))]\<rparr>,
      w_faults = [], w_ids = [10]\<rparr>)"
  by code_simp

lemma ex_create_tx:
  "with_tx (create_tx ex_new_row ex_ranges) \<lparr>w_db = ex_books, w_faults = [], w_ids = [8, 10]\<rparr> =
    (Inr (), \<lparr>w_db = ex_books\<lparr>series := [ex_row, ex_new_row], series_terms := [(2, ex_term),
      (2, new_term 8 7 (ex_ranges ! 0)), (2, new_term 10 7 (ex_ranges ! 1))]\<rparr>, w_faults = [], w_ids = []\<rparr>)"
  by code_simp

lemma ex_request_fields:
  "us_Ranges ex_replace = ex_requests" "cs_Ranges ex_create = ex_requests" "ex_requests \<noteq> []" "ex_ranges \<noteq> []"
  "merge_checks ex_replace w = (Inr (), w)"
  "requested_date (time_date 2024 6 1) (us_EffectiveDate ex_replace) = Inr (time_date 2024 6 1, False)"
  by (simp_all add: ex_replace_def ex_create_def ex_change_def ex_requests_def ex_ranges_def merge_checks_def
      when_given_def seq_def check_def ret_def requested_date_def)

lemma ex_replace_runs:
  "\<exists>s. UpdateRecurringSeries (time_date 2024 6 1) 2 (Some 9) (Some ex_replace) ex_state =
    (Inr s, \<lparr>w_db = ex_books\<lparr>series_terms := [(2, new_term 7 9 (ex_ranges ! 0)), (2, new_term 8 9 (ex_ranges ! 1))]\<rparr>,
      w_faults = [], w_ids = [10]\<rparr>)"
  unfolding UpdateRecurringSeries_def
  by (simp add: Let_def seq_def path_id_def bind_json_def ret_def check_def or_400_def ex_loads(2,3)
      ex_request_fields ex_requests_parse ex_replace_tx loadRecurringSeries_def loadRecurringTerms_def
      on_error_def)

lemma ex_create_runs:
  "\<exists>s. CreateRecurringSeries (time_date 2024 6 1) 2 (Some ex_create) ex_state =
    (Inr s, \<lparr>w_db = ex_books\<lparr>series := [ex_row, ex_new_row], series_terms := [(2, ex_term),
      (2, new_term 8 7 (ex_ranges ! 0)), (2, new_term 10 7 (ex_ranges ! 1))]\<rparr>, w_faults = [], w_ids = []\<rparr>) \<and> rs_ID s = 7"
proof -
  have "type_check (cs_Type ex_create) w = (Inr (), w)" "frequency_check (cs_Frequency ex_create) w = (Inr (), w)" for w
    by (simp_all add: type_check_def frequency_check_def check_def ret_def ex_create_def isValidRecurringFrequency_def)
  moreover have "\<lparr>sr_ID = 7, sr_UserID = 2, sr_Name = cs_Name ex_create, sr_Description = cs_Description ex_create,
      sr_Type = cs_Type ex_create, sr_Frequency = cs_Frequency ex_create,
      sr_Interval = 1,
      sr_CategoryID = cs_CategoryID ex_create, sr_PayeeID = cs_PayeeID ex_create,
      sr_Active = given (cs_Active ex_create) True, sr_Notes = cs_Notes ex_create\<rparr> = ex_new_row"
    by (simp add: ex_create_def ex_new_row_def ex_row_def given_def)
  moreover have "(new_id :: (db, http_error, uuid) prog) ex_state = (Inr 7, \<lparr>w_db = ex_books, w_faults = [], w_ids = [8, 10]\<rparr>)"
    by (simp add: new_id_def ex_state_def)
  moreover have "cs_Interval ex_create = 0"
    by (simp add: ex_create_def)
  moreover have "rs_ID (scanRecurringSeries ex_new_row) = 7"
    by (simp add: scanRecurringSeries_def ex_new_row_def)
  ultimately show ?thesis
    unfolding CreateRecurringSeries_def
    by (simp add: Let_def seq_def bind_json_def ret_def check_def or_400_def requested_ranges_def
        ex_request_fields ex_requests_parse ex_create_tx on_error_def with_derived_def)
qed

lemma ex_books_ok: "series_books ex_books"
  by (simp add: series_books_def recurring_keys_def term_refs_def terms_apart_def all_have_terms_def ex_books_def
      ex_row_def ex_term_def key_defs owns_account_def unique_links_def proper_def) code_simp

lemma ex_until: "change_until [ex_term] (time_date 2024 4 1) = None"
  by code_simp

section \<open>What an edit does\<close>

text \<open>C8. An amount or account change applies from its effective date on: after a successful edit the new
  amount and account are in force on every day from that date (not before the series' start) up to the
  next term, and every other day, covered or in a gap, resolves as before. \<open>change_until\<close> says where the
  change ends: a term the date falls inside loses its own end date, so a series that was to end, or to
  pause until its next term, goes on at the new amount.\<close>

theorem price_change_effect:
  assumes "series_books (w_db w)" "find_series u i (w_db w) = Some s0" "us_Ranges req = []"
    and "orig = deriveRecurringSeries now (scanRecurringSeries s0) (terms_of u i (w_db w))"
    and "(m, a) = (given (us_Amount req) (rs_Amount orig), given (us_AccountID req) (rs_AccountID orig))"
    and "(m, a) \<noteq> (rs_Amount orig, rs_AccountID orig)"
    and "requested_date now (us_EffectiveDate req) = Inr (e, b)" and "eff = max e (rs_StartDate orig)"
    and "UpdateRecurringSeries now u (Some i) (Some req) w = (Inr s, w')"
  shows "priced (terms_of u i (w_db w')) x =
    (if x \<in> span eff (change_until (terms_of u i (w_db w)) eff) then Some (m, a)
     else priced (terms_of u i (w_db w)) x)"
  using outcomes_elim [OF outcomes_change_run [OF assms(1-7)] assms(9)] assms(8)
  by (auto simp: repriced_def)

theorem price_change_effect_witness:
  "priced (terms_of 2 9 (w_db ex_state)) (time_date 2024 8 1) = None
   \<and> priced (terms_of 2 9 ex_after) (time_date 2024 8 1) = Some (700, 3)"
proof
  show "priced (terms_of 2 9 (w_db ex_state)) (time_date 2024 8 1) = None" by code_simp
  obtain s where run: "UpdateRecurringSeries (time_date 2024 4 10) 2 (Some 9) (Some ex_change) ex_state =
      (Inr s, \<lparr>w_db = ex_after, w_faults = [], w_ids = [8, 10]\<rparr>)"
    using ex_change_runs by blast
  have db: "w_db ex_state = ex_books" by (simp add: ex_state_def)
  have d: "time_date 2024 4 1 = max (time_date 2024 4 1) (time_date 2024 1 1)" "time_date 2024 4 1 \<le> time_date 2024 8 1"
    by code_simp+
  have given: "given (us_Amount ex_change) 500 = 700" "given (us_AccountID ex_change) 3 = 3"
    by (simp_all add: ex_change_def given_def)
  show "priced (terms_of 2 9 ex_after) (time_date 2024 8 1) = Some (700, 3)"
    using price_change_effect [where eff = "time_date 2024 4 1" and m = 700 and a = 3 and x = "time_date 2024 8 1",
        OF _ _ _ refl _ _ _ _ run] ex_loads(1) d
    by (simp add: db ex_books_ok ex_loads ex_merged ex_derived given ex_until in_span)
qed

text \<open>C18. Replacing the ranges of a series is exact: after a successful edit that supplies ranges, the terms
  of the series are those ranges, in date order, and no others.\<close>

theorem replaced_ranges_exact:
  assumes "series_books (w_db w)" "us_Ranges req \<noteq> []"
    and "UpdateRecurringSeries now u (Some i) (Some req) w = (Inr s, w')"
  shows "parseSeriesRanges now (us_Ranges req) = Inr (map range_of (terms_of u i (w_db w')))"
  using outcomes_elim [OF outcomes_replace_run [OF assms(1,2)] assms(3)] by simp

theorem replaced_ranges_exact_witness:
  "map range_of (terms_of 2 9 (ex_books\<lparr>series_terms := [(2, new_term 7 9 (ex_ranges ! 0)), (2, new_term 8 9 (ex_ranges ! 1))]\<rparr>))
    = ex_ranges"
proof -
  obtain s where "UpdateRecurringSeries (time_date 2024 6 1) 2 (Some 9) (Some ex_replace) ex_state =
      (Inr s, \<lparr>w_db = ex_books\<lparr>series_terms := [(2, new_term 7 9 (ex_ranges ! 0)), (2, new_term 8 9 (ex_ranges ! 1))]\<rparr>,
        w_faults = [], w_ids = [10]\<rparr>)"
    using ex_replace_runs by blast
  from replaced_ranges_exact [OF _ _ this] show ?thesis
    by (simp add: ex_books_ok ex_request_fields ex_requests_parse ex_state_def)
qed

text \<open>C17. A new series reads back: after a successful create the series exists, the terms stored are the
  ranges of the request, and the answer the client got is what every later read derives from those
  terms.\<close>

theorem created_series_reads_back:
  assumes "series_books (w_db w)" "CreateRecurringSeries now u (Some req) w = (Inr s, w')"
  shows "\<exists>row. find_series u (rs_ID s) (w_db w') = Some row \<and>
    s = with_derived now (deriveRecurringSeries now (scanRecurringSeries row) (terms_of u (rs_ID s) (w_db w'))) \<and>
    (cs_Ranges req \<noteq> [] \<longrightarrow> parseSeriesRanges now (cs_Ranges req) = Inr (map range_of (terms_of u (rs_ID s) (w_db w'))))"
  using outcomes_elim [OF outcomes_create_run [OF assms(1)] assms(2)] by simp

theorem created_series_reads_back_witness:
  "map range_of (terms_of 2 7 (ex_books\<lparr>series := [ex_row, ex_new_row], series_terms := [(2, ex_term),
      (2, new_term 8 7 (ex_ranges ! 0)), (2, new_term 10 7 (ex_ranges ! 1))]\<rparr>)) = ex_ranges"
proof -
  obtain s where run: "CreateRecurringSeries (time_date 2024 6 1) 2 (Some ex_create) ex_state =
      (Inr s, \<lparr>w_db = ex_books\<lparr>series := [ex_row, ex_new_row], series_terms := [(2, ex_term),
        (2, new_term 8 7 (ex_ranges ! 0)), (2, new_term 10 7 (ex_ranges ! 1))]\<rparr>, w_faults = [], w_ids = []\<rparr>)"
    and s: "rs_ID s = 7"
    using ex_create_runs by blast
  have "series_books (w_db ex_state)" by (simp add: ex_state_def ex_books_ok)
  from created_series_reads_back [OF this run] show ?thesis
    by (auto simp: ex_request_fields ex_requests_parse s)
qed

end
