(* ===== verification/Recurring_Race.thy ===== *)
theory Recurring_Race
  imports Recurring_Edits
begin

text \<open>
  Two requests that add a term to the same series and overlap in time. \<open>CreateRecurringTerm\<close> reads the terms
  and checks the new range against them before it opens its transaction, so the handler is two steps
  here: what it reads and checks, and what it writes. Between the two, another request may write.
\<close>

section \<open>The handler in two steps\<close>

definition term_reads ::
  "date \<Rightarrow> uuid \<Rightarrow> uuid option \<Rightarrow> create_term_request option \<Rightarrow> (db, http_error, uuid \<times> parsed_range) prog" where
  "term_reads now u p body =
     seq (path_id ''invalid id'' p) (\<lambda>i.
     seq (bind_json body) (\<lambda>req.
     seq (check (ct_Amount req > 0) (bad_request ''amount must be positive'')) (\<lambda>_.
     seq (or_400 (parseRecurringDate now (ct_StartDate req))) (\<lambda>start.
     seq (or_400 (parseRecurringEnd now (ct_EndDate req) start)) (\<lambda>en.
     seq (loadRecurringSeries u i) (\<lambda>_.
     seq (loadRecurringTerms u i) (\<lambda>terms.
     seq (check (\<not> recurringTermsOverlap terms start en 0) (bad_request errRecurringRangeOverlap)) (\<lambda>_.
       ret (i, \<lparr>pr_start = start, pr_end = en, pr_amount = ct_Amount req, pr_account = ct_AccountID req\<rparr>)))))))))"

definition term_writes :: "uuid \<Rightarrow> uuid \<times> parsed_range \<Rightarrow> (db, http_error, series_term) prog" where
  "term_writes u = (\<lambda>(i, r).
     seq new_id (\<lambda>k.
     seq (on_error (with_tx (seq (exec (insert_term u (new_term k i r))) (\<lambda>n. check (n \<noteq> 0) no_rows))) term_error) (\<lambda>_.
       ret (new_term k i r))))"

lemma seq_assoc: "seq (seq m f) g = seq m (\<lambda>a. seq (f a) g)"
  by (auto simp: seq_def fun_eq_iff split: prod.splits sum.splits)

lemma seq_ret: "seq (ret a) f = f a"
  by (simp add: seq_def ret_def fun_eq_iff)

lemma create_term_uninterrupted: "CreateRecurringTerm now u p body = seq (term_reads now u p body) (term_writes u)"
  unfolding CreateRecurringTerm_def term_reads_def term_writes_def seq_assoc seq_ret
  by (simp add: new_term_def Let_def)

lemma outcomes_term_writes:
  "outcomes (term_writes u (i, r)) (\<lambda>t d'. (\<exists>k. t = new_term k i r) \<and> insert_term u t d = Inr (1, d')) (\<lambda>_ _. True) d"
  unfolding term_writes_def prod.case
  by (intro wp TrueI) (auto elim: insert_term_Inr)

section \<open>Both are accepted\<close>

text \<open>C35. The overlap check does not survive concurrency: when two requests for ranges that share a day both
  run their check before either writes, and both are answered with success, the series holds both
  terms, so that day has two. The unique index behind the \<open>23505\<close> answer only tells the two apart when
  they start on the same day.\<close>

theorem concurrent_terms_overlap:
  assumes "term_reads now u p b1 w = (Inr (i, r1), w1)" "term_reads now u p b2 w1 = (Inr (i, r2), w2)"
    and "term_writes u (i, r1) w2 = (Inr t1, w3)" "term_writes u (i, r2) w3 = (Inr t2, w4)"
    and "x \<in> span (pr_start r1) (pr_end r1)" "x \<in> span (pr_start r2) (pr_end r2)"
  shows "(u, t1) \<in> set (series_terms (w_db w4)) \<and> (u, t2) \<in> set (series_terms (w_db w4)) \<and>
    covers t1 x \<and> covers t2 x \<and> tm_StartDate t1 \<noteq> tm_StartDate t2 \<and> \<not> series_books (w_db w4)"
proof -
  obtain k1 where t1: "t1 = new_term k1 i r1" and one: "insert_term u t1 (w_db w2) = Inr (1, w_db w3)"
    using outcomes_elim [OF outcomes_term_writes assms(3)] by auto
  obtain k2 where t2: "t2 = new_term k2 i r2" and two: "insert_term u t2 (w_db w3) = Inr (1, w_db w4)"
    using outcomes_elim [OF outcomes_term_writes assms(4)] by auto
  have w3: "w_db w3 = (w_db w2)\<lparr>series_terms := series_terms (w_db w2) @ [(u, t1)]\<rparr>"
    using one by (auto elim: insert_term_Inr)
  have w4: "w_db w4 = (w_db w3)\<lparr>series_terms := series_terms (w_db w3) @ [(u, t2)]\<rparr>"
    using two by (auto elim: insert_term_Inr)
  have free: "\<not> term_clash u t2 (u, t1)"
    using two by (auto simp: insert_term_def w3 split: if_splits)
  then have start: "tm_StartDate t1 \<noteq> tm_StartDate t2" by (simp add: term_clash_def t1 t2)
  have cov: "covers t1 x" "covers t2 x" using assms(5,6) by (simp_all add: t1 t2)
  have mem: "(u, t1) \<in> set (series_terms (w_db w4))" "(u, t2) \<in> set (series_terms (w_db w4))"
    by (simp_all add: w3 w4)
  have "\<not> terms_apart (w_db w4)"
  proof
    assume ok: "terms_apart (w_db w4)"
    then have "proper_term t1" "proper_term t2" using mem by (auto simp: terms_apart_def)
    moreover have "apart (snd (u, t1)) (snd (u, t2))"
    proof (rule terms_apartD [OF ok mem])
      show "term_series (u, t1) = term_series (u, t2)" by (simp add: term_series_def t1 t2)
      show "(u, t1) \<noteq> (u, t2)" using start by blast
    qed
    ultimately show False using apart_iff [of t1 t2] cov by auto
  qed
  then show ?thesis using mem cov start by (auto simp: series_books_def)
qed

definition ex_add :: "string \<Rightarrow> create_term_request option" where
  "ex_add start = Some \<lparr>ct_StartDate = start, ct_EndDate = [], ct_Amount = 900, ct_AccountID = 3\<rparr>"

definition ex_add_range :: "date \<Rightarrow> parsed_range" where
  "ex_add_range start = \<lparr>pr_start = start, pr_end = None, pr_amount = 900, pr_account = 3\<rparr>"

lemma ex_add_runs:
  "term_reads (time_date 2024 4 10) 2 (Some 9) (ex_add ''2024-08-01'') ex_state = (Inr (9, ex_add_range (time_date 2024 8 1)), ex_state)"
  "term_reads (time_date 2024 4 10) 2 (Some 9) (ex_add ''2024-09-01'') ex_state = (Inr (9, ex_add_range (time_date 2024 9 1)), ex_state)"
  "term_writes 2 (9, ex_add_range (time_date 2024 8 1)) ex_state = (Inr (new_term 7 9 (ex_add_range (time_date 2024 8 1))),
    \<lparr>w_db = ex_books\<lparr>series_terms := [(2, ex_term), (2, new_term 7 9 (ex_add_range (time_date 2024 8 1)))]\<rparr>,
     w_faults = [], w_ids = [8, 10]\<rparr>)"
  "term_writes 2 (9, ex_add_range (time_date 2024 9 1))
    \<lparr>w_db = ex_books\<lparr>series_terms := [(2, ex_term), (2, new_term 7 9 (ex_add_range (time_date 2024 8 1)))]\<rparr>,
     w_faults = [], w_ids = [8, 10]\<rparr> =
    (Inr (new_term 8 9 (ex_add_range (time_date 2024 9 1))),
     \<lparr>w_db = ex_books\<lparr>series_terms := [(2, ex_term), (2, new_term 7 9 (ex_add_range (time_date 2024 8 1))),
       (2, new_term 8 9 (ex_add_range (time_date 2024 9 1)))]\<rparr>, w_faults = [], w_ids = [10]\<rparr>)"
  by code_simp+

theorem concurrent_terms_overlap_witness:
  "series_books (w_db ex_state) \<and> \<not> series_books (ex_books\<lparr>series_terms := [(2, ex_term),
     (2, new_term 7 9 (ex_add_range (time_date 2024 8 1))), (2, new_term 8 9 (ex_add_range (time_date 2024 9 1)))]\<rparr>)"
proof -
  have "time_date 2024 8 1 \<le> time_date 2024 9 1" by code_simp
  then show ?thesis
    using concurrent_terms_overlap [OF ex_add_runs, of "time_date 2024 9 1"] ex_books_ok
    by (simp add: ex_add_range_def in_span ex_state_def)
qed

end
