(* ===== verification/Suggestions.thy ===== *)
theory Suggestions
  imports Schedule Terms
begin

text \<open>
  Scoring and paging of the candidate transactions of a series (\<open>calculateRecurringScore\<close> and the
  ranking half of \<open>GetRecurringSuggestions\<close>). A score is finite and lies in \<open>[0, 100]\<close>, hence the
  comparison of the stable sort is a strict weak order; the page built from the sorted list never
  repeats an occurrence date and is as long as the limit and the distinct occurrences allow.
\<close>

section \<open>Finite floating point results\<close>

definition f64_bounded :: "rat \<Rightarrow> float64 \<Rightarrow> bool" where
  "f64_bounded b x \<longleftrightarrow> (\<exists>a. x = Fin a \<and> \<bar>a\<bar> \<le> b)"

lemma f64_bounded_fin: "f64_bounded b x \<Longrightarrow> \<exists>z. x = Fin z"
  by (auto simp: f64_bounded_def)

lemma f64_bounded_round:
  assumes "\<bar>x\<bar> \<le> pow2 k" "- 1074 \<le> k" "k < 1024"
  shows "f64_bounded (pow2 k) (f64_round x)"
proof (cases "0 \<le> x")
  case True
  then show ?thesis using f64_round_within [of x k] assms by (auto simp: f64_within_def f64_bounded_def)
next
  case False
  then have "f64_within (pow2 k) (f64_round (- x))" using assms by (intro f64_round_within) simp_all
  then obtain a where "f64_round (- x) = Fin a" "0 \<le> a" "a \<le> pow2 k" by (auto simp: f64_within_def)
  moreover have "f64_round x = f64_neg (f64_round (- x))" using f64_round_minus [of "- x"] by simp
  ultimately show ?thesis by (simp add: f64_bounded_def)
qed

lemma f64_bounded_add:
  assumes "f64_bounded (pow2 k) x" "f64_bounded (pow2 k) y" "0 \<le> k" "k < 1023"
  shows "f64_bounded (pow2 (k + 1)) (f64_add x y)"
proof -
  obtain a b where ab: "x = Fin a" "\<bar>a\<bar> \<le> pow2 k" "y = Fin b" "\<bar>b\<bar> \<le> pow2 k"
    using assms(1,2) by (auto simp: f64_bounded_def)
  have "pow2 (k + 1) = pow2 k + pow2 k" by (simp add: pow2_add pow2_def [of 1])
  then have "\<bar>a + b\<bar> \<le> pow2 (k + 1)" using ab by linarith
  then show ?thesis using ab assms(3,4) by (simp add: f64_bounded_round)
qed

lemma f64_bounded_mono: "f64_bounded (pow2 j) x \<Longrightarrow> j \<le> k \<Longrightarrow> f64_bounded (pow2 k) x"
  unfolding f64_bounded_def using pow2_mono order_trans by blast

lemma f64_bounded_small: "\<bar>a\<bar> \<le> 128 \<Longrightarrow> 7 \<le> k \<Longrightarrow> f64_bounded (pow2 k) (Fin a)"
proof -
  assume "\<bar>a\<bar> \<le> 128" "7 \<le> k"
  moreover have "(128 :: rat) = pow2 7" by (simp add: pow2_def)
  ultimately show "f64_bounded (pow2 k) (Fin a)"
    using pow2_mono [of 7 k] by (simp add: f64_bounded_def)
qed

section \<open>The score\<close>

definition score_ok :: "float64 \<Rightarrow> bool" where
  "score_ok x \<longleftrightarrow> (\<exists>a. x = Fin a \<and> 0 \<le> a \<and> a \<le> 100)"

lemma score_ok_clamp:
  assumes "x = Fin a"
  shows "score_ok (let y = (if f64_less x (Fin 0) then Fin 0 else x)
                   in if f64_less (Fin 100) y then Fin 100 else y)"
  using assms by (auto simp: score_ok_def Let_def)

lemma bonus_bounded:
  assumes "f64_bounded (pow2 k) x" "7 \<le> k" "k < 1023" "0 \<le> a" "a \<le> 128"
  shows "f64_bounded (pow2 (k + 1)) (if b then f64_add x (Fin a) else x)"
  using f64_bounded_add [OF assms(1) f64_bounded_small [of a k]] f64_bounded_mono [OF assms(1), of "k + 1"]
    assms(2-5) by simp

lemma score_ok_calculate:
  assumes "daysOff = Fin a" "0 \<le> a" "a \<le> pow2 53"
  shows "score_ok (calculateRecurringScore s txn daysOff)"
proof -
  have "pow2 56 = pow2 53 * 8" by (simp add: pow2_def)
  then have "\<bar>a * 8\<bar> \<le> pow2 56" using assms(2,3) by simp
  then have "f64_bounded (pow2 56) (f64_mul daysOff (Fin 8))"
    using f64_bounded_round [of "a * 8" 56] assms(1) by simp
  then have "f64_bounded (pow2 56) (f64_neg (f64_mul daysOff (Fin 8)))"
    by (auto simp: f64_bounded_def)
  then have b0: "f64_bounded (pow2 57) (f64_sub (Fin 100) (f64_mul daysOff (Fin 8)))"
    unfolding f64_sub_def using f64_bounded_add [of 56 "Fin 100"] f64_bounded_small [of 100 56] by simp
  have "f64_bounded (pow2 58) (if P then f64_add (f64_sub (Fin 100) (f64_mul daysOff (Fin 8))) (Fin 15)
      else f64_sub (Fin 100) (f64_mul daysOff (Fin 8)))" for P
    using bonus_bounded [OF b0, of 15 P] by simp
  from bonus_bounded [OF this, of 10]
  have b2: "f64_bounded (pow2 59) (let score = f64_sub (Fin 100) (f64_mul daysOff (Fin 8));
          score = (if P then f64_add score (Fin 15) else score)
      in if Q then f64_add score (Fin 10) else score)" for P Q
    unfolding Let_def by simp
  have b3: "f64_bounded (pow2 60) (let score = f64_sub (Fin 100) (f64_mul daysOff (Fin 8));
          score = (if P then f64_add score (Fin 15) else score);
          score = (if Q then f64_add score (Fin 10) else score)
      in if R then f64_add score (Fin 10) else score)" for P Q R
    using bonus_bounded [OF b2, of 10 R] unfolding Let_def by simp
  obtain z where "(let score = f64_sub (Fin 100) (f64_mul daysOff (Fin 8));
          score = (if recurringDescriptionMatches s (cd_Description txn)
                   then f64_add score (Fin 15) else score);
          score = (if rs_CategoryID s \<noteq> None \<and> cd_CategoryID txn \<noteq> None
                      \<and> rs_CategoryID s = cd_CategoryID txn then f64_add score (Fin 10) else score)
      in if rs_PayeeID s \<noteq> None \<and> cd_PayeeID txn \<noteq> None
                      \<and> rs_PayeeID s = cd_PayeeID txn then f64_add score (Fin 10) else score) = Fin z"
    using f64_bounded_fin [OF b3] by blast
  from score_ok_clamp [OF this] show ?thesis
    unfolding calculateRecurringScore_def Let_def .
qed

section \<open>The order of the candidates\<close>

definition score_of :: "suggestion \<Rightarrow> rat" where
  "score_of g = (case sg_Score g of Fin a \<Rightarrow> a | _ \<Rightarrow> 0)"

text \<open>A candidate no other one may overtake: a higher score, or the same score and a later day.\<close>

definition ranked :: "suggestion \<Rightarrow> suggestion \<Rightarrow> bool" where
  "ranked a b \<longleftrightarrow> score_of b < score_of a
     \<or> score_of a = score_of b \<and> sg_OccurrenceDate b \<le> sg_OccurrenceDate a"

lemma ranks_before_iff:
  assumes "score_ok (sg_Score a)" "score_ok (sg_Score b)"
  shows "ranks_before b a \<longleftrightarrow> \<not> ranked a b"
  using assms by (auto simp: ranks_before_def ranked_def score_ok_def score_of_def)

lemma ranked_trans: "ranked a b \<Longrightarrow> ranked b c \<Longrightarrow> ranked a c"
  by (auto simp: ranked_def)

lemma ranked_total: "ranked a b \<or> ranked b a"
  by (auto simp: ranked_def)

lemma set_insert_stable [simp]: "set (insert_stable lt x xs) = insert x (set xs)"
  by (induction xs) auto

lemma set_stable_sort [simp]: "set (stable_sort lt xs) = set xs"
  by (induction xs) (simp_all add: stable_sort_def)

lemma insert_stable_sorted:
  assumes "\<forall>g \<in> insert x (set xs). score_ok (sg_Score g)" "sorted_wrt ranked xs"
  shows "sorted_wrt ranked (insert_stable ranks_before x xs)"
  using assms
proof (induction xs)
  case Nil
  then show ?case by simp
next
  case (Cons y ys)
  show ?case
  proof (cases "ranks_before y x")
    case True
    then have "ranked y x"
      using ranks_before_iff [of x y] ranked_total [of x y] Cons.prems(1) by simp
    then show ?thesis using Cons True by auto
  next
    case False
    then have "ranked x y" using ranks_before_iff [of x y] Cons.prems(1) by simp
    then show ?thesis using Cons.prems(2) False ranked_trans [of x y] by auto
  qed
qed

lemma stable_sort_sorted:
  "\<forall>g \<in> set xs. score_ok (sg_Score g) \<Longrightarrow> sorted_wrt ranked (stable_sort ranks_before xs)"
proof (induction xs)
  case Nil
  then show ?case by (simp add: stable_sort_def)
next
  case (Cons x xs)
  have "stable_sort ranks_before (x # xs) = insert_stable ranks_before x (stable_sort ranks_before xs)"
    by (simp add: stable_sort_def)
  then show ?case using Cons by (simp add: insert_stable_sorted)
qed

section \<open>The page\<close>

abbreviation occ_key :: "suggestion \<Rightarrow> date" where
  "occ_key g \<equiv> dateOnly (sg_OccurrenceDate g)"

definition page_ok :: "suggestion list \<Rightarrow> page \<Rightarrow> bool" where
  "page_ok found p \<longleftrightarrow> (case p of (out, occs, ranges) \<Rightarrow>
     set occs = occ_key ` set out \<and> distinct (map occ_key out) \<and> set out \<subseteq> set found)"

definition page_grows :: "page \<Rightarrow> page \<Rightarrow> bool" where
  "page_grows p q \<longleftrightarrow> (\<exists>r. fst q = fst p @ r)"

lemma page_grows_refl [simp]: "page_grows p p"
  by (simp add: page_grows_def)

lemma page_grows_trans: "page_grows p q \<Longrightarrow> page_grows q r \<Longrightarrow> page_grows p r"
  by (auto simp: page_grows_def)

lemma page_add_ok: "page_ok found p \<Longrightarrow> g \<in> set found \<Longrightarrow> page_ok found (page_add g p)"
  by (auto simp: page_ok_def page_add_def Let_def split: prod.splits)

lemma page_add_grows: "page_grows p (page_add g p)"
  by (auto simp: page_grows_def page_add_def Let_def split: prod.splits)

lemma page_add_has: "page_ok found p \<Longrightarrow> occ_key g \<in> occ_key ` set (fst (page_add g p))"
  by (auto simp: page_ok_def page_add_def Let_def split: prod.splits)

lemma page_add_length: "length (fst (page_add g p)) \<le> Suc (length (fst p))"
  by (auto simp: page_add_def Let_def split: prod.splits)

definition page_step :: "suggestion list \<Rightarrow> int \<Rightarrow> page \<Rightarrow> page \<Rightarrow> bool" where
  "page_step found limit p q \<longleftrightarrow> page_ok found q \<and> page_grows p q
     \<and> (int (length (fst p)) \<le> limit \<longrightarrow> int (length (fst q)) \<le> limit)"

lemma page_step_add:
  assumes "page_ok found p" "g \<in> set found" "int (length (fst p)) < limit"
    "page_step found limit (page_add g p) q"
  shows "page_step found limit p q"
  using assms page_add_length [of g p] page_grows_trans [OF page_add_grows [of p g]]
  unfolding page_step_def by fastforce

lemma page_ranges_step:
  assumes "page_ok found p" "set gs \<subseteq> set found"
  shows "page_step found limit p (page_ranges limit gs p)"
  using assms
proof (induction limit gs p rule: page_ranges.induct)
  case (1 limit p)
  then show ?case by (simp add: page_step_def)
next
  case (2 limit g gs p)
  show ?case
  proof (cases "int (length (fst p)) \<ge> limit \<or> sg_Range g \<in> set (snd (snd p))")
    case True
    then show ?thesis using 2 by (auto simp: page_step_def)
  next
    case False
    then show ?thesis using 2 by (auto intro!: page_step_add [of found p g] page_add_ok)
  qed
qed

lemma page_step_refl: "page_ok found p \<Longrightarrow> page_step found limit p p"
  by (simp add: page_step_def)

lemma page_fill_step:
  assumes "page_ok found p" "set gs \<subseteq> set found"
  shows "page_step found limit p (page_fill limit gs p)"
  using assms
proof (induction limit gs p rule: page_fill.induct)
  case (1 limit p)
  then show ?case by (simp add: page_step_refl)
next
  case (2 limit g gs p)
  then show ?case
    using page_step_add [of found p g limit] page_add_ok [of found p g] page_step_refl [of found p limit]
    by simp
qed

lemma grows_keeps: "page_grows p q \<Longrightarrow> x \<in> f ` set (fst p) \<Longrightarrow> x \<in> f ` set (fst q)"
  by (auto simp: page_grows_def)

text \<open>After the second pass either the page is full or every candidate's occurrence is on it.\<close>

definition page_done :: "int \<Rightarrow> suggestion list \<Rightarrow> page \<Rightarrow> bool" where
  "page_done limit gs p \<longleftrightarrow>
     int (length (fst p)) \<ge> limit \<or> occ_key ` set gs \<subseteq> occ_key ` set (fst p)"

lemma page_done_Cons:
  assumes "page_ok found p" "set (g # gs) \<subseteq> set found"
    and "page_done limit gs (page_fill limit gs (page_add g p))"
  shows "page_done limit (g # gs) (page_fill limit gs (page_add g p))"
proof -
  have "page_ok found (page_add g p)" using assms(1,2) by (simp add: page_add_ok)
  then have "page_grows (page_add g p) (page_fill limit gs (page_add g p))"
    using page_fill_step [of found "page_add g p" gs limit] assms(2) by (simp add: page_step_def)
  from grows_keeps [OF this page_add_has [OF assms(1), of g]]
  have "occ_key g \<in> occ_key ` set (fst (page_fill limit gs (page_add g p)))" .
  then show ?thesis using assms(3) by (auto simp: page_done_def)
qed

lemma page_fill_complete:
  assumes "page_ok found p" "set gs \<subseteq> set found"
  shows "page_done limit gs (page_fill limit gs p)"
  using assms
proof (induction limit gs p rule: page_fill.induct)
  case (1 limit p)
  then show ?case by (simp add: page_done_def)
next
  case (2 limit g gs p)
  show ?case
  proof (cases "int (length (fst p)) \<ge> limit")
    case True
    then show ?thesis by (simp add: page_done_def)
  next
    case False
    then have "page_done limit gs (page_fill limit gs (page_add g p))"
      using 2 by (simp add: page_add_ok)
    then show ?thesis using page_done_Cons [OF 2(2,3)] False by simp
  qed
qed

lemma page_facts:
  fixes found :: "suggestion list" and limit :: int
  defines "scored \<equiv> stable_sort ranks_before found"
  defines "p \<equiv> page_ranges limit scored ([], [], [])"
  assumes "0 \<le> limit"
  shows "page_step found limit p (page_fill limit scored p)" and "page_ok found p"
    and "page_step found limit ([], [], []) p"
proof -
  have sub: "set scored \<subseteq> set found" by (simp add: scored_def)
  have "page_ok found ([], [], [])" by (simp add: page_ok_def)
  from page_ranges_step [OF this sub, of limit] show s: "page_step found limit ([], [], []) p"
    by (simp add: p_def)
  then show "page_ok found p" by (simp add: page_step_def)
  from page_fill_step [OF this sub, of limit] show "page_step found limit p (page_fill limit scored p)" .
qed

lemma suggestion_page_ok:
  assumes "0 \<le> limit"
  shows "distinct (map occ_key (suggestion_page limit found))"
    and "set (suggestion_page limit found) \<subseteq> set found"
    and "int (length (suggestion_page limit found)) = min limit (int (card (occ_key ` set found)))"
proof -
  let ?scored = "stable_sort ranks_before found"
  let ?p = "page_ranges limit ?scored ([], [], [])" and ?out = "suggestion_page limit found"
  note f = page_facts [OF assms, of found]
  have ok: "page_ok found (page_fill limit ?scored ?p)" using f(1) by (simp add: page_step_def)
  show d: "distinct (map occ_key ?out)" and s: "set ?out \<subseteq> set found"
    using ok by (auto simp: page_ok_def suggestion_page_def Let_def split: prod.splits)
  have le: "int (length ?out) \<le> limit"
    using f(1,3) assms by (simp add: page_step_def suggestion_page_def Let_def)
  have len: "length ?out = card (occ_key ` set ?out)" using distinct_card [OF d] by simp
  have "occ_key ` set ?out \<subseteq> occ_key ` set found" using s by blast
  then have le2: "length ?out \<le> card (occ_key ` set found)"
    unfolding len by (intro card_mono) simp_all
  have "page_done limit ?scored (page_fill limit ?scored ?p)"
    by (rule page_fill_complete [OF f(2)]) simp
  then have "int (length ?out) \<ge> limit \<or> occ_key ` set found \<subseteq> occ_key ` set ?out"
    by (simp add: page_done_def suggestion_page_def Let_def)
  then have "int (length ?out) \<ge> limit \<or> card (occ_key ` set found) \<le> length ?out"
    unfolding len by (metis card_mono finite_imageI finite_set)
  then show "int (length ?out) = min limit (int (card (occ_key ` set found)))"
    using le le2 by linarith
qed

lemma suggestion_page_best:
  assumes "0 < limit" "found \<noteq> []" "\<forall>g \<in> set found. score_ok (sg_Score g)"
  shows "suggestion_page limit found \<noteq> [] \<and> (\<forall>g \<in> set found. ranked (hd (suggestion_page limit found)) g)"
proof -
  let ?scored = "stable_sort ranks_before found"
  let ?p = "page_ranges limit ?scored ([], [], [])"
  have sorted: "sorted_wrt ranked ?scored" using assms(3) by (rule stable_sort_sorted)
  obtain g gs where sc: "?scored = g # gs"
    using assms(2) set_stable_sort [of ranks_before found] by (cases ?scored) (auto simp del: set_stable_sort)
  define p1 where "p1 = page_add g ([], [], [])"
  have p1: "fst p1 = [g]" by (simp add: p1_def page_add_def Let_def)
  have g: "g \<in> set found" using sc set_stable_sort [of ranks_before found] by auto
  have gs: "set gs \<subseteq> set found" using sc set_stable_sort [of ranks_before found] by auto
  have ok1: "page_ok found p1" unfolding p1_def using g by (intro page_add_ok) (simp_all add: page_ok_def)
  have "?p = page_ranges limit gs p1" using sc assms(1) by (simp add: p1_def)
  then have "page_grows p1 ?p" using page_ranges_step [OF ok1 gs, of limit] by (simp add: page_step_def)
  moreover have "page_grows ?p (page_fill limit ?scored ?p)"
    using page_facts(1) [of limit found] assms(1) by (simp add: page_step_def)
  ultimately have "page_grows p1 (page_fill limit ?scored ?p)" by (rule page_grows_trans)
  then have hd: "\<exists>r. suggestion_page limit found = g # r"
    by (simp add: page_grows_def p1 suggestion_page_def Let_def)
  have "ranked g h" if "h \<in> set found" for h
  proof -
    have "h \<in> set (g # gs)" using that sc set_stable_sort [of ranks_before found] by simp
    then show ?thesis using sorted sc by (auto simp: ranked_def)
  qed
  then show ?thesis using hd by auto
qed

section \<open>The candidates\<close>

lemma nearest_found:
  assumes "nearestRecurringOccurrence s d = (occ, off, True)"
  shows "off = days_apart occ d \<and> (\<exists>j. scheduled s j \<and> occ = occ_of s j)"
  using nearest_loop_correct [of s "dateOnly d" 0 0 MaxFloat64 False] assms
  by (simp add: nearest_among_def nearestRecurringOccurrence_def)

lemma score_candidates_mem:
  assumes "g \<in> set (score_candidates s terms txns)"
  obtains t where "recurringTermContaining terms (cd_Date (sg_Txn g)) = Some t"
    and "sg_Txn g \<in> set txns" "sg_Range g = tm_ID t"
    and "cd_AccountID (sg_Txn g) = tm_AccountID t" "cd_Amount (sg_Txn g) = tm_Amount t"
    and "nearestRecurringOccurrence s (cd_Date (sg_Txn g)) = (sg_OccurrenceDate g, sg_DaysOff g, True)"
    and "\<not> f64_less (recurringMaxDaysOff s) (sg_DaysOff g)"
    and "sg_Score g = calculateRecurringScore s (sg_Txn g) (sg_DaysOff g)"
proof -
  obtain txn where "txn \<in> set txns" "g \<in> set (case recurringTermContaining terms (cd_Date txn) of
          None \<Rightarrow> []
        | Some active \<Rightarrow>
            if cd_AccountID txn \<noteq> tm_AccountID active \<or> cd_Amount txn \<noteq> tm_Amount active then []
            else case nearestRecurringOccurrence s (cd_Date txn) of (occ, daysOff, ok) \<Rightarrow>
              if \<not> ok \<or> f64_less (recurringMaxDaysOff s) daysOff then []
              else [\<lparr>sg_Txn = txn, sg_Score = calculateRecurringScore s txn daysOff,
                     sg_OccurrenceDate = occ, sg_DaysOff = daysOff, sg_Range = tm_ID active\<rparr>])"
    using assms by (auto simp: score_candidates_def)
  moreover from this(2) obtain t where "recurringTermContaining terms (cd_Date txn) = Some t"
    by (cases "recurringTermContaining terms (cd_Date txn)") auto
  moreover obtain occ off ok where "nearestRecurringOccurrence s (cd_Date txn) = (occ, off, ok)"
    by (metis prod_cases3)
  ultimately show ?thesis using that [of t] by (auto split: if_splits)
qed

lemma score_candidates_ok:
  assumes "g \<in> set (score_candidates s terms txns)"
  shows "score_ok (sg_Score g)"
  using assms
proof (rule score_candidates_mem)
  assume "nearestRecurringOccurrence s (cd_Date (sg_Txn g)) = (sg_OccurrenceDate g, sg_DaysOff g, True)"
    and sc: "sg_Score g = calculateRecurringScore s (sg_Txn g) (sg_DaysOff g)"
  then have "sg_DaysOff g = days_apart (sg_OccurrenceDate g) (cd_Date (sg_Txn g))"
    using nearest_found by blast
  then show ?thesis
    unfolding sc days_apart_dist using score_ok_calculate [OF refl] dist_bounds by simp
qed

text \<open>C32. Every suggestion is a real match: its transaction lies inside exactly the term the
  suggestion names, has that term's account and amount, is scored against an occurrence the series
  really has, no further away than the frequency's window, and its score lies in \<open>[0, 100]\<close>.\<close>

theorem suggestions_sound:
  assumes "g \<in> set (score_candidates s terms txns)"
  shows "sg_Txn g \<in> set txns
    \<and> (\<exists>t. recurringTermContaining terms (cd_Date (sg_Txn g)) = Some t \<and> sg_Range g = tm_ID t
        \<and> cd_AccountID (sg_Txn g) = tm_AccountID t \<and> cd_Amount (sg_Txn g) = tm_Amount t)
    \<and> (\<exists>j. scheduled s j \<and> sg_OccurrenceDate g = occ_of s j)
    \<and> sg_DaysOff g = Fin (day_dist (sg_OccurrenceDate g) (cd_Date (sg_Txn g)))
    \<and> \<not> f64_less (recurringMaxDaysOff s) (sg_DaysOff g)
    \<and> (\<exists>a. sg_Score g = Fin a \<and> 0 \<le> a \<and> a \<le> 100)"
proof -
  have "score_ok (sg_Score g)" using assms by (rule score_candidates_ok)
  moreover from assms obtain t where t: "recurringTermContaining terms (cd_Date (sg_Txn g)) = Some t"
    "sg_Txn g \<in> set txns" "sg_Range g = tm_ID t"
    "cd_AccountID (sg_Txn g) = tm_AccountID t" "cd_Amount (sg_Txn g) = tm_Amount t"
    "nearestRecurringOccurrence s (cd_Date (sg_Txn g)) = (sg_OccurrenceDate g, sg_DaysOff g, True)"
    "\<not> f64_less (recurringMaxDaysOff s) (sg_DaysOff g)"
    by (rule score_candidates_mem)
  moreover from nearest_found [OF t(6)] have "\<exists>j. scheduled s j \<and> sg_OccurrenceDate g = occ_of s j"
    "sg_DaysOff g = Fin (day_dist (sg_OccurrenceDate g) (cd_Date (sg_Txn g)))"
    by (simp_all add: days_apart_dist)
  ultimately show ?thesis unfolding score_ok_def by blast
qed

text \<open>The page of suggestions: no occurrence date appears twice, its length is exactly the limit
  or the number of distinct occurrences among the candidates, whichever is smaller, and its first
  entry is a best-ranked candidate of the whole list (highest score, then latest occurrence).\<close>

theorem suggestion_page_spec:
  fixes limit :: int and s :: recurring_series and terms :: "series_term list" and txns :: "candidate list"
  defines "found \<equiv> score_candidates s terms txns"
  assumes "0 < limit"
  shows "distinct (map occ_key (suggestion_page limit found))
    \<and> set (suggestion_page limit found) \<subseteq> set found
    \<and> int (length (suggestion_page limit found)) = min limit (int (card (occ_key ` set found)))
    \<and> (found \<noteq> [] \<longrightarrow> (\<forall>g \<in> set found. ranked (hd (suggestion_page limit found)) g))"
  using suggestion_page_ok [of limit found] suggestion_page_best [of limit found]
    score_candidates_ok assms by (auto simp: found_def)

definition ex_payment :: candidate where
  "ex_payment = \<lparr>cd_ID = 77, cd_AccountID = 3, cd_Date = 100, cd_Description = [], cd_Amount = 500,
     cd_Type = ''debit'', cd_CategoryID = None, cd_PayeeID = None\<rparr>"

lemma time_date_add: "time_date (year_of n) (month_of n) (day_of n + k) = n + k"
proof -
  have "time_date (year_of n) (month_of n) (day_of n + k) = time_date (year_of n) (month_of n) (day_of n) + k"
    by (simp only: time_date_in_range [OF month_of_range] algebra_simps)
  then show ?thesis by simp
qed

lemma ex_milk_nearest: "nearestRecurringOccurrence ex_milk 100 = (100, Fin 0, True)"
proof -
  have occ: "occ_of ex_milk 0 = 100" "occ_of ex_milk (Suc 0) = 101"
    by (simp_all add: occ_of_def ex_milk_def recurringOccurrenceAt_def add_date_def Let_def time_date_add)
  have d: "days_apart 100 100 = Fin 0" "days_apart 101 100 = Fin 1" by (simp_all add: days_apart_exact)
  have "f64_less (Fin 0) MaxFloat64" by (metis d(1) days_apart_less_Max)
  then show ?thesis
    unfolding nearestRecurringOccurrence_def dateOnly_id
    by (subst nearest_loop.simps, subst nearest_loop.simps)
      (simp add: occ d past_end_def ex_milk_def [THEN arg_cong, of rs_EndDate, simplified] maxRecurringSteps_def Let_def)
qed

lemma ex_milk_scored: "score_candidates ex_milk ex_terms [ex_payment] =
    [\<lparr>sg_Txn = ex_payment, sg_Score = Fin 100, sg_OccurrenceDate = 100, sg_DaysOff = Fin 0, sg_Range = 1\<rparr>]"
proof -
  have "recurringMaxDaysOff ex_milk = Fin 20"
    by (simp add: recurringMaxDaysOff_def ex_milk_def math_max_def f64_simps)
  moreover have "calculateRecurringScore ex_milk ex_payment (Fin 0) = Fin 100"
    by (simp add: calculateRecurringScore_def ex_milk_def ex_payment_def recurringDescriptionMatches_def
        Let_def f64_sub_def f64_simps)
  moreover have "recurringTermContaining ex_terms 100 = Some (hd ex_terms)"
    "cd_Date ex_payment = 100" "cd_AccountID ex_payment = tm_AccountID (hd ex_terms)"
    "cd_Amount ex_payment = tm_Amount (hd ex_terms)" "tm_ID (hd ex_terms) = 1"
    by (simp_all add: ex_terms_def ex_payment_def)
  ultimately show ?thesis by (simp add: score_candidates_def ex_milk_nearest)
qed

theorem suggestions_sound_witness:
  "\<exists>t. recurringTermContaining ex_terms 100 = Some t \<and> 1 = tm_ID t"
  using suggestions_sound [of "hd (score_candidates ex_milk ex_terms [ex_payment])" ex_milk ex_terms "[ex_payment]"]
  unfolding ex_milk_scored by (auto simp: ex_payment_def)

theorem suggestion_page_spec_witness:
  "length (suggestion_page 5 (score_candidates ex_milk ex_terms [ex_payment])) = 1"
  using suggestion_page_spec [of 5 ex_milk ex_terms "[ex_payment]"]
  unfolding ex_milk_scored by simp

end
