(* ===== verification/Recurring_Views.thy ===== *)
theory Recurring_Views
  imports Recurring_Edits Suggestions
begin

text \<open>
  The readers agree with each other on a state that satisfies \<open>series_books\<close>: the list endpoint, which
  derives a series' figures in SQL, with \<open>deriveRecurringSeries\<close>, which derives them in Go; and the
  suggestions' SQL filter with the per-date check behind it.
\<close>

section \<open>The list endpoint\<close>

lemma term_at_loop_latest:
  assumes "terms_ok ts"
  shows "term_at_loop l ts d = (case filter (\<lambda>t. tm_StartDate t \<le> d) ts of [] \<Rightarrow> l | us \<Rightarrow> Some (last us))"
  using assms
proof (induction ts arbitrary: l)
  case (Cons t ts)
  note ok = Cons.prems [unfolded terms_ok_Cons]
  have later: "d < tm_StartDate u" if "u \<in> set ts" "d < tm_StartDate t \<or> covers t d" for u
    using ok that ends_by_start [of "tm_StartDate t" "tm_EndDate t" "tm_StartDate u"] covers_later [of t "tm_StartDate u" d]
    by force
  show ?case
  proof (cases "d < tm_StartDate t \<or> covers t d")
    case True
    then have "filter (\<lambda>t. tm_StartDate t \<le> d) ts = []"
      using later by (force simp: filter_empty_conv)
    then show ?thesis using True by (auto simp: in_span)
  next
    case False
    then show ?thesis using Cons.IH [of "Some t"] ok by (auto simp: in_span split: list.splits)
  qed
qed simp

text \<open>The order of the lateral join: started terms latest first, then the others earliest first.\<close>

definition effect_rank :: "date \<Rightarrow> series_term \<Rightarrow> int \<times> int" where
  "effect_rank today t = (if tm_StartDate t \<le> today then (0, - tm_StartDate t) else (1, tm_StartDate t))"

lemma effective_term_least:
  assumes "ts \<noteq> []"
  obtains t where "effective_term today ts = Some t" "t \<in> set ts"
    "\<And>q. q \<in> set ts \<Longrightarrow> effect_rank today t \<le> effect_rank today q"
proof -
  let ?s = "sort_key (effect_rank today) ts"
  obtain t us where s: "?s = t # us" using assms by (cases ?s) (auto dest: arg_cong [of _ _ length])
  have "set ?s = set ts" by simp
  then have mem: "t \<in> set ts" "\<And>q. q \<in> set ts \<Longrightarrow> q = t \<or> q \<in> set us" using s by auto
  have "sorted (map (effect_rank today) (t # us))" using sorted_sort_key [of "effect_rank today" ts] s by simp
  then have "effect_rank today t \<le> effect_rank today q" if "q \<in> set ts" for q
    using mem(2) [OF that] by auto
  moreover have "effective_term today ts = Some t"
    using s by (simp add: effective_term_def effect_rank_def [abs_def])
  ultimately show ?thesis using mem(1) that by blast
qed

lemma recurringTermAt_rank:
  assumes "terms_ok ts" "ts \<noteq> []" "q \<in> set ts"
  obtains t where "recurringTermAt ts today = Some t" "t \<in> set ts" "effect_rank today t \<le> effect_rank today q"
    "tm_StartDate q = tm_StartDate t \<longrightarrow> q = t"
proof -
  note first = terms_ok_first [OF assms(1)]
  have same: "a = b" if "a \<in> set ts" "b \<in> set ts" "tm_StartDate a = tm_StartDate b" for a b
  proof -
    have "covers a (tm_StartDate a)" "covers b (tm_StartDate a)"
      using assms(1) that by (auto simp: terms_ok_def in_span proper_def split: option.splits)
    then show ?thesis
      using recurringTermContaining_iff [OF assms(1), of "tm_StartDate a"] that by (metis option.inject)
  qed
  show ?thesis
  proof (cases "filter (\<lambda>t. tm_StartDate t \<le> today) ts")
    case Nil
    have "recurringTermAt ts today = Some (hd ts)"
      using assms(2) by (simp add: recurringTermAt_def term_at_loop_latest [OF assms(1)] Nil)
    moreover have "\<not> tm_StartDate p \<le> today" if "p \<in> set ts" for p
      using Nil that by (auto simp: filter_empty_conv)
    ultimately show ?thesis
      using assms(2,3) first [OF assms(3)] same [OF assms(3), of "hd ts"]
      by (intro that [of "hd ts"]) (simp_all add: effect_rank_def)
  next
    case (Cons u us)
    let ?t = "last (u # us)"
    have mem: "?t \<in> set (filter (\<lambda>t. tm_StartDate t \<le> today) ts)" unfolding Cons by (rule last_in_set) simp
    have "sorted_wrt (\<lambda>a b. tm_StartDate a \<le> tm_StartDate b) (filter (\<lambda>t. tm_StartDate t \<le> today) ts)"
    proof (rule sorted_wrt_filter)
      have ok: "sorted_wrt (\<lambda>a b. ends_by (tm_EndDate a) (tm_StartDate b)) ts" "\<And>t. t \<in> set ts \<Longrightarrow> proper_term t"
        using assms(1) by (simp_all add: terms_ok_def)
      show "sorted_wrt (\<lambda>a b. tm_StartDate a \<le> tm_StartDate b) ts"
        by (rule sorted_wrt_mono_rel [OF _ ok(1)]) (use ok(2) ends_by_start less_imp_le in blast)
    qed
    then have latest: "tm_StartDate p \<le> tm_StartDate ?t" if "p \<in> set (u # us)" for p
      unfolding Cons using that by (induction us arbitrary: u) auto
    have "recurringTermAt ts today = Some ?t"
      using assms(2) by (simp add: recurringTermAt_def term_at_loop_latest [OF assms(1)] Cons)
    moreover have "effect_rank today ?t \<le> effect_rank today q"
    proof (cases "tm_StartDate q \<le> today")
      case True
      then have "q \<in> set (u # us)" unfolding Cons [symmetric] using assms(3) by simp
      then show ?thesis using latest mem True by (simp add: effect_rank_def)
    qed (use mem in \<open>simp add: effect_rank_def\<close>)
    ultimately show ?thesis using mem assms(3) same by (intro that) auto
  qed
qed

lemma effective_term_at:
  assumes "terms_ok (sort_key tm_StartDate ts)" "ts \<noteq> []"
  shows "effective_term today ts = recurringTermAt (sort_key tm_StartDate ts) today"
proof -
  let ?s = "sort_key tm_StartDate ts"
  have s: "?s \<noteq> []" using assms(2) by (metis length_0_conv length_sort)
  obtain t where t: "effective_term today ts = Some t" "t \<in> set ?s"
    "\<And>q. q \<in> set ts \<Longrightarrow> effect_rank today t \<le> effect_rank today q"
    using effective_term_least [OF assms(2), of today] by auto
  obtain p where p: "recurringTermAt ?s today = Some p" "p \<in> set ?s" "effect_rank today p \<le> effect_rank today t"
    "tm_StartDate t = tm_StartDate p \<longrightarrow> t = p"
    using recurringTermAt_rank [OF assms(1) s t(2), of today] .
  have "effect_rank today p = effect_rank today t" using t(3) [of p] p(2,3) by simp
  then have "tm_StartDate t = tm_StartDate p" by (auto simp: effect_rank_def split: if_splits)
  then show ?thesis using t(1) p by simp
qed

lemma terms_period_span:
  assumes "terms_ok (sort_key tm_StartDate ts)" "ts \<noteq> []"
  shows "terms_period ts = (tm_StartDate (hd (sort_key tm_StartDate ts)), tm_EndDate (last (sort_key tm_StartDate ts)))"
proof -
  let ?s = "sort_key tm_StartDate ts"
  have s: "?s \<noteq> []" using assms(2) by (metis length_0_conv length_sort)
  have mem: "t \<in> set ts \<longleftrightarrow> t \<in> set ?s" for t by simp
  have ends: "hd ?s \<in> set ts" "last ?s \<in> set ts" using hd_in_set [OF s] last_in_set [OF s] by simp_all
  have "Min (set (map tm_StartDate ts)) = tm_StartDate (hd ?s)"
    using terms_ok_first [OF assms(1)] ends(1) by (intro Min_eqI) auto
  moreover have "(if list_ex (\<lambda>t. tm_EndDate t = None) ts then None else Some (Max (set (map (the \<circ> tm_EndDate) ts))))
      = tm_EndDate (last ?s)"
  proof (cases "tm_EndDate (last ?s)")
    case None
    then show ?thesis using ends(2) by (auto simp: list_ex_iff)
  next
    case (Some e)
    have before: "\<exists>f. tm_EndDate t = Some f \<and> f \<le> e" if "t \<in> set ts" for t
    proof (cases "t = last ?s")
      case False
      then have "ends_by (tm_EndDate t) (tm_StartDate (last ?s))"
        using terms_ok_final [OF assms(1)] that by auto
      moreover have "tm_StartDate (last ?s) < e"
        using assms(1) last_in_set [OF s] Some by (auto simp: terms_ok_def proper_def split: option.splits)
      ultimately show ?thesis by (auto simp: ends_by_def split: option.splits)
    qed (use Some in simp)
    have "Max (set (map (the \<circ> tm_EndDate) ts)) = e"
      using before ends(2) Some by (intro Max_eqI) (force simp: image_iff)+
    moreover have "\<not> list_ex (\<lambda>t. tm_EndDate t = None) ts" using before by (fastforce simp: list_ex_iff)
    ultimately show ?thesis using Some by simp
  qed
  ultimately show ?thesis by (simp add: terms_period_def)
qed

lemma one_account:
  assumes "distinct (map k xs)" "i \<in> k ` set xs"
  shows "map (\<lambda>_. y) (filter (\<lambda>x. k x = i) xs) = [y]"
proof -
  have "map (\<lambda>_. y) (filter (\<lambda>x. k x = i) xs) = concat (map (\<lambda>x. if k x = i \<and> True then [y] else []) xs)"
    by (induction xs) simp_all
  then show ?thesis using concat_unique [OF assms, of True y] by simp
qed

definition attached_count :: "uuid \<Rightarrow> uuid \<Rightarrow> db \<Rightarrow> nat" where
  "attached_count u i d = length (filter (\<lambda>l. lk_UserID l = u \<and> lk_Parent l = i) (recurring_attachments d))"

lemma list_row_derived:
  assumes "series_books d" "s \<in> set (series d)" "sr_UserID s = u"
  shows "list_row now d s = [(deriveRecurringSeries now (scanRecurringSeries s) (terms_of u (sr_ID s) d),
    attached_count u (sr_ID s) d)]"
proof -
  note b = booksD [OF assms(1)]
  let ?ts = "map snd (filter (in_series u (sr_ID s)) (series_terms d))"
  have sorted: "terms_of u (sr_ID s) d = sort_key tm_StartDate ?ts" by (rule terms_of_rows [OF b(1)])
  have ok: "terms_ok (sort_key tm_StartDate ?ts)" using books_terms_ok [OF assms(1)] by (simp add: sorted [symmetric])
  have "(u, sr_ID s) \<in> series_key ` set (series d)"
    using assms(2,3) by (auto simp: series_key_def image_iff)
  then have "terms_of u (sr_ID s) d \<noteq> []"
    using b(3) by (auto simp: terms_of_empty [OF b(1)] all_have_terms_def)
  then have ne: "?ts \<noteq> []" unfolding sorted by auto
  have ne': "sort_key tm_StartDate ?ts \<noteq> []" using ne by (metis length_0_conv length_sort)
  obtain t where t: "recurringTermAt (sort_key tm_StartDate ?ts) now = Some t" "t \<in> set (sort_key tm_StartDate ?ts)"
    using recurringTermAt_member [OF ok ne'] by metis
  then have "(u, t) \<in> set (series_terms d)"
    using set_terms_of [OF b(1), of t u "sr_ID s"] by (simp add: sorted)
  then have "tm_AccountID t \<in> ac_ID ` set (accounts d)"
    using keys_owned [OF b(1)] by (force simp: owns_account_def)
  moreover have "distinct (map ac_ID (accounts d))" using b(1) by (simp add: recurring_keys_def)
  ultimately show ?thesis
    unfolding list_row_def Let_def assms(3) effective_term_at [OF ok ne] t(1) terms_period_span [OF ok ne]
      option.case prod.case sorted
    by (simp only: one_account) (simp add: deriveRecurringSeries_def ne' t(1) attached_count_def)
qed

text \<open>C20. The list endpoint and the detail endpoints tell the same story: for every series of the user the
  list has exactly one row, and its start, end, account and amount, which SQL derives from the terms by
  two lateral joins, are those \<open>deriveRecurringSeries\<close> derives in Go from the loaded terms.\<close>

theorem list_agrees_with_detail:
  assumes "series_books d"
  shows "mset (list_series collate now u d) =
    mset (map (\<lambda>s. (deriveRecurringSeries now (scanRecurringSeries s) (terms_of u (sr_ID s) d),
      attached_count u (sr_ID s) d)) (filter (\<lambda>s. sr_UserID s = u) (series d)))"
proof -
  have "concat (map (list_row now d) ss) =
      map (\<lambda>s. (deriveRecurringSeries now (scanRecurringSeries s) (terms_of u (sr_ID s) d), attached_count u (sr_ID s) d)) ss"
    if "\<And>s. s \<in> set ss \<Longrightarrow> s \<in> set (series d) \<and> sr_UserID s = u" for ss
    using that by (induction ss) (simp_all add: list_row_derived [OF assms])
  from this [of "filter (\<lambda>s. sr_UserID s = u) (series d)"] show ?thesis by (simp add: list_series_def)
qed

theorem list_agrees_with_detail_witness:
  "list_series (\<lambda>_. 0) (time_date 2024 4 10) 2 ex_books =
     [(deriveRecurringSeries (time_date 2024 4 10) (scanRecurringSeries ex_row) [ex_term], 0)]"
proof -
  have "filter (\<lambda>s. sr_UserID s = 2) (series ex_books) = [ex_row]" "sr_ID ex_row = 9" "attached_count 2 9 ex_books = 0"
    by (simp_all add: ex_books_def ex_row_def attached_count_def)
  with list_agrees_with_detail [OF ex_books_ok, of "\<lambda>_. 0" "time_date 2024 4 10" 2] show ?thesis
    by (simp add: ex_loads)
qed

section \<open>The suggestions' prefilter\<close>

lemma terms_window_covers:
  assumes "t \<in> set ts" "covers t x"
  shows "case terms_window ts of (a, b) \<Rightarrow> a \<le> x \<and> (case b of None \<Rightarrow> True | Some e \<Rightarrow> x < e)"
proof -
  have least: "fold (\<lambda>t m. if tm_StartDate t < m then tm_StartDate t else m) us m0 \<le> min m0 (tm_StartDate q)"
    if "q \<in> set us" for us m0 q
  proof -
    have below: "fold (\<lambda>t m. if tm_StartDate t < m then tm_StartDate t else m) vs n \<le> n" for vs n
      by (induction vs arbitrary: n) (auto intro: order_trans less_imp_le)
    show ?thesis
      using that
    proof (induction us arbitrary: m0)
      case (Cons v vs)
      show ?case
      proof (cases "q = v")
        case True
        then show ?thesis using below [of vs "min m0 (tm_StartDate v)"] by (auto simp: min_def split: if_splits)
      next
        case False
        then show ?thesis using Cons.IH [of "min m0 (tm_StartDate v)"] Cons.prems by (auto simp: min_def split: if_splits)
      qed
    qed simp
  qed
  let ?step = "\<lambda>t m. case tm_EndDate t of None \<Rightarrow> m
      | Some e \<Rightarrow> (case m of None \<Rightarrow> Some e | Some x \<Rightarrow> if x < e then Some e else Some x)"
  have grows: "\<exists>y. fold ?step us (Some z) = Some y \<and> z \<le> y" for us z
  proof (induction us arbitrary: z)
    case (Cons v vs)
    have "\<exists>z'. ?step v (Some z) = Some z' \<and> z \<le> z'" by (cases "tm_EndDate v") auto
    then obtain z' where z': "?step v (Some z) = Some z'" "z \<le> z'" by blast
    then show ?case using Cons.IH [of z'] by (auto intro: order_trans)
  qed simp
  have latest: "\<exists>y. fold ?step us m0 = Some y \<and> e \<le> y" if "q \<in> set us" "tm_EndDate q = Some e" for us m0 q e
    using that(1)
  proof (induction us arbitrary: m0)
    case (Cons v vs)
    show ?case
    proof (cases "q = v")
      case True
      have "\<exists>z. ?step v m0 = Some z \<and> e \<le> z" using that(2) True by (cases m0) auto
      then obtain z where "?step v m0 = Some z" "e \<le> z" by blast
      then show ?thesis using grows [of vs z] by (auto intro: order_trans)
    next
      case False
      then show ?thesis using Cons by simp
    qed
  qed simp
  have "fst (terms_window ts) \<le> x"
    using least [OF assms(1), of "tm_StartDate (hd ts)"] assms(2) unfolding terms_window_def dateOnly_id
    by (auto simp: in_span)
  moreover have "x < e" if "snd (terms_window ts) = Some e" for e
  proof -
    have none: "\<not> list_ex (\<lambda>t. tm_EndDate t = None) ts" and fold: "fold ?step ts None = Some e"
      using that unfolding terms_window_def dateOnly_id by (auto split: if_splits)
    then obtain f where f: "tm_EndDate t = Some f" using assms(1) by (auto simp: list_ex_iff)
    then show ?thesis using latest [OF assms(1) f, of None] fold assms(2) by (auto simp: in_span)
  qed
  ultimately show ?thesis by (auto split: prod.splits option.splits)
qed

text \<open>The transactions a series could claim: the user's, of its type, and not attached to any series.\<close>

definition claimable :: "uuid \<Rightarrow> string \<Rightarrow> db \<Rightarrow> txn_row \<Rightarrow> bool" where
  "claimable u ty d t \<longleftrightarrow> tx_UserID t = u \<and> tx_Type t = ty \<and>
     \<not> (\<exists>l \<in> set (recurring_attachments d). lk_TransactionID l = tx_ID t)"

lemma score_candidates_single:
  "g \<in> set (score_candidates s ts txns) \<longleftrightarrow> (\<exists>c \<in> set txns. g \<in> set (score_candidates s ts [c]))"
  by (simp add: score_candidates_def)

lemma suggestion_rows_filter:
  assumes "recurring_keys d" "ts = terms_of u i d"
    "length (filter (suggestible ts u ty d) (transactions d)) \<le> maxRecurringCandidates"
  shows "set (suggestion_rows ts u ty d) = candidate_of ` {t \<in> set (transactions d). suggestible ts u ty d t}"
proof -
  have acc: "distinct (map ac_ID (accounts d))" using assms(1) by (simp add: recurring_keys_def)
  have here: "tx_AccountID t \<in> ac_ID ` set (accounts d)" if "suggestible ts u ty d t" for t
  proof -
    obtain q where "q \<in> set ts" "tx_AccountID t = tm_AccountID q"
      using \<open>suggestible ts u ty d t\<close> by (auto simp: suggestible_def split: prod.splits)
    then show ?thesis
      using keys_owned [OF assms(1), of "(u, q)"] by (force simp: assms(2) set_terms_of [OF assms(1)] owns_account_def)
  qed
  have "concat (map (\<lambda>t. concat (map (\<lambda>a. if tx_AccountID t = ac_ID a \<and> suggestible ts u ty d t then [t] else []) (accounts d))) xs)
      = filter (suggestible ts u ty d) xs" for xs
  proof (induction xs)
    case (Cons t xs)
    have "concat (map (\<lambda>a. if ac_ID a = tx_AccountID t \<and> suggestible ts u ty d t then [t] else []) (accounts d))
        = (if suggestible ts u ty d t then [t] else [])"
      using concat_unique [OF acc here, of t "suggestible ts u ty d t" t]
      by (cases "suggestible ts u ty d t") (auto simp: concat_eq_Nil_conv)
    then show ?case using Cons by (simp add: eq_commute [of "tx_AccountID t"])
  qed simp
  then have rows: "suggestion_rows ts u ty d = map candidate_of (take maxRecurringCandidates
      (sort_key (txnOrderByDate False) (filter (suggestible ts u ty d) (transactions d))))"
    by (simp add: suggestion_rows_def)
  show ?thesis unfolding rows using assms(3) by simp
qed

text \<open>C21. The suggestions' SQL filter loses no candidate: as long as it does not reach the cap of 5000
  rows, scoring the rows it lets through gives the same suggestions as scoring every unattached
  transaction of the user of the series' type. The filter's union of accounts, amounts and dates over
  all terms is therefore only an optimisation of the per-date check behind it.\<close>

theorem prefilter_loses_nothing:
  assumes "series_books d" "ts = terms_of u i d" "list_all (\<lambda>t. 0 \<le> tm_Amount t) ts"
    and "length (filter (suggestible ts u ty d) (transactions d)) \<le> maxRecurringCandidates"
  shows "set (score_candidates s ts (suggestion_rows ts u ty d)) =
    set (score_candidates s ts (map candidate_of (filter (claimable u ty d) (transactions d))))"
proof -
  have ok: "terms_ok ts" using books_terms_ok [OF assms(1)] by (simp add: assms(2))
  have "suggestible ts u ty d t"
    if t: "claimable u ty d t" "g \<in> set (score_candidates s ts [candidate_of t])" for t g
  proof -
    obtain q where q: "recurringTermContaining ts (tx_Date t) = Some q" "tx_AccountID t = tm_AccountID q"
      "tx_Amount t = tm_Amount q"
      using score_candidates_mem [OF t(2)] by (auto simp: candidate_of_def)
    then have mem: "q \<in> set ts" "covers q (tx_Date t)" using recurringTermContaining_iff [OF ok] by blast+
    have "tx_Amount t = Abs_amount (tm_Amount q)"
      using assms(3) mem(1) q(3) by (auto simp: Abs_amount_def list_all_iff)
    then show ?thesis
      using t(1) terms_window_covers [OF mem] mem(1) q(2)
      by (auto simp: suggestible_def claimable_def split: prod.splits)
  qed
  moreover have "suggestible ts u ty d t \<Longrightarrow> claimable u ty d t" for t
    by (auto simp: suggestible_def claimable_def split: prod.splits)
  moreover have "recurring_keys d" using booksD(1) [OF assms(1)] .
  ultimately show ?thesis
    unfolding set_eq_iff score_candidates_single [of _ s ts "suggestion_rows ts u ty d"]
      score_candidates_single [of _ s ts "map candidate_of (filter (claimable u ty d) (transactions d))"]
      suggestion_rows_filter [OF \<open>recurring_keys d\<close> assms(2,4)]
    by auto
qed

definition ex_txn :: txn_row where
  "ex_txn = \<lparr>tx_ID = 20, tx_UserID = 2, tx_AccountID = 3, tx_Date = time_date 2024 2 1, tx_Description = ''gym'',
     tx_Amount = 500, tx_Type = ''debit'', tx_CategoryID = None, tx_PayeeID = None, tx_CycleID = None,
     tx_Detached = False, tx_CreatedAt = 0, tx_Tags = [], tx_Notes = Some [], tx_ClientKey = None\<rparr>"

theorem prefilter_loses_nothing_witness:
  "set (score_candidates (scanRecurringSeries ex_row) [ex_term] (suggestion_rows [ex_term] 2 ''debit'' (ex_books\<lparr>transactions := [ex_txn]\<rparr>))) =
   set (score_candidates (scanRecurringSeries ex_row) [ex_term] [candidate_of ex_txn])"
proof -
  let ?d = "ex_books\<lparr>transactions := [ex_txn]\<rparr>"
  have "series_books ?d" using ex_books_ok
    by (simp add: series_books_def recurring_keys_def term_refs_def terms_apart_def all_have_terms_def owns_account_def)
  moreover have "terms_of 2 9 ?d = [ex_term]" using ex_loads(3) by (simp add: terms_of_def)
  moreover have "list_all (\<lambda>t. 0 \<le> tm_Amount t) [ex_term]" by (simp add: ex_term_def)
  moreover have "filter (claimable 2 ''debit'' ?d) (transactions ?d) = [ex_txn]"
    by (simp add: claimable_def ex_txn_def ex_books_def)
  moreover have "length (filter (suggestible [ex_term] 2 ''debit'' ?d) (transactions ?d)) \<le> maxRecurringCandidates"
    by (rule order_trans [OF length_filter_le]) (simp add: maxRecurringCandidates_def)
  ultimately show ?thesis using prefilter_loses_nothing [of ?d "[ex_term]" 2 9 "''debit''" "scanRecurringSeries ex_row"] by simp
qed

end
