(* ===== verification/Cycle_Dates.thy ===== *)
theory Cycle_Dates
  imports Schedule
begin

text \<open>
  The windows of billing cycles: \<open>billingCycleMonths\<close>, \<open>cycleDates\<close> and the label of
  \<open>backend/handlers/billing_cycle.go\<close>. Counted in months, the cycle of month \<open>k\<close> runs from the day after
  \<open>bill D (k - 1)\<close> to \<open>bill D k\<close>: the windows are intervals that tile the calendar, and the months
  generated are the newest 600 of those from one before the first transaction to the one of today.
\<close>

section \<open>Months\<close>

lemma add_month_eq: "add_date t 0 1 0 = t + month_length (year_of t) (month_of t)"
proof -
  let ?y = "year_of t" and ?m = "month_of t"
  have t: "t = days_before_year ?y + days_before_month (leap_day ?y) ?m + (day_of t - 1)"
    using time_date_civil [of t] time_date_in_range [of ?m ?y "day_of t"] by simp
  show ?thesis
  proof (cases "?m = 12")
    case True
    have "add_date t 0 1 0 = days_before_year (?y + 1) + days_before_month (leap_day (?y + 1)) 1 + (day_of t - 1)"
      by (simp add: add_date_def time_date_def True Let_def)
    then show ?thesis
      using t True days_before_year_Suc [of ?y] by (simp add: month_length_def days_before_month_def)
  next
    case False
    then have "1 \<le> ?m + 1" "?m + 1 \<le> 12" using month_of_range [of t] by linarith+
    then have "add_date t 0 1 0 = days_before_year ?y + days_before_month (leap_day ?y) (?m + 1) + (day_of t - 1)"
      by (simp add: add_date_def time_date_in_range del: month_of_range)
    then show ?thesis using t by (simp add: month_length_def)
  qed
qed

lemma add_month_later: "t < add_date t 0 1 0"
  using month_length_range [of "month_of t" "year_of t"] by (simp add: add_month_eq)

definition month_start :: "int \<Rightarrow> date" where
  "month_start k = time_date (k div 12) (k mod 12 + 1) 1"

lemma month_start_civil:
  "year_of (month_start k) = k div 12" "month_of (month_start k) = k mod 12 + 1" "day_of (month_start k) = 1"
  unfolding month_start_def using civil_time_date [OF valid_civil_first [OF month_of_index]] by simp_all

lemma month_index_start [simp]: "month_index (month_start k) = k"
  by (simp add: month_index_def month_start_civil)

lemma month_start_less [simp]: "month_start j < month_start k \<longleftrightarrow> j < k"
  using month_index_less [of "month_start j" "month_start k"] month_index_less [of "month_start k" "month_start j"]
  by (cases j k rule: linorder_cases) auto

lemma month_start_eq [simp]: "month_start j = month_start k \<longleftrightarrow> j = k"
  by (metis month_index_start)

lemma add_months_start: "add_date (month_start k) 0 j 0 = month_start (k + j)"
proof -
  have "add_date (month_start k) 0 j 0 = time_date (year_of (month_start k)) (month_of (month_start k) + j) 1"
    by (simp add: add_date_def month_start_civil(3))
  then show ?thesis
    unfolding time_date_month_index month_index_start by (simp add: month_start_def)
qed

lemma first_of_month: "time_date (year_of t) (month_of t) 1 = month_start (month_index t)"
proof -
  have "(month_of t - 1) div 12 = 0" "(month_of t - 1) mod 12 = month_of t - 1"
    using month_of_range [of t] by (simp_all add: div_pos_pos_trivial mod_pos_pos_trivial del: month_of_range)
  then show ?thesis by (simp add: month_start_def month_index_def)
qed

section \<open>The code\<close>

definition maxBillingCycleMonths :: int where "maxBillingCycleMonths = 600"

function months_from :: "date \<Rightarrow> date \<Rightarrow> date list" where
  "months_from ms final = (if final < ms then [] else ms # months_from (add_date ms 0 1 0) final)"
  by pat_completeness auto
termination
  by (relation "measure (\<lambda>(ms, final). nat (final + 1 - ms))") (use add_month_later in auto)

declare months_from.simps [simp del]

definition billingCycleMonths :: "date \<Rightarrow> date \<Rightarrow> int \<Rightarrow> date list" where
  "billingCycleMonths earliest today billingDay =
     (let day = (if billingDay \<le> 0 then 1 else billingDay);
          first = add_date (time_date (year_of earliest) (month_of earliest) 1) 0 (-1) 0;
          month = time_date (year_of today) (month_of today) 1;
          final = (if billingDateInMonth month day < today then add_date month 0 1 0 else month);
          floor = add_date final 0 (- (maxBillingCycleMonths - 1)) 0
      in months_from (if first < floor then floor else first) final)"

definition cycleDates :: "date \<Rightarrow> int \<Rightarrow> date \<times> date" where
  "cycleDates ms billingDay =
     (add_date (billingDateInMonth (add_date ms 0 (-1) 0) billingDay) 0 0 1, billingDateInMonth ms billingDay)"

definition month_names :: "string list" where
  "month_names = [''Jan'', ''Feb'', ''Mar'', ''Apr'', ''May'', ''Jun'', ''Jul'', ''Aug'', ''Sep'', ''Oct'', ''Nov'', ''Dec'']"

text \<open>\<open>end.Format("Jan 2006")\<close>.\<close>

definition cycle_label :: "date \<Rightarrow> string" where
  "cycle_label t = month_names ! nat (month_of t - 1) @ '' '' @ pad 4 (dec_int (year_of t))"

section \<open>Windows\<close>

definition bill :: "int \<Rightarrow> int \<Rightarrow> date" where
  "bill D k = billingDateInMonth (month_start k) D"

definition in_window :: "int \<Rightarrow> int \<Rightarrow> date \<Rightarrow> bool" where
  "in_window D k t \<longleftrightarrow> bill D (k - 1) < t \<and> t \<le> bill D k"

text \<open>The month of the cycle a day belongs to.\<close>

definition cycle_month :: "int \<Rightarrow> date \<Rightarrow> int" where
  "cycle_month D t = (if bill D (month_index t) < t then month_index t + 1 else month_index t)"

lemma billing_civil:
  assumes "1 \<le> D"
  shows "year_of (billingDateInMonth t D) = year_of t" "month_of (billingDateInMonth t D) = month_of t"
    "day_of (billingDateInMonth t D) = min D (month_length (year_of t) (month_of t))"
proof -
  have "valid_civil (year_of t) (month_of t) (min D (month_length (year_of t) (month_of t)))"
    using month_length_range [of "month_of t" "year_of t"] assms by (simp add: valid_civil_def)
  from civil_time_date [OF this] show
    "year_of (billingDateInMonth t D) = year_of t" "month_of (billingDateInMonth t D) = month_of t"
    "day_of (billingDateInMonth t D) = min D (month_length (year_of t) (month_of t))"
    by (simp_all add: billingDateInMonth_def Let_def daysInMonth_eq min_def split: if_splits)
qed

lemma month_index_billing [simp]: "1 \<le> D \<Longrightarrow> month_index (billingDateInMonth t D) = month_index t"
  by (simp add: month_index_def billing_civil)

lemma billing_same_month: "month_index s = month_index t \<Longrightarrow> billingDateInMonth s D = billingDateInMonth t D"
proof -
  assume "month_index s = month_index t"
  then have "12 * year_of s + (month_of s - 1) = 12 * year_of t + (month_of t - 1)" by (simp add: month_index_def)
  then have "year_of s = year_of t \<and> month_of s = month_of t"
    using month_of_range [of s] month_of_range [of t] by presburger
  then show ?thesis by (simp add: billingDateInMonth_def)
qed

lemma billing_bill: "billingDateInMonth t D = bill D (month_index t)"
  unfolding bill_def by (rule billing_same_month) simp

lemma month_index_bill [simp]: "1 \<le> D \<Longrightarrow> month_index (bill D k) = k"
  by (simp add: bill_def)

lemma bill_mono: "1 \<le> D \<Longrightarrow> j < k \<Longrightarrow> bill D j < bill D k"
  by (rule month_index_less) simp

lemma month_index_mono: "s \<le> t \<Longrightarrow> month_index s \<le> month_index t"
  using month_index_less [of t s] by (cases "month_index t < month_index s") auto

lemma in_window_cycle_month: "1 \<le> D \<Longrightarrow> in_window D k t \<longleftrightarrow> k = cycle_month D t"
proof
  assume D: "1 \<le> D"
  let ?i = "month_index t"
  have near: "bill D (?i - 1) < t" "t \<le> bill D (?i + 1)"
    using month_index_less [of "bill D (?i - 1)" t] month_index_less [of t "bill D (?i + 1)"] D by simp_all
  show "in_window D k t" if "k = cycle_month D t"
    using that near by (auto simp: in_window_def cycle_month_def)
  show "k = cycle_month D t" if "in_window D k t"
  proof -
    have "month_index (bill D (k - 1)) \<le> ?i" "?i \<le> month_index (bill D k)"
      using that by (auto simp: in_window_def intro: month_index_mono)
    then have "k = ?i \<or> k = ?i + 1" using D by auto
    then show ?thesis using that by (auto simp: in_window_def cycle_month_def)
  qed
qed

lemma cycleDates_start: "cycleDates (month_start k) D = (bill D (k - 1) + 1, bill D k)"
  by (simp add: cycleDates_def add_months_start bill_def)

lemma months_from_start: "months_from (month_start i) (month_start j) = map month_start [i..j]"
proof (induction "nat (j + 1 - i)" arbitrary: i)
  case 0
  then have "j < i" by simp
  then show ?case by (subst months_from.simps) simp
next
  case (Suc n)
  then have "i \<le> j" "n = nat (j + 1 - (i + 1))" by simp_all
  then have "months_from (month_start i) (month_start j) = month_start i # map month_start [i + 1..j]"
    using Suc(1) [of "i + 1"] by (subst months_from.simps) (simp add: add_months_start)
  also have "\<dots> = map month_start [i..j]" using \<open>i \<le> j\<close> upto_rec1 [of i j] by simp
  finally show ?case .
qed

lemma billingCycleMonths_eq:
  assumes "1 \<le> D"
  shows "billingCycleMonths earliest today D =
    map month_start [max (month_index earliest - 1) (cycle_month D today - 599)..cycle_month D today]"
proof -
  have last: "(if billingDateInMonth (month_start (month_index today)) D < today
      then add_date (month_start (month_index today)) 0 1 0 else month_start (month_index today)) =
      month_start (cycle_month D today)"
    by (simp add: add_months_start cycle_month_def flip: bill_def)
  have day: "(if D \<le> 0 then 1 else D) = D" using assms by simp
  show ?thesis
    unfolding billingCycleMonths_def first_of_month day Let_def last
    by (auto simp: add_months_start maxBillingCycleMonths_def months_from_start max_def
        intro!: arg_cong [of _ _ "map month_start"] arg_cong2 [of _ _ _ _ upto])
qed

text \<open>C36. The cycles tile the calendar: whatever the billing day, a day lies in the window of exactly one
  month, and a window ends in its own month and is followed, the day after, by that of the next month.\<close>

theorem cycles_tile:
  assumes "1 \<le> D"
  shows "(\<exists>!k. fst (cycleDates (month_start k) D) \<le> t \<and> t \<le> snd (cycleDates (month_start k) D)) \<and>
    month_index (snd (cycleDates (month_start k) D)) = k \<and>
    fst (cycleDates (month_start (k + 1)) D) = snd (cycleDates (month_start k) D) + 1"
proof -
  have "(fst (cycleDates (month_start k) D) \<le> t \<and> t \<le> snd (cycleDates (month_start k) D)) \<longleftrightarrow> in_window D k t" for k
    by (auto simp: cycleDates_start in_window_def)
  then have "\<exists>!k. fst (cycleDates (month_start k) D) \<le> t \<and> t \<le> snd (cycleDates (month_start k) D)"
    using in_window_cycle_month [OF assms] by simp
  then show ?thesis using assms by (simp add: cycleDates_start)
qed

theorem cycles_tile_witness:
  "fst (cycleDates (month_start 24278) 31) = snd (cycleDates (month_start 24277) 31) + 1 \<and>
   month_index (snd (cycleDates (month_start 24277) 31)) = 24277"
  using cycles_tile [of 31 0 24277] by simp

end
