(* ===== verification/Cycle_Store.thy ===== *)
theory Cycle_Store
  imports Cycle_Dates Loan_Store
begin

text \<open>
  Billing cycles (\<open>backend/handlers/billing_cycle.go\<close>): the statements on the tables, \<open>ensureBillingCycles\<close>
  with its regeneration and back-fill, the list with its running totals, and the endpoint. \<open>now\<close> is the
  day of \<open>cycleClock()\<close> and of \<open>CURRENT_DATE\<close>.
\<close>

section \<open>Statements\<close>

definition is_cycle_of :: "uuid \<Rightarrow> uuid \<Rightarrow> cycle_row \<Rightarrow> bool" where
  "is_cycle_of u a c \<longleftrightarrow> bc_AccountID c = a \<and> bc_UserID c = u"

definition account_cycles :: "uuid \<Rightarrow> uuid \<Rightarrow> db \<Rightarrow> cycle_row list" where
  "account_cycles u a d = filter (is_cycle_of u a) (billing_cycles d)"

definition is_txn_of :: "uuid \<Rightarrow> uuid \<Rightarrow> txn_row \<Rightarrow> bool" where
  "is_txn_of u a t \<longleftrightarrow> tx_AccountID t = a \<and> tx_UserID t = u"

definition account_txns :: "uuid \<Rightarrow> uuid \<Rightarrow> db \<Rightarrow> txn_row list" where
  "account_txns u a d = filter (is_txn_of u a) (transactions d)"

definition off_day :: "int \<Rightarrow> cycle_row \<Rightarrow> bool" where
  "off_day D c \<longleftrightarrow> dateOnly (bc_EndDate c) \<noteq> billingDateInMonth (dateOnly (bc_EndDate c)) D"

definition misaligned :: "uuid \<Rightarrow> uuid \<Rightarrow> int \<Rightarrow> db \<Rightarrow> bool" where
  "misaligned u a D d \<longleftrightarrow> list_ex (off_day D) (account_cycles u a d)"

text \<open>The transactions of the account's cycles, of the user's whatever the account.\<close>

definition on_cycles :: "uuid \<Rightarrow> uuid \<Rightarrow> db \<Rightarrow> txn_row \<Rightarrow> bool" where
  "on_cycles u a d t \<longleftrightarrow> tx_UserID t = u \<and> tx_CycleID t \<in> Some ` bc_ID ` set (account_cycles u a d)"

definition detach_from_cycles :: "uuid \<Rightarrow> uuid \<Rightarrow> db \<Rightarrow> db_error + unit \<times> db" where
  "detach_from_cycles u a d = Inr ((), d\<lparr>transactions :=
     map (\<lambda>t. if on_cycles u a d t then t\<lparr>tx_CycleID := None, tx_Detached := False\<rparr> else t) (transactions d)\<rparr>)"

text \<open>The foreign key of \<open>transactions\<close> sets the cycle of the rows that still name one of them to null.\<close>

definition delete_cycles :: "uuid \<Rightarrow> uuid \<Rightarrow> db \<Rightarrow> db_error + unit \<times> db" where
  "delete_cycles u a d = Inr ((), d\<lparr>
     transactions := map (\<lambda>t. if is_txn_of u a t \<and> on_cycles u a d t then t\<lparr>tx_CycleID := None\<rparr> else t) (transactions d),
     billing_cycles := filter (\<lambda>c. \<not> is_cycle_of u a c) (billing_cycles d)\<rparr>)"

definition first_date :: "date \<Rightarrow> uuid \<Rightarrow> uuid \<Rightarrow> db \<Rightarrow> date" where
  "first_date now u a d =
     (let dates = map tx_Date (account_txns u a d) in if dates = [] then now else Min (set dates))"

definition end_month_start :: "cycle_row \<Rightarrow> date" where
  "end_month_start c = time_date (year_of (bc_EndDate c)) (month_of (bc_EndDate c)) 1"

definition covered_months :: "uuid \<Rightarrow> uuid \<Rightarrow> db \<Rightarrow> date list" where
  "covered_months u a d = map end_month_start (account_cycles u a d)"

definition unassigned :: "txn_row \<Rightarrow> bool" where
  "unassigned t \<longleftrightarrow> tx_CycleID t = None \<and> \<not> tx_Detached t"

definition has_unassigned :: "uuid \<Rightarrow> uuid \<Rightarrow> db \<Rightarrow> bool" where
  "has_unassigned u a d \<longleftrightarrow> list_ex unassigned (account_txns u a d)"

text \<open>\<open>ON CONFLICT (user_id, account_id, start_date) DO NOTHING\<close>; another key or a missing account is an error.\<close>

definition insert_cycle :: "cycle_row \<Rightarrow> db \<Rightarrow> db_error + unit \<times> db" where
  "insert_cycle c d =
     (if list_ex (\<lambda>b. bc_StartDate b = bc_StartDate c) (account_cycles (bc_UserID c) (bc_AccountID c) d)
        then Inr ((), d)
      else if list_ex (\<lambda>b. bc_UserID b = bc_UserID c \<and> bc_ID b = bc_ID c) (billing_cycles d) then Inl Unique
      else if \<not> owns_account (bc_UserID c) (bc_AccountID c) d then Inl Constraint
      else Inr ((), d\<lparr>billing_cycles := billing_cycles d @ [c]\<rparr>))"

definition covers :: "cycle_row \<Rightarrow> txn_row \<Rightarrow> bool" where
  "covers c t \<longleftrightarrow> bc_AccountID c = tx_AccountID t \<and> bc_UserID c = tx_UserID t \<and>
     bc_StartDate c \<le> tx_Date t \<and> tx_Date t \<le> bc_EndDate c"

definition assign_cycle :: "cycle_row list \<Rightarrow> txn_row \<Rightarrow> txn_row" where
  "assign_cycle cs t = (case find (\<lambda>c. covers c t) cs of None \<Rightarrow> t | Some c \<Rightarrow> t\<lparr>tx_CycleID := Some (bc_ID c)\<rparr>)"

definition backfill :: "uuid \<Rightarrow> uuid \<Rightarrow> db \<Rightarrow> db_error + unit \<times> db" where
  "backfill u a d = Inr ((), d\<lparr>transactions :=
     map (\<lambda>t. if is_txn_of u a t \<and> unassigned t then assign_cycle (billing_cycles d) t else t) (transactions d)\<rparr>)"

section \<open>\<open>ensureBillingCycles\<close>\<close>

definition dropMisalignedCycles :: "uuid \<Rightarrow> uuid \<Rightarrow> int \<Rightarrow> (db, db_error, unit) prog" where
  "dropMisalignedCycles u a D =
     seq (query (misaligned u a D)) (\<lambda>mis.
     if \<not> mis then ret ()
     else seq (exec (detach_from_cycles u a)) (\<lambda>_. exec (delete_cycles u a)))"

definition new_cycle :: "uuid \<Rightarrow> uuid \<Rightarrow> uuid \<Rightarrow> int \<Rightarrow> date \<Rightarrow> cycle_row" where
  "new_cycle i u a D ms = (case cycleDates ms D of (start, end') \<Rightarrow>
     \<lparr>bc_ID = i, bc_UserID = u, bc_AccountID = a, bc_StartDate = start, bc_EndDate = end', bc_Label = cycle_label end'\<rparr>)"

fun insert_cycles :: "uuid \<Rightarrow> uuid \<Rightarrow> int \<Rightarrow> date list \<Rightarrow> date list \<Rightarrow> (db, db_error, unit) prog" where
  "insert_cycles u a D covered [] = ret ()"
| "insert_cycles u a D covered (ms # rest) =
     (if ms \<in> set covered then insert_cycles u a D covered rest
      else seq new_id (\<lambda>i. seq (exec (insert_cycle (new_cycle i u a D ms))) (\<lambda>_.
        insert_cycles u a D covered rest)))"

definition effective_day :: "int \<Rightarrow> int" where
  "effective_day D = (if D \<le> 0 \<or> 31 < D then 1 else D)"

definition ensureBillingCycles :: "date \<Rightarrow> uuid \<Rightarrow> uuid \<Rightarrow> int \<Rightarrow> (db, db_error, unit) prog" where
  "ensureBillingCycles now u a billingDay =
     (let D = effective_day billingDay in
      seq (dropMisalignedCycles u a D) (\<lambda>_.
      seq (query (first_date now u a)) (\<lambda>firstDate.
      seq (query (covered_months u a)) (\<lambda>covered.
      let months = billingCycleMonths (dateOnly firstDate) (dateOnly now) D in
      seq (query (has_unassigned u a)) (\<lambda>unassigned.
      if list_all (\<lambda>ms. ms \<in> set covered) months \<and> \<not> unassigned then ret ()
      else seq (insert_cycles u a D covered months) (\<lambda>_.
        if \<not> unassigned then ret () else exec (backfill u a)))))))"

section \<open>The list\<close>

record cycle_view =
  cv_ID :: uuid
  cv_AccountID :: uuid
  cv_StartDate :: date
  cv_EndDate :: date
  cv_Label :: string
  cv_TotalOutstanding :: cents
  cv_TransactionCount :: nat

definition signed_amount :: "txn_row \<Rightarrow> cents" where
  "signed_amount t = (if tx_Type t = ''debit'' then tx_Amount t else if tx_Type t = ''credit'' then - tx_Amount t else 0)"

definition attached_txns :: "db \<Rightarrow> cycle_row \<Rightarrow> txn_row list" where
  "attached_txns d c = filter (\<lambda>t. tx_CycleID t = Some (bc_ID c)) (transactions d)"

definition net_activity :: "db \<Rightarrow> cycle_row \<Rightarrow> cents" where
  "net_activity d c = (\<Sum>t \<leftarrow> attached_txns d c. signed_amount t)"

text \<open>The query negates a credit in \<open>BIGINT\<close> and sums in \<open>NUMERIC\<close>; \<open>Scan\<close> refuses a sum beyond \<open>int64\<close>.\<close>

definition net_scans :: "db \<Rightarrow> cycle_row \<Rightarrow> bool" where
  "net_scans d c \<longleftrightarrow> list_all (\<lambda>t. in_i64 (signed_amount t)) (attached_txns d c) \<and> in_i64 (net_activity d c)"

text \<open>The loop over the rows, with the running balance.\<close>

fun running :: "uuid \<Rightarrow> db \<Rightarrow> cents \<Rightarrow> cycle_row list \<Rightarrow> cycle_view list" where
  "running a d balance [] = []"
| "running a d balance (c # cs) =
     (let total = i64 (balance + net_activity d c) in
      \<lparr>cv_ID = bc_ID c, cv_AccountID = a, cv_StartDate = bc_StartDate c, cv_EndDate = bc_EndDate c,
        cv_Label = bc_Label c, cv_TotalOutstanding = total,
        cv_TransactionCount = length (attached_txns d c)\<rparr> # running a d total cs)"

definition listBillingCycles :: "uuid \<Rightarrow> uuid \<Rightarrow> db \<Rightarrow> db_error + cycle_view list" where
  "listBillingCycles u a d =
     (let cs = sort_key bc_StartDate (account_cycles u a d) in
      if list_all (net_scans d) cs then Inr (running a d 0 cs) else Inl Constraint)"

section \<open>The endpoint\<close>

definition GetBillingCycles :: "date \<Rightarrow> uuid \<Rightarrow> uuid option \<Rightarrow> (db, http_error, cycle_view list) prog" where
  "GetBillingCycles now u p =
     seq (path_id ''invalid id'' p) (\<lambda>a.
     seq (ask (find_owned_account u a)) (\<lambda>r. case r of
       None \<Rightarrow> fail (not_found ''account not found'')
     | Some r \<Rightarrow> (case ac_BillingDay r of
         None \<Rightarrow> ret []
       | Some D \<Rightarrow>
           seq (on_error (with_tx (ensureBillingCycles now u a D)) (\<lambda>_. internal_error)) (\<lambda>_.
             run_stmt (\<lambda>d. map_sum id (\<lambda>cs. (cs, d)) (listBillingCycles u a d))))))"

end
