(* ===== verification/Cycle_Service.thy ===== *)
theory Cycle_Service
  imports Cycle_Store
begin

text \<open>
  Reading the billing cycles is a request that writes: it regenerates and back-fills them first. The
  contract of a predicate its statements keep, and the other users' rows as an interpretation.
\<close>

locale cycle_invariant =
  fixes u :: uuid and I :: "db \<Rightarrow> bool"
  assumes cycles_detached: "I d \<Longrightarrow> detach_from_cycles u a d = Inr (x, d') \<Longrightarrow> I d'"
    and cycles_deleted: "I d \<Longrightarrow> delete_cycles u a d = Inr (x, d') \<Longrightarrow> I d'"
    and cycle_inserted: "I d \<Longrightarrow> bc_UserID c = u \<Longrightarrow> bc_ID c \<noteq> 0 \<Longrightarrow> insert_cycle c d = Inr (x, d') \<Longrightarrow> I d'"
    and backfilled: "I d \<Longrightarrow> backfill u a d = Inr (x, d') \<Longrightarrow> I d'"
begin

lemma insert_cycles_keep:
  assumes "I d" "\<And>d'. I d' \<Longrightarrow> Q () d'" "\<And>e d'. E e d'"
  shows "outcomes (insert_cycles u a D covered ms) Q E d"
  using assms(1)
proof (induction ms arbitrary: d)
  case Nil
  then show ?case using assms(2) by (auto intro: wp)
next
  case (Cons m ms)
  have "I d'" if "i \<noteq> 0" "insert_cycle (new_cycle i u a D m) d = Inr (x, d')" for i x d'
    by (rule cycle_inserted [OF Cons.prems _ _ that(2)]) (use that(1) in \<open>simp_all add: new_cycle_def split: prod.split\<close>)
  then show ?case
    unfolding insert_cycles.simps by (intro wp Cons.IH assms(3)) (use Cons.prems in auto)
qed

lemma ensure_keeps:
  assumes "I d" "\<And>d'. I d' \<Longrightarrow> Q () d'" "\<And>e d'. E e d'"
  shows "outcomes (ensureBillingCycles now u a D) Q E d"
  unfolding ensureBillingCycles_def dropMisalignedCycles_def Let_def
  by (intro wp insert_cycles_keep assms(3))
    (use assms in \<open>auto dest: cycles_detached [rotated] cycles_deleted [rotated] backfilled [rotated]\<close>)

lemma cycles_read_keeps: "I d \<Longrightarrow> outcomes (GetBillingCycles now u p) (\<lambda>_. I) (\<lambda>_. I) d"
  unfolding GetBillingCycles_def by (intro wp ensure_keeps) (auto simp: listBillingCycles_def Let_def split: if_splits)

lemma cycle_step_keeps: "I (w_db w) \<Longrightarrow> forget (GetBillingCycles now u p) w = (r, w') \<Longrightarrow> I (w_db w')"
  using outcomes_elim [OF outcomes_forget [OF cycles_read_keeps]] by (cases r) fastforce+

end

lemma outcomes_cycles_refused:
  "outcomes (forget (GetBillingCycles now u p)) (\<lambda>_ _. True) (\<lambda>e d'. status e < 500 \<longrightarrow> d' = d) d"
proof -
  have in_tx: "outcomes m (\<lambda>_ _. True) (\<lambda>_ _. True) d" for m :: "(db, db_error, unit) prog"
    by (auto simp: outcomes_def split: prod.splits sum.splits)
  have read: "outcomes (run_stmt (\<lambda>d. map_sum id (\<lambda>cs. (cs, d)) (listBillingCycles u a d)))
      (\<lambda>_ _. True) (\<lambda>e d'. status e < 500 \<longrightarrow> d' = d) d'" for a d'
    by (intro wp) (simp_all add: internal_error_def)
  show ?thesis
    unfolding GetBillingCycles_def
    by (intro wp) (auto simp: internal_error_def intro!: read outcomes_mono [OF in_tx])
qed

text \<open>A map that leaves the rows outside \<open>P\<close> alone is not seen outside \<open>P\<close>.\<close>

lemma filter_map_other:
  "(\<And>t. t \<in> set ts \<Longrightarrow> f t \<noteq> t \<Longrightarrow> \<not> P t) \<Longrightarrow> (\<And>t. t \<in> set ts \<Longrightarrow> P (f t) = P t) \<Longrightarrow> filter P (map f ts) = filter P ts"
  by (induction ts) auto

lemma others_txns:
  "filter (\<lambda>t. tx_UserID t \<noteq> u) ts = filter (\<lambda>t. tx_UserID t \<noteq> u) (transactions d) \<Longrightarrow>
    others u (d\<lparr>transactions := ts\<rparr>) = others u d"
  by (simp add: others_def)

lemma others_cycles:
  "filter (\<lambda>c. bc_UserID c \<noteq> u) cs = filter (\<lambda>c. bc_UserID c \<noteq> u) (billing_cycles d) \<Longrightarrow>
    others u (d\<lparr>billing_cycles := cs\<rparr>) = others u d"
  by (simp add: others_def)

interpretation cycles_tenancy: cycle_invariant u "\<lambda>d. others u d = others u d0" for u d0
proof
  fix d d' a and x :: unit
  assume o: "others u d = others u d0"
  show "detach_from_cycles u a d = Inr (x, d') \<Longrightarrow> others u d' = others u d0"
    unfolding o [symmetric] detach_from_cycles_def
    by clarify (rule others_txns, rule filter_map_other; auto simp: on_cycles_def split: if_splits)
  have "others u (d\<lparr>transactions := map f (transactions d), billing_cycles := filter (\<lambda>c. \<not> is_cycle_of u a c) (billing_cycles d)\<rparr>) = others u d"
    if "\<And>t. f t \<noteq> t \<Longrightarrow> tx_UserID t = u" "\<And>t. tx_UserID (f t) = tx_UserID t" for f
  proof -
    have "others u ((d\<lparr>transactions := map f (transactions d)\<rparr>)\<lparr>billing_cycles := filter (\<lambda>c. \<not> is_cycle_of u a c) (billing_cycles d)\<rparr>) =
        others u (d\<lparr>transactions := map f (transactions d)\<rparr>)"
      by (rule others_cycles) (auto simp: is_cycle_of_def intro!: filter_cong)
    moreover have "others u (d\<lparr>transactions := map f (transactions d)\<rparr>) = others u d"
      by (rule others_txns, rule filter_map_other) (use that in auto)
    ultimately show ?thesis by simp
  qed
  then show "delete_cycles u a d = Inr (x, d') \<Longrightarrow> others u d' = others u d0"
    unfolding o [symmetric] delete_cycles_def by (force simp: is_txn_of_def)
  have "tx_UserID (assign_cycle cs t) = tx_UserID t" for cs t
    by (simp add: assign_cycle_def split: option.split)
  then show "backfill u a d = Inr (x, d') \<Longrightarrow> others u d' = others u d0"
    unfolding o [symmetric] backfill_def
    by clarify (rule others_txns, rule filter_map_other; auto simp: is_txn_of_def split: if_splits)
  show "bc_UserID c = u \<Longrightarrow> bc_ID c \<noteq> 0 \<Longrightarrow> insert_cycle c d = Inr (x, d') \<Longrightarrow> others u d' = others u d0" for c
    unfolding o [symmetric] by (auto simp: insert_cycle_def others_def split: if_splits)
qed

end
