(* ===== verification/Date_Text.thy ===== *)
theory Date_Text
  imports Validation
begin

text \<open>
  Dates as text. The rule engine compares dates that are \<open>YYYY-MM-DD\<close> strings with Go's \<open><\<close>, which
  compares bytes, while the database compares days. \<open>parse_ymd\<close> accepts exactly the text \<open>format_ymd\<close>
  writes, and on such texts the two orders agree.
\<close>

section \<open>Go's order of strings\<close>

fun str_less :: "string \<Rightarrow> string \<Rightarrow> bool" where
  "str_less s [] \<longleftrightarrow> False"
| "str_less [] (y # ys) \<longleftrightarrow> True"
| "str_less (x # xs) (y # ys) \<longleftrightarrow> (of_char x :: nat) < of_char y \<or> x = y \<and> str_less xs ys"

lemma str_less_same [simp]: "str_less (xs @ s) (xs @ t) \<longleftrightarrow> str_less s t"
  by (induction xs) auto

lemma str_less_irrefl [simp]: "\<not> str_less s s"
  by (induction s) auto

lemma str_less_digit:
  "m < 10 \<Longrightarrow> n < 10 \<Longrightarrow> str_less (digit m # s) (digit n # t) \<longleftrightarrow> m < n \<or> m = n \<and> str_less s t"
  by (auto simp: digit_def of_char_of)

lemma digit_0: "digit 0 = CHR ''0''"
  by code_simp

lemma div_mod_int: "int k * int (n div k) + int (n mod k) = int n"
  by (metis mult_div_mod_eq of_nat_add of_nat_mult)

lemma lex_div_mod:
  fixes m n k :: nat
  shows "m div k < n div k \<or> m div k = n div k \<and> (m mod k < n mod k \<or> m mod k = n mod k \<and> P) \<longleftrightarrow>
    m < n \<or> m = n \<and> P"
proof (cases "m div k" "n div k" rule: linorder_cases)
  case less
  then have "m < n" using div_le_mono [of n m k] by (cases "m < n") auto
  with less show ?thesis by simp
next
  case equal
  then obtain q where q: "m div k = q" "n div k = q" by simp
  have "m = k * q + m mod k" "n = k * q + n mod k"
    using mult_div_mod_eq [of k m] mult_div_mod_eq [of k n] q by simp_all
  then have "m < n \<longleftrightarrow> m mod k < n mod k" "m = n \<longleftrightarrow> m mod k = n mod k" by linarith+
  then show ?thesis using q by simp
next
  case greater
  then have "n < m" using div_le_mono [of m n k] by (cases "n < m") auto
  with greater show ?thesis by simp
qed

lemma pad_2_eq: "n < 100 \<Longrightarrow> pad 2 (dec n) = [digit (n div 10), digit (n mod 10)]"
proof -
  assume n: "n < 100"
  note zero = digit_0
  show ?thesis
  proof (cases "n < 10")
    case True
    then show ?thesis by (simp add: pad_def dec.simps [of n] zero)
  next
    case False
    then have "dec n = [digit (n div 10), digit (n mod 10)]"
      using n by (simp add: dec.simps [of n] dec.simps [of "n div 10"])
    then show ?thesis by (simp add: pad_def)
  qed
qed

lemma pad_4_eq:
  assumes "n < 10000"
  shows "pad 4 (dec n) = pad 2 (dec (n div 100)) @ pad 2 (dec (n mod 100))"
proof -
  note zero = digit_0
  have right: "pad 2 (dec (n div 100)) @ pad 2 (dec (n mod 100)) =
      [digit (n div 1000), digit (n div 100 mod 10), digit (n div 10 mod 10), digit (n mod 10)]"
  proof -
    have "n mod 100 = 10 * (n div 10 mod 10) + n mod 10" using mod_mult2_eq [of n 10 10] by simp
    then have "n mod 100 div 10 = n div 10 mod 10" "n mod 100 mod 10 = n mod 10" by simp_all
    moreover have "n div 100 < 100" "n div 100 div 10 = n div 1000" using assms by (simp_all add: div_mult2_eq [symmetric])
    ultimately show ?thesis by (simp add: pad_2_eq)
  qed
  have rep: "replicate 3 c = [c, c, c]" "replicate 2 c = [c, c]" for c :: char
    by (simp_all add: numeral_3_eq_3 numeral_2_eq_2)
  consider "n < 10" | "10 \<le> n" "n < 100" | "100 \<le> n" "n < 1000" | "1000 \<le> n" by linarith
  then show ?thesis
  proof cases
    case 1
    then show ?thesis unfolding right by (simp add: pad_def dec.simps [of n] zero rep)
  next
    case 2
    then have "dec n = [digit (n div 10), digit (n mod 10)]"
      by (simp add: dec.simps [of n] dec.simps [of "n div 10"])
    with 2 show ?thesis unfolding right by (simp add: pad_def zero rep)
  next
    case 3
    then have "10 \<le> n div 10" "n div 100 < 10" by (simp_all add: less_eq_div_iff_mult_less_eq less_mult_imp_div_less)
    with 3 have "dec n = [digit (n div 100), digit (n div 10 mod 10), digit (n mod 10)]"
      by (simp add: dec.simps [of n] dec.simps [of "n div 10"] dec.simps [of "n div 100"] div_mult2_eq [symmetric])
    with 3 show ?thesis unfolding right by (simp add: pad_def zero)
  next
    case 4
    then have "10 \<le> n div 10" "10 \<le> n div 100" "n div 1000 < 10"
      using assms by (simp_all add: less_eq_div_iff_mult_less_eq less_mult_imp_div_less)
    with 4 have "dec n = [digit (n div 1000), digit (n div 100 mod 10), digit (n div 10 mod 10), digit (n mod 10)]"
      using assms by (simp add: dec.simps [of n] dec.simps [of "n div 10"] dec.simps [of "n div 100"]
          dec.simps [of "n div 1000"] div_mult2_eq [symmetric])
    then show ?thesis unfolding right by (simp add: pad_def)
  qed
qed

lemma str_less_pad_2:
  assumes "m < 100" "n < 100"
  shows "str_less (pad 2 (dec m) @ s) (pad 2 (dec n) @ t) \<longleftrightarrow> m < n \<or> m = n \<and> str_less s t"
proof -
  have "m div 10 < 10" "n div 10 < 10" "m mod 10 < 10" "n mod 10 < 10" using assms by simp_all
  then show ?thesis
    using lex_div_mod [of m 10 n "str_less s t"]
    by (simp only: pad_2_eq [OF assms(1)] pad_2_eq [OF assms(2)] append_Cons append_Nil str_less_digit)
qed

section \<open>Four-digit years\<close>

definition four_digit_year :: "date \<Rightarrow> bool" where
  "four_digit_year t \<longleftrightarrow> 0 \<le> year_of t \<and> year_of t \<le> 9999"

definition ymd_text :: "nat \<Rightarrow> nat \<Rightarrow> nat \<Rightarrow> string" where
  "ymd_text y m d = pad 2 (dec (y div 100)) @ pad 2 (dec (y mod 100)) @ ''-'' @ pad 2 (dec m) @ ''-'' @ pad 2 (dec d)"

lemma format_ymd_eq:
  assumes "four_digit_year t"
  shows "format_ymd t = ymd_text (nat (year_of t)) (nat (month_of t)) (nat (day_of t))"
proof -
  have "\<not> year_of t < 0" "\<not> month_of t < 0" "\<not> day_of t < 0" "nat (year_of t) < 10000"
    using assms month_of_range [of t] day_of_range(1) [of t] by (auto simp: four_digit_year_def simp del: month_of_range)
  then show ?thesis by (simp add: format_ymd_def ymd_text_def dec_int_def pad_4_eq)
qed

lemma month_length_le: "1 \<le> m \<Longrightarrow> m \<le> 12 \<Longrightarrow> d \<le> month_length y m \<Longrightarrow> d \<le> 31"
  using month_length_range(2) [of m y] by simp

lemma digits2_pad: "n < 100 \<Longrightarrow> \<exists>a b. pad 2 (dec n) = [a, b] \<and> digits2 a b = Some (int n)"
proof (intro exI conjI)
  assume n: "n < 100"
  show "pad 2 (dec n) = [digit (n div 10), digit (n mod 10)]" by (rule pad_2_eq [OF n])
  show "digits2 (digit (n div 10)) (digit (n mod 10)) = Some (int n)"
    using n div_mod_int [of 10 n] by (simp add: digits2_def)
qed

lemma parse_ymd_text:
  assumes "y < 10000" "1 \<le> m" "m \<le> 12" "1 \<le> d" "int d \<le> month_length (int y) (int m)"
  shows "parse_ymd (ymd_text y m d) = Some (time_date (int y) (int m) (int d))"
proof -
  have d: "d < 100" using month_length_le [OF _ _ assms(5)] assms by simp
  have small: "y div 100 < 100" "y mod 100 < 100" "m < 100" using assms(1,3) by simp_all
  obtain a b where 1: "pad 2 (dec (y div 100)) = [a, b]" "digits2 a b = Some (int (y div 100))"
    using digits2_pad [OF small(1)] by blast
  obtain e f where 2: "pad 2 (dec (y mod 100)) = [e, f]" "digits2 e f = Some (int (y mod 100))"
    using digits2_pad [OF small(2)] by blast
  obtain g h where 3: "pad 2 (dec m) = [g, h]" "digits2 g h = Some (int m)"
    using digits2_pad [OF small(3)] by blast
  obtain i j where 4: "pad 2 (dec d) = [i, j]" "digits2 i j = Some (int d)"
    using digits2_pad [OF d] by blast
  have "100 * int (y div 100) + int (y mod 100) = int y" using div_mod_int [of 100 y] by simp
  then show ?thesis using assms by (simp add: ymd_text_def parse_ymd_def 1 2 3 4 Let_def)
qed

lemma digits2_inv:
  assumes "digits2 a b = Some n"
  shows "0 \<le> n" "n < 100" "pad 2 (dec (nat n)) = [a, b]"
proof -
  obtain x y where xy: "digit_val a = Some x" "digit_val b = Some y" "n = 10 * int x + int y"
    using assms by (auto simp: digits2_def split: option.splits)
  then have lt: "x < 10" "y < 10" using digit_val_lt by blast+
  have dig: "digit k = c" if "digit_val c = Some k" for c k
    using that by (auto simp: digit_val_def digit_def Let_def split: if_splits)
  have n: "nat n = 10 * x + y" using xy(3) by simp
  then have "nat n < 100" "nat n div 10 = x" "nat n mod 10 = y" using lt by simp_all
  then show "pad 2 (dec (nat n)) = [a, b]" using dig xy by (simp add: pad_2_eq)
  show "0 \<le> n" "n < 100" using xy(3) lt by simp_all
qed

lemma parse_ymd_shape:
  assumes "parse_ymd s = Some t"
  obtains y m d where "s = ymd_text y m d" "t = time_date (int y) (int m) (int d)" "y < 10000"
    "1 \<le> m" "m \<le> 12" "1 \<le> d" "int d \<le> month_length (int y) (int m)"
proof -
  obtain y1 y2 y3 y4 h1 m1 m2 h2 d1 d2 yh yl m d where s: "s = [y1, y2, y3, y4, h1, m1, m2, h2, d1, d2]"
    and p: "digits2 y1 y2 = Some yh" "digits2 y3 y4 = Some yl" "digits2 m1 m2 = Some m" "digits2 d1 d2 = Some d"
    and c: "h1 = CHR ''-''" "h2 = CHR ''-''" "1 \<le> m" "m \<le> 12" "1 \<le> d" "d \<le> month_length (100 * yh + yl) m"
      "t = time_date (100 * yh + yl) m d"
    using assms by (auto simp: parse_ymd_def Let_def split: list.splits option.splits if_splits)
  note i = digits2_inv [OF p(1)] digits2_inv [OF p(2)] digits2_inv [OF p(3)] digits2_inv [OF p(4)]
  define y where "y = nat (100 * yh + yl)"
  have y: "int y = 100 * yh + yl" "y < 10000" using i by (simp_all add: y_def)
  have "y = 100 * nat yh + nat yl" using i by (simp add: y_def)
  then have "y div 100 = nat yh" "y mod 100 = nat yl" using i by simp_all
  then have "s = ymd_text y (nat m) (nat d)" using s c i by (simp add: ymd_text_def)
  then show thesis by (rule that) (use c y in auto)
qed

lemma four_digit_parse: "parse_ymd s = Some t \<Longrightarrow> four_digit_year t \<and> s = format_ymd t"
proof -
  assume "parse_ymd s = Some t"
  then obtain y m d where p: "s = ymd_text y m d" "t = time_date (int y) (int m) (int d)" "y < 10000"
    "1 \<le> m" "m \<le> 12" "1 \<le> d" "int d \<le> month_length (int y) (int m)"
    by (rule parse_ymd_shape)
  have "valid_civil (int y) (int m) (int d)" using p by (simp add: valid_civil_def)
  from civil_time_date [OF this] have v: "year_of t = int y" "month_of t = int m" "day_of t = int d"
    by (simp_all add: p(2))
  then have "four_digit_year t" using p(3) by (simp add: four_digit_year_def)
  with format_ymd_eq [OF this] v p(1) show ?thesis by simp
qed

lemma parse_format_ymd:
  assumes t: "four_digit_year t"
  shows "parse_ymd (format_ymd t) = Some t"
proof -
  have r: "1 \<le> month_of t" "month_of t \<le> 12" "1 \<le> day_of t" "day_of t \<le> month_length (year_of t) (month_of t)"
    using day_of_range [of t] by simp_all
  moreover from this t have "int (nat (year_of t)) = year_of t" "int (nat (month_of t)) = month_of t"
    "int (nat (day_of t)) = day_of t" "nat (year_of t) < 10000"
    "1 \<le> nat (month_of t)" "nat (month_of t) \<le> 12" "1 \<le> nat (day_of t)"
    unfolding four_digit_year_def by linarith+
  ultimately have "parse_ymd (ymd_text (nat (year_of t)) (nat (month_of t)) (nat (day_of t))) =
      Some (time_date (year_of t) (month_of t) (day_of t))"
    using parse_ymd_text [of "nat (year_of t)" "nat (month_of t)" "nat (day_of t)"] by (simp only: simp_thms)
  then show ?thesis using format_ymd_eq [OF t] by simp
qed

text \<open>Dates round-trip through their text: a date of a four-digit year parses back from the text it is
  formatted as, and a text parses only if it is the text its date is formatted as.\<close>

theorem dates_round_trip:
  "(four_digit_year t \<longrightarrow> parse_ymd (format_ymd t) = Some t) \<and>
   (parse_ymd s = Some t \<longrightarrow> four_digit_year t \<and> s = format_ymd t)"
  using parse_format_ymd four_digit_parse by blast

theorem dates_round_trip_witness:
  "parse_ymd (format_ymd 738550) = Some 738550 \<and> four_digit_year 738550 \<and> format_ymd 738550 = ''2023-01-31''"
proof -
  have "four_digit_year 738550" "parse_ymd ''2023-01-31'' = Some 738550" by code_simp+
  with dates_round_trip [of 738550 "''2023-01-31''"] show ?thesis by simp
qed

lemma date_less_iff:
  "a < b \<longleftrightarrow> year_of a < year_of b \<or> year_of a = year_of b \<and>
     (month_of a < month_of b \<or> month_of a = month_of b \<and> day_of a < day_of b)" (is "?l \<longleftrightarrow> ?less a b")
proof -
  have less: "x < y" if "?less x y" for x y
    using time_date_less [OF civil_valid civil_valid, of x y] that by simp
  have "?less a b \<or> a = b \<or> ?less b a"
  proof -
    have "a = b" if "year_of a = year_of b" "month_of a = month_of b" "day_of a = day_of b"
      using that time_date_civil by metis
    then show ?thesis by linarith
  qed
  then show ?thesis using less [of a b] less [of b a] by auto
qed

lemma format_ymd_less:
  assumes "four_digit_year a" "four_digit_year b"
  shows "str_less (format_ymd a) (format_ymd b) \<longleftrightarrow> a < b"
proof -
  have y: "str_less (pad 2 (dec (m div 100)) @ pad 2 (dec (m mod 100)) @ s) (pad 2 (dec (n div 100)) @ pad 2 (dec (n mod 100)) @ t) \<longleftrightarrow>
      m < n \<or> m = n \<and> str_less s t" if "m < 10000" "n < 10000" for m n s t
    using that lex_div_mod [of m 100 n "str_less s t"] by (simp add: str_less_pad_2)
  have hyphen: "str_less (''-'' @ s) (''-'' @ t) \<longleftrightarrow> str_less s t" for s t by simp
  have r: "nat (month_of t) < 100" "nat (day_of t) < 100" "0 \<le> month_of t" "0 \<le> day_of t" for t
    using month_of_range [of t] day_of_range [of t] month_length_range(2) [of "month_of t" "year_of t"]
    by (auto simp del: month_of_range)
  have "str_less (pad 2 (dec (nat (day_of a)))) (pad 2 (dec (nat (day_of b)))) \<longleftrightarrow> day_of a < day_of b"
    using str_less_pad_2 [OF r(2) r(2), of a "[]" b "[]"] r(4) [of a] by auto
  moreover have n: "nat (year_of a) < 10000" "nat (year_of b) < 10000"
    using assms unfolding four_digit_year_def by linarith+
  ultimately have "str_less (format_ymd a) (format_ymd b) \<longleftrightarrow>
      nat (year_of a) < nat (year_of b) \<or> nat (year_of a) = nat (year_of b) \<and>
      (nat (month_of a) < nat (month_of b) \<or> nat (month_of a) = nat (month_of b) \<and> day_of a < day_of b)"
    unfolding format_ymd_eq [OF assms(1)] format_ymd_eq [OF assms(2)] ymd_text_def y [OF n] hyphen
      str_less_pad_2 [OF r(1) r(1)] by simp
  also have "\<dots> \<longleftrightarrow> a < b"
  proof -
    have "0 \<le> year_of a" "0 \<le> year_of b" using assms by (simp_all add: four_digit_year_def)
    then have "nat (year_of a) < nat (year_of b) \<longleftrightarrow> year_of a < year_of b" "nat (year_of a) = nat (year_of b) \<longleftrightarrow> year_of a = year_of b"
      by linarith+
    moreover have "nat (month_of a) < nat (month_of b) \<longleftrightarrow> month_of a < month_of b" "nat (month_of a) = nat (month_of b) \<longleftrightarrow> month_of a = month_of b"
      using r(3) [of a] r(3) [of b] by linarith+
    ultimately show ?thesis unfolding date_less_iff [of a b] by simp
  qed
  finally show ?thesis .
qed

end
