(* ===== verification/Query_Parse.thy ===== *)
theory Query_Parse
  imports Validation Money
begin

text \<open>
  The query language of the transaction list: \<open>backend/internal/query/parse.go\<close> and \<open>fields.go\<close>. A query is
  a list of runes; a rune is a \<open>char\<close>, so the queries of the model are of single-byte runes, for which
  \<open>string(runes[i:j])\<close> is the slice itself. Positions are indices into the runes, as in the code.
  \<open>uuid.Parse\<close> is the argument \<open>is_uuid\<close> and \<open>time.Now()\<close> the argument \<open>now\<close>. \<open>parse_step\<close> is one round
  of the \<open>for\<close> loop of \<open>Parse\<close>; the loop itself has no bound, so \<open>ParseQuery\<close> returns an option.
\<close>

section \<open>Terms and diagnostics\<close>

definition MaxQueryChars :: nat where
  "MaxQueryChars = 2000"

definition MaxTerms :: nat where
  "MaxTerms = 32"

datatype op = OpEq | OpNe | OpGt | OpGe | OpLt | OpLe | OpLike

definition FieldPlain :: string where
  "FieldPlain = ''plain''"

record query_term =
  qt_Field :: string
  qt_Op :: op
  qt_Values :: "string list"
  qt_Negated :: bool
  qt_Position :: nat
  qt_Raw :: string

datatype diag_code =
  CodeUnknownField | CodeBadOperator | CodeMissingValue | CodeUnresolved | CodeMalformedAmt
  | CodeMalformedDate | CodeAmbiguousValue | CodeTooLong

record diagnostic =
  dg_Term :: string
  dg_Code :: diag_code
  dg_Message :: string
  dg_Position :: nat

definition operators :: "(string \<times> op) list" where
  "operators = [(''>='', OpGe), (''<='', OpLe), (''!='', OpNe), (''~'', OpLike),
     (''>'', OpGt), (''<'', OpLt), (''='', OpEq)]"

text \<open>\<open>string(op)\<close>.\<close>

fun op_symbol :: "op \<Rightarrow> string" where
  "op_symbol OpEq = ''=''"
| "op_symbol OpNe = ''!=''"
| "op_symbol OpGt = ''>''"
| "op_symbol OpGe = ''>=''"
| "op_symbol OpLt = ''<''"
| "op_symbol OpLe = ''<=''"
| "op_symbol OpLike = ''~''"

definition isOperatorRune :: "char \<Rightarrow> bool" where
  "isOperatorRune r \<longleftrightarrow> r = CHR ''>'' \<or> r = CHR ''<'' \<or> r = CHR ''='' \<or> r = CHR ''!'' \<or> r = CHR ''~''"

section \<open>Fields\<close>

datatype value_kind = KindText | KindUUID | KindEnum | KindAmount | KindDate | KindTagList | KindCurrency

record field_def =
  fd_userTyped :: bool
  fd_ops :: "op list"
  fd_enum :: "string list"
  fd_kind :: value_kind
  fd_sentinels :: "string list"

definition opsEq :: "op list" where
  "opsEq = [OpEq, OpNe]"

definition opsOrder :: "op list" where
  "opsOrder = [OpEq, OpNe, OpGt, OpGe, OpLt, OpLe]"

definition opsText :: "op list" where
  "opsText = [OpEq, OpNe, OpLike]"

definition nullSentinels :: "string list" where
  "nullSentinels = [''none'', ''uncategorized'']"

abbreviation typed_field :: "value_kind \<Rightarrow> op list \<Rightarrow> string list \<Rightarrow> string list \<Rightarrow> field_def" where
  "typed_field k ops enum sentinels \<equiv>
     \<lparr>fd_userTyped = True, fd_ops = ops, fd_enum = enum, fd_kind = k, fd_sentinels = sentinels\<rparr>"

definition fieldTable :: "(string \<times> field_def) list" where
  "fieldTable =
    [(FieldPlain, \<lparr>fd_userTyped = False, fd_ops = opsText, fd_enum = [], fd_kind = KindText, fd_sentinels = []\<rparr>),
     (''desc'', typed_field KindText opsText [] []),
     (''note'', typed_field KindText opsText [] []),
     (''cat'', typed_field KindUUID opsEq [] nullSentinels),
     (''group'', typed_field KindUUID opsEq [] []),
     (''acct'', typed_field KindUUID opsEq [] []),
     (''id'', typed_field KindUUID opsEq [] []),
     (''ccy'', typed_field KindCurrency opsEq [] []),
     (''payee'', typed_field KindUUID opsEq [] nullSentinels),
     (''tag'', typed_field KindTagList opsEq [] []),
     (''type'', typed_field KindEnum opsEq [''debit'', ''credit''] []),
     (''linked'', typed_field KindEnum opsEq [''true'', ''false''] []),
     (''recurring'', typed_field KindEnum opsEq [''linked'', ''unlinked''] []),
     (''amt'', typed_field KindAmount opsOrder [] []),
     (''date'', typed_field KindDate opsOrder [] [])]"

definition userField :: "string \<Rightarrow> field_def option" where
  "userField name = (case map_of fieldTable name of
     None \<Rightarrow> None | Some d \<Rightarrow> if fd_userTyped d then Some d else None)"

definition allowsOp :: "field_def \<Rightarrow> op \<Rightarrow> bool" where
  "allowsOp d op \<longleftrightarrow> op \<in> set (fd_ops d)"

text \<open>\<open>isCurrencyCode\<close>: three ASCII letters.\<close>

definition ascii_letter :: "char \<Rightarrow> bool" where
  "ascii_letter c \<longleftrightarrow> (let k = of_char c :: nat in 97 \<le> k \<and> k \<le> 122 \<or> 65 \<le> k \<and> k \<le> 90)"

definition isCurrencyCode :: "string \<Rightarrow> bool" where
  "isCurrencyCode v \<longleftrightarrow> length v = 3 \<and> list_all ascii_letter v"

section \<open>Validation of a term's values\<close>

text \<open>A \<open>fieldError\<close> is its code and its message; \<open>check_value\<close> is the body of the loop of \<open>validate\<close>.\<close>

type_synonym field_error = "diag_code \<times> string"

definition go_list :: "string list \<Rightarrow> string" where
  "go_list xs = ''['' @ join_with '' '' xs @ '']''"

definition check_value :: "(string \<Rightarrow> bool) \<Rightarrow> date \<Rightarrow> field_def \<Rightarrow> string \<Rightarrow> string \<Rightarrow> field_error option" where
  "check_value is_uuid now d field v =
     (case fd_kind d of
        KindText \<Rightarrow> None
      | KindUUID \<Rightarrow>
          if v \<in> set (fd_sentinels d) then None
          else if is_uuid v then None
          else if fd_sentinels d = [] then
            Some (CodeUnresolved, field @ '' takes an id (a uuid); '' @ go_quote v @ '' is not one'')
          else Some (CodeUnresolved, field @ '': '' @ go_quote v @
            '' is not an id this server can resolve; ids are a uuid, '' @ go_quote (fd_sentinels d ! 0) @
            '' or '' @ go_quote (fd_sentinels d ! 1))
      | KindEnum \<Rightarrow>
          if v \<in> set (fd_enum d) then None
          else Some (CodeUnresolved, field @ '': '' @ go_quote v @ '' is not one of '' @ go_list (fd_enum d))
      | KindCurrency \<Rightarrow>
          if isCurrencyCode v then None
          else Some (CodeUnresolved, field @ '': '' @ go_quote v @ '' is not a currency code (three letters, e.g. USD)'')
      | KindAmount \<Rightarrow>
          (case Parse v of
             Inr _ \<Rightarrow> None
           | Inl _ \<Rightarrow> Some (CodeMalformedAmt, field @ '': '' @ go_quote v @ '' is not an amount (e.g. 50 or 50.75)''))
      | KindDate \<Rightarrow>
          (case CheckTransactionDate v now of
             Inr _ \<Rightarrow> None
           | Inl msg \<Rightarrow> Some (CodeMalformedDate, field @ '': '' @ go_quote v @ '' is not a usable date ('' @ msg @ '')''))
      | KindTagList \<Rightarrow>
          if CHR 39 \<in> set v then Some (CodeUnresolved, field @ '': a tag name cannot contain a quote'') else None)"

fun first_error :: "('a \<Rightarrow> 'e option) \<Rightarrow> 'a list \<Rightarrow> 'e option" where
  "first_error f [] = None"
| "first_error f (x # xs) = (case f x of None \<Rightarrow> first_error f xs | Some e \<Rightarrow> Some e)"

definition validate :: "(string \<Rightarrow> bool) \<Rightarrow> date \<Rightarrow> field_def \<Rightarrow> query_term \<Rightarrow> field_error option" where
  "validate is_uuid now d t =
     (if qt_Values t = [] then Some (CodeMissingValue, qt_Field t @ '': needs a value'')
      else first_error (check_value is_uuid now d (qt_Field t)) (qt_Values t))"

definition toDiagnostic :: "field_error \<Rightarrow> string \<Rightarrow> nat \<Rightarrow> diagnostic" where
  "toDiagnostic e raw start =
     \<lparr>dg_Term = raw, dg_Code = fst e, dg_Message = snd e, dg_Position = start\<rparr>"

section \<open>Reading runes\<close>

text \<open>\<open>scan P rs i\<close> is where the loop \<open>for j < n && P(runes[j]) { j++ }\<close> from \<open>i\<close> stops.\<close>

definition scan :: "(char \<Rightarrow> bool) \<Rightarrow> string \<Rightarrow> nat \<Rightarrow> nat" where
  "scan P rs i = i + length (takeWhile P (drop i rs))"

definition slice :: "string \<Rightarrow> nat \<Rightarrow> nat \<Rightarrow> string" where
  "slice rs i j = take (j - i) (drop i rs)"

definition blank :: "char \<Rightarrow> bool" where
  "blank c \<longleftrightarrow> c = CHR '' '' \<or> c = CHR 9"

abbreviation skipSpaces :: "string \<Rightarrow> nat \<Rightarrow> nat" where
  "skipSpaces \<equiv> scan blank"

definition word_rune :: "char \<Rightarrow> bool" where
  "word_rune r \<longleftrightarrow> \<not> (blank r \<or> r = CHR 34 \<or> r = CHR '','' \<or> r = CHR '':'' \<or> isOperatorRune r)"

definition readWord :: "string \<Rightarrow> nat \<Rightarrow> string \<times> nat" where
  "readWord rs i = (let j = scan word_rune rs i in (slice rs i j, j))"

definition matchOp :: "string \<Rightarrow> nat \<Rightarrow> (op \<times> nat) option" where
  "matchOp rs i = (case find (\<lambda>(s, _). prefix s (drop i rs)) operators of
     None \<Rightarrow> None | Some (s, op) \<Rightarrow> Some (op, length s))"

text \<open>
  \<open>readValue\<close>. \<open>quoted\<close> reads behind the opening quote and returns how many runes it used, with the closing
  quote, and the text; a backslash takes the next rune as it is.
\<close>

fun quoted :: "string \<Rightarrow> nat \<times> string" where
  "quoted [] = (0, [])"
| "quoted [c] = (if c = CHR 34 then (1, []) else (1, [c]))"
| "quoted (c # d # cs) =
     (if c = CHR 92 then (case quoted cs of (k, s) \<Rightarrow> (k + 2, d # s))
      else if c = CHR 34 then (1, [])
      else (case quoted (d # cs) of (k, s) \<Rightarrow> (k + 1, c # s)))"

definition bare_values :: "string \<Rightarrow> string list" where
  "bare_values run =
     (case filter (\<lambda>p. p \<noteq> []) (map trim_space (split_on (CHR '','') run)) of
        [] \<Rightarrow> [run] | vs \<Rightarrow> vs)"

definition readValue :: "string \<Rightarrow> nat \<Rightarrow> nat \<times> string list" where
  "readValue rs i =
     (if i < length rs \<and> rs ! i = CHR 34
      then (case quoted (drop (Suc i) rs) of (k, s) \<Rightarrow> (Suc i + k, [s]))
      else let j = scan (\<lambda>c. \<not> (blank c \<or> c = CHR 34)) rs i in (j, bare_values (slice rs i j)))"

section \<open>One round of \<open>Parse\<close>\<close>

text \<open>
  A round moves the position and then keeps a term, reports a dropped one, or skips a rune no token can
  start with. \<open>accept\<close> is the end that the two shapes with a field share.
\<close>

datatype outcome = Accepted query_term | Dropped diagnostic | Skipped

definition drop_term :: "string \<Rightarrow> diag_code \<Rightarrow> string \<Rightarrow> nat \<Rightarrow> outcome" where
  "drop_term raw code message start =
     Dropped \<lparr>dg_Term = raw, dg_Code = code, dg_Message = message, dg_Position = start\<rparr>"

definition accept :: "(string \<Rightarrow> bool) \<Rightarrow> date \<Rightarrow> field_def \<Rightarrow> query_term \<Rightarrow> outcome" where
  "accept is_uuid now d t = (case validate is_uuid now d t of
     Some e \<Rightarrow> Dropped (toDiagnostic e (qt_Raw t) (qt_Position t)) | None \<Rightarrow> Accepted t)"

definition field_value ::
  "(string \<Rightarrow> bool) \<Rightarrow> date \<Rightarrow> string \<Rightarrow> nat \<Rightarrow> bool \<Rightarrow> string \<Rightarrow> nat \<Rightarrow> nat \<times> outcome" where
  "field_value is_uuid now rs start negated word after =
     (let field = to_lower word; i = skipSpaces rs (after + 1) in
      if length rs \<le> i then
        (i, drop_term (slice rs start (after + 1)) CodeMissingValue (field @ '': needs a value'') start)
      else
        let (stop, values) = readValue rs i; raw = slice rs start stop in
        (stop, case userField field of
           None \<Rightarrow> drop_term raw CodeUnknownField (''unknown field '' @ field) start
         | Some d \<Rightarrow> accept is_uuid now d \<lparr>qt_Field = field, qt_Op = OpEq, qt_Values = values,
             qt_Negated = negated, qt_Position = start, qt_Raw = raw\<rparr>))"

definition compare_value ::
  "(string \<Rightarrow> bool) \<Rightarrow> date \<Rightarrow> string \<Rightarrow> nat \<Rightarrow> bool \<Rightarrow> string \<Rightarrow> nat \<Rightarrow> op \<Rightarrow> nat \<Rightarrow> nat \<times> outcome" where
  "compare_value is_uuid now rs start negated word after op width =
     (let name = to_lower word; afterOp = after + width in
      if afterOp < length rs \<and> isOperatorRune (rs ! afterOp) then
        let stop = scan (\<lambda>c. \<not> blank c) rs (afterOp + 1) in
        (stop, drop_term (slice rs start stop) CodeBadOperator (''malformed operator after '' @ name) start)
      else let j = skipSpaces rs afterOp in
      if length rs \<le> j then
        (afterOp, drop_term (slice rs start afterOp) CodeMissingValue (name @ '' needs a value'') start)
      else
        let (stop, values) = readValue rs j; raw = slice rs start stop in
        (stop, case userField name of
           None \<Rightarrow> drop_term raw CodeUnknownField (''unknown field '' @ name) start
         | Some d \<Rightarrow>
             if \<not> allowsOp d op then
               drop_term raw CodeBadOperator (name @ '' does not support '' @ op_symbol op) start
             else accept is_uuid now d \<lparr>qt_Field = name, qt_Op = op, qt_Values = values,
               qt_Negated = negated, qt_Position = start, qt_Raw = raw\<rparr>))"

lemma scan_ge: "i \<le> scan P rs i"
  by (simp add: scan_def)

lemma length_slice [simp]: "length (slice rs i j) = min (j - i) (length rs - i)"
  by (simp add: slice_def)

lemma readWord_progress: "readWord rs i = (w, j) \<Longrightarrow> i \<le> j \<and> (w \<noteq> [] \<longrightarrow> i < j)"
  by (auto simp: readWord_def Let_def slice_def scan_def)

text \<open>The loop that collects bare words: the words and the position it stops at.\<close>

function collect_words :: "string \<Rightarrow> nat \<Rightarrow> string list \<times> nat" where
  "collect_words rs j0 =
     (let j = skipSpaces rs j0 in
      if length rs \<le> j then ([], j)
      else let (w, next) = readWord rs j in
        if w = [] then collect_words rs (j + 1)
        else if next < length rs \<and> rs ! next = CHR '':'' then ([], j)
        else if matchOp rs next \<noteq> None then ([], j)
        else case collect_words rs next of (ws, k) \<Rightarrow> (w # ws, k))"
  by pat_completeness auto

termination
proof (relation "measure (\<lambda>(rs, j). length rs - j)")
  fix rs j0 and i :: nat
  assume "i = skipSpaces rs j0" "\<not> length rs \<le> i"
  then show "((rs, i + 1), rs, j0) \<in> measure (\<lambda>(rs, j). length rs - j)"
    using scan_ge [of j0 blank rs] by simp
next
  fix rs j0 i p w after
  assume "i = skipSpaces rs j0" "\<not> length rs \<le> i" "p = readWord rs i" "(w, after) = p" "w \<noteq> []"
  then show "((rs, after), rs, j0) \<in> measure (\<lambda>(rs, j). length rs - j)"
    using scan_ge [of j0 blank rs] readWord_progress [of rs i w after]
    by (auto intro!: diff_less_mono2)
qed auto

declare collect_words.simps [simp del]

definition plain_words :: "string \<Rightarrow> nat \<Rightarrow> bool \<Rightarrow> nat \<Rightarrow> nat \<times> outcome" where
  "plain_words rs start negated i =
     (case collect_words rs i of (ws, j) \<Rightarrow>
        if ws = [] then (i + 1, Skipped)
        else (j, Accepted \<lparr>qt_Field = FieldPlain, qt_Op = OpLike, qt_Values = ws, qt_Negated = negated,
                qt_Position = start, qt_Raw = join_with '' '' ws\<rparr>))"

definition read_term :: "(string \<Rightarrow> bool) \<Rightarrow> date \<Rightarrow> string \<Rightarrow> nat \<Rightarrow> nat \<times> outcome" where
  "read_term is_uuid now rs start =
     (let (word, next) = readWord rs start;
          negated = equal_fold word ''not'';
          i = (if negated then skipSpaces rs next else start);
          (word, after) = readWord rs i in
      if word \<noteq> [] \<and> after < length rs \<and> rs ! after = CHR '':''
      then field_value is_uuid now rs start negated word after
      else case (if word = [] then None else matchOp rs after) of
          Some (op, width) \<Rightarrow> compare_value is_uuid now rs start negated word after op width
        | None \<Rightarrow> plain_words rs start negated i)"

section \<open>\<open>Parse\<close>\<close>

record parsing =
  ps_pos :: nat
  ps_terms :: "query_term list"
  ps_diags :: "diagnostic list"

definition advance :: "nat \<times> outcome \<Rightarrow> parsing \<Rightarrow> parsing" where
  "advance r s = (case r of (i, c) \<Rightarrow>
     (case c of
        Accepted t \<Rightarrow> s\<lparr>ps_pos := i, ps_terms := ps_terms s @ [t]\<rparr>
      | Dropped d \<Rightarrow> s\<lparr>ps_pos := i, ps_diags := ps_diags s @ [d]\<rparr>
      | Skipped \<Rightarrow> s\<lparr>ps_pos := i\<rparr>))"

definition too_many :: "string \<Rightarrow> nat \<Rightarrow> diagnostic" where
  "too_many rs i = \<lparr>dg_Term = trim_space (drop i rs), dg_Code = CodeTooLong,
     dg_Message = ''query has more than 32 terms; the rest was ignored'', dg_Position = 0\<rparr>"

definition parse_step ::
  "(string \<Rightarrow> bool) \<Rightarrow> date \<Rightarrow> string \<Rightarrow> parsing \<Rightarrow> parsing + (query_term list \<times> diagnostic list)" where
  "parse_step is_uuid now rs s =
     (let i = skipSpaces rs (ps_pos s) in
      if length rs \<le> i then Inr (ps_terms s, ps_diags s)
      else if MaxTerms \<le> length (ps_terms s) then Inr (ps_terms s, ps_diags s @ [too_many rs i])
      else Inl (advance (read_term is_uuid now rs i) s))"

partial_function (option) parse_loop ::
  "(string \<Rightarrow> bool) \<Rightarrow> date \<Rightarrow> string \<Rightarrow> parsing \<Rightarrow> (query_term list \<times> diagnostic list) option" where
  "parse_loop is_uuid now rs s =
     (case parse_step is_uuid now rs s of
        Inr r \<Rightarrow> Some r
      | Inl s' \<Rightarrow> parse_loop is_uuid now rs s')"

declare parse_loop.simps [code]

definition cut_query :: "string \<Rightarrow> string \<times> diagnostic list" where
  "cut_query q =
     (if MaxQueryChars < length q then
        (take MaxQueryChars q,
         [\<lparr>dg_Term = take MaxQueryChars q, dg_Code = CodeTooLong,
           dg_Message = ''query is longer than 2000 characters; the rest was ignored'', dg_Position = 0\<rparr>])
      else (q, []))"

definition ParseQuery ::
  "(string \<Rightarrow> bool) \<Rightarrow> date \<Rightarrow> string \<Rightarrow> (query_term list \<times> diagnostic list) option" where
  "ParseQuery is_uuid now q =
     (case cut_query q of (rs, ds) \<Rightarrow>
        parse_loop is_uuid now rs \<lparr>ps_pos = 0, ps_terms = [], ps_diags = ds\<rparr>)"

end
