(* ===== verification/Query_Compile.thy ===== *)
theory Query_Compile
  imports Query_Parse
begin

text \<open>
  The compiler of the query language: \<open>backend/internal/query/compile.go\<close> and \<open>pattern.go\<close>, the expression of
  \<open>internal/currency\<close>, and the filter it appends to, \<open>txnFilter\<close> of \<open>handlers/transaction.go\<close> behind the
  adapter of \<open>handlers/query_sink.go\<close>. The statement text is a string, built by the code's own formats; a
  placeholder is a \<open>$\<close> and a number. An \<open>emit\<close> function returns the diagnostic of a dropped term, if any,
  and the filter.
\<close>

section \<open>The filter\<close>

datatype sql_arg = ArgUser uuid | ArgText string | ArgCents int | ArgUuid uuid | ArgTags "string list"

record txn_filter =
  tf_clauses :: "string list"
  tf_args :: "sql_arg list"
  tf_dateFrom :: string
  tf_dateTo :: string

definition newTxnFilter :: "uuid \<Rightarrow> txn_filter" where
  "newTxnFilter u = \<lparr>tf_clauses = [], tf_args = [ArgUser u], tf_dateFrom = [], tf_dateTo = []\<rparr>"

definition f_param :: "string \<Rightarrow> sql_arg \<Rightarrow> txn_filter \<Rightarrow> txn_filter" where
  "f_param clause v f =
     (let args = tf_args f @ [v] in
      f\<lparr>tf_args := args, tf_clauses := tf_clauses f @ [sprintf clause [length args]]\<rparr>)"

definition f_clause :: "string \<Rightarrow> sql_arg \<Rightarrow> txn_filter \<Rightarrow> string \<times> txn_filter" where
  "f_clause format v f =
     (let args = tf_args f @ [v] in (sprintf format [length args], f\<lparr>tf_args := args\<rparr>))"

definition f_raw :: "string \<Rightarrow> txn_filter \<Rightarrow> txn_filter" where
  "f_raw clause f = f\<lparr>tf_clauses := tf_clauses f @ [clause]\<rparr>"

definition f_anyOf :: "string list \<Rightarrow> txn_filter \<Rightarrow> txn_filter" where
  "f_anyOf clauses f =
     (if clauses = [] then f
      else f\<lparr>tf_clauses := tf_clauses f @ [''('' @ join_with '' OR '' clauses @ '')'']\<rparr>)"

definition f_params :: "string \<Rightarrow> sql_arg list \<Rightarrow> txn_filter \<Rightarrow> txn_filter" where
  "f_params clause vs f =
     (let first = length (tf_args f) + 1 in
      f\<lparr>tf_args := tf_args f @ vs,
        tf_clauses := tf_clauses f @ [sprintf clause [first..<first + length vs]]\<rparr>)"

definition f_where :: "txn_filter \<Rightarrow> string" where
  "f_where f = '' WHERE t.user_id = $1'' @
     (if tf_clauses f = [] then [] else '' AND '' @ join_with '' AND '' (tf_clauses f))"

section \<open>Fragments\<close>

abbreviation two_quotes :: string where
  "two_quotes \<equiv> [CHR 39, CHR 39]"

text \<open>\<open>currency.Column\<close> and the account-currency fragment built from it.\<close>

definition currency_default :: string where
  "currency_default = ''INR''"

definition currency_Column :: "string \<Rightarrow> string" where
  "currency_Column col =
     ''COALESCE(NULLIF('' @ col @ '', '' @ two_quotes @ ''), '' @ [CHR 39] @ currency_default @ [CHR 39] @ '')''"

definition currencyPredicate :: string where
  "currencyPredicate = ''EXISTS (SELECT 1 FROM accounts ac WHERE ac.id = t.account_id AND '' @
     currency_Column ''ac.currency'' @ '' = $%d)''"

definition group_break :: string where
  "group_break = CHR 10 # replicate 4 (CHR 9) @ ''  OR ''"

definition plainSearchGroup :: string where
  "plainSearchGroup =
     ''(LOWER(t.description) LIKE LOWER($%d)'' @ group_break @
     ''LOWER(COALESCE(t.notes, '' @ two_quotes @ '')) LIKE LOWER($%d)'' @ group_break @
     ''EXISTS (SELECT 1 FROM payees sp WHERE sp.id = t.payee_id AND LOWER(sp.name) LIKE LOWER($%d))'' @ group_break @
     ''EXISTS (SELECT 1 FROM unnest(t.tags) AS tag WHERE LOWER(tag) LIKE LOWER($%d)))''"

definition groupPredicate :: string where
  "groupPredicate =
     ''EXISTS (SELECT 1 FROM categories cat WHERE cat.id = t.category_id AND cat.group_id = $%d)''"

definition linked_sql :: string where
  "linked_sql = ''EXISTS (SELECT 1 FROM links l WHERE l.from_txn_id = t.id OR l.to_txn_id = t.id)''"

definition recurring_sql :: string where
  "recurring_sql = ''EXISTS (SELECT 1 FROM recurring_attachments ra WHERE ra.transaction_id = t.id)''"

text \<open>\<open>EscapeLikePattern\<close>: the replacer's three one-byte patterns.\<close>

definition escape_char :: "char \<Rightarrow> string" where
  "escape_char c = (if c = CHR 92 \<or> c = CHR ''%'' \<or> c = CHR ''_'' then [CHR 92, c] else [c])"

definition EscapeLikePattern :: "string \<Rightarrow> string" where
  "EscapeLikePattern p = concat (map escape_char p)"

definition like_arg :: "string \<Rightarrow> sql_arg" where
  "like_arg v = ArgText (''%'' @ EscapeLikePattern v @ ''%'')"

definition cmpFormat :: "op \<Rightarrow> string option" where
  "cmpFormat op = (case op of
     OpEq \<Rightarrow> Some ''='' | OpNe \<Rightarrow> Some ''<>'' | OpGt \<Rightarrow> Some ''>'' | OpGe \<Rightarrow> Some ''>=''
   | OpLt \<Rightarrow> Some ''<'' | OpLe \<Rightarrow> Some ''<='' | OpLike \<Rightarrow> None)"

section \<open>The emitters\<close>

type_synonym emitted = "diagnostic option \<times> txn_filter"

definition term_diag :: "query_term \<Rightarrow> diag_code \<Rightarrow> string \<Rightarrow> diagnostic" where
  "term_diag t code message =
     \<lparr>dg_Term = qt_Raw t, dg_Code = code, dg_Message = message, dg_Position = qt_Position t\<rparr>"

definition wrapGroup :: "string list \<Rightarrow> bool \<Rightarrow> txn_filter \<Rightarrow> txn_filter" where
  "wrapGroup clauses negate f =
     (if clauses = [] then f
      else if negate then f_raw (''NOT ('' @ join_with '' OR '' clauses @ '')'') f
      else f_anyOf clauses f)"

definition emit_plain :: "query_term \<Rightarrow> bool \<Rightarrow> txn_filter \<Rightarrow> emitted" where
  "emit_plain t negate f =
     (let args = concat (map (\<lambda>w. replicate 4 (like_arg w)) (qt_Values t));
          joined = join_with '' AND '' (map (\<lambda>_. plainSearchGroup) (qt_Values t)) in
      (None, f_params (if negate then ''NOT ('' @ joined @ '')'' else joined) args f))"

fun contains_loop :: "string \<Rightarrow> bool \<Rightarrow> string list \<Rightarrow> txn_filter \<Rightarrow> txn_filter" where
  "contains_loop format negate [] f = f"
| "contains_loop format negate (v # vs) f =
     contains_loop format negate vs
       (f_params (if negate then ''NOT ('' @ format @ '')'' else format) [like_arg v] f)"

definition emitContains :: "query_term \<Rightarrow> string \<Rightarrow> bool \<Rightarrow> txn_filter \<Rightarrow> emitted" where
  "emitContains t format negate f = (None, contains_loop format negate (qt_Values t) f)"

text \<open>The loops over a term's values that render one clause per value; \<open>isNull\<close> is empty for a column with no sentinel.\<close>

fun column_clauses :: "string \<Rightarrow> string \<Rightarrow> string list \<Rightarrow> txn_filter \<Rightarrow> string list \<times> txn_filter" where
  "column_clauses format isNull [] f = ([], f)"
| "column_clauses format isNull (v # vs) f =
     (if isNull \<noteq> [] \<and> (v = ''none'' \<or> v = ''uncategorized'')
      then (case column_clauses format isNull vs f of (cs, f') \<Rightarrow> (isNull # cs, f'))
      else case f_clause format (ArgText v) f of (c, f1) \<Rightarrow>
             (case column_clauses format isNull vs f1 of (cs, f') \<Rightarrow> (c # cs, f')))"

definition emitColumn :: "query_term \<Rightarrow> string \<Rightarrow> string \<Rightarrow> bool \<Rightarrow> txn_filter \<Rightarrow> emitted" where
  "emitColumn t format isNull negate f =
     (case column_clauses format isNull (qt_Values t) f of (cs, f') \<Rightarrow> (None, wrapGroup cs negate f'))"

definition emitGroup :: "query_term \<Rightarrow> bool \<Rightarrow> txn_filter \<Rightarrow> emitted" where
  "emitGroup t negate f =
     (case column_clauses groupPredicate [] (qt_Values t) f of (cs, f') \<Rightarrow> (None, wrapGroup cs negate f'))"

definition emitCurrency :: "query_term \<Rightarrow> bool \<Rightarrow> txn_filter \<Rightarrow> emitted" where
  "emitCurrency t negate f =
     (case column_clauses currencyPredicate [] (map to_upper (qt_Values t)) f of
        (cs, f') \<Rightarrow> (None, wrapGroup cs negate f'))"

definition quoteAll :: "string list \<Rightarrow> string" where
  "quoteAll vs = join_with '', '' (map (\<lambda>v. [CHR 39] @ v @ [CHR 39]) vs)"

definition emitTags :: "query_term \<Rightarrow> bool \<Rightarrow> txn_filter \<Rightarrow> emitted" where
  "emitTags t negate f =
     (if qt_Values t = [] then (Some (term_diag t CodeMissingValue ''tag: needs a value''), f)
      else if list_ex (\<lambda>v. CHR 39 \<in> set v) (qt_Values t) then
        (Some (term_diag t CodeUnresolved ''tag: a tag name cannot contain a quote''), f)
      else
        let literal = ''ARRAY['' @ quoteAll (qt_Values t) @ '']::text[]'' in
        (None, f_raw (if negate then ''NOT (t.tags && '' @ literal @ '')'' else ''t.tags && '' @ literal) f))"

definition flag_fragment :: "bool \<Rightarrow> string \<Rightarrow> string \<Rightarrow> string \<Rightarrow> string" where
  "flag_fragment negate whenTrue whenFalse v =
     (if negate then (if v = ''false'' \<or> v = ''unlinked'' then whenTrue else whenFalse)
      else (if v = ''false'' \<or> v = ''unlinked'' then whenFalse else whenTrue))"

definition emitFlag :: "query_term \<Rightarrow> bool \<Rightarrow> string \<Rightarrow> string \<Rightarrow> txn_filter \<Rightarrow> emitted" where
  "emitFlag t negate whenTrue whenFalse f =
     (None, wrapGroup (map (flag_fragment negate whenTrue whenFalse) (qt_Values t)) negate f)"

definition convertAmount :: "string \<Rightarrow> sql_arg option" where
  "convertAmount v = (case Parse v of Inl _ \<Rightarrow> None | Inr a \<Rightarrow> Some (ArgCents a))"

definition convertDate :: "string \<Rightarrow> sql_arg option" where
  "convertDate v = Some (ArgText v)"

text \<open>An unusable value ends the loop of \<open>emitOrdered\<close> at once, with what was bound before it.\<close>

fun ordered_clauses ::
  "(string \<Rightarrow> sql_arg option) \<Rightarrow> string \<Rightarrow> string list \<Rightarrow> txn_filter \<Rightarrow> (string + string list) \<times> txn_filter" where
  "ordered_clauses convert format [] f = (Inr [], f)"
| "ordered_clauses convert format (v # vs) f =
     (case convert v of
        None \<Rightarrow> (Inl v, f)
      | Some arg \<Rightarrow>
          (case f_clause format arg f of (c, f1) \<Rightarrow>
             (case ordered_clauses convert format vs f1 of
                (Inl bad, f') \<Rightarrow> (Inl bad, f')
              | (Inr cs, f') \<Rightarrow> (Inr (c # cs), f'))))"

definition emitOrdered ::
  "query_term \<Rightarrow> string \<Rightarrow> bool \<Rightarrow> diag_code \<Rightarrow> (string \<Rightarrow> sql_arg option) \<Rightarrow> txn_filter \<Rightarrow> emitted" where
  "emitOrdered t column negate badValueCode convert f =
     (case cmpFormat (qt_Op t) of
        None \<Rightarrow> (Some (term_diag t CodeBadOperator
                  (qt_Field t @ '' does not support '' @ op_symbol (qt_Op t))), f)
      | Some op \<Rightarrow>
          (case ordered_clauses convert (column @ '' '' @ op @ '' $%d'') (qt_Values t) f of
             (Inl v, f') \<Rightarrow> (Some (term_diag t badValueCode
                (if qt_Field t = ''amt''
                 then ''amt: '' @ go_quote v @ '' is not an amount (e.g. 50 or 50.75)''
                 else qt_Field t @ '': '' @ go_quote v @ '' is not a usable value'')), f')
           | (Inr cs, f') \<Rightarrow> (None, wrapGroup cs negate f')))"

section \<open>\<open>Compile\<close>\<close>

definition negates :: "query_term \<Rightarrow> bool" where
  "negates t \<longleftrightarrow> qt_Negated t \<or> qt_Op t = OpNe"

definition emit :: "query_term \<Rightarrow> txn_filter \<Rightarrow> emitted" where
  "emit t f =
     (let negate = negates t; field = qt_Field t in
      if field = FieldPlain then emit_plain t negate f
      else if field = ''desc'' then emitContains t ''LOWER(t.description) LIKE LOWER($%d)'' negate f
      else if field = ''note'' then
        emitContains t (''LOWER(COALESCE(t.notes, '' @ two_quotes @ '')) LIKE LOWER($%d)'') negate f
      else if field = ''cat'' then emitColumn t ''t.category_id = $%d'' ''t.category_id IS NULL'' negate f
      else if field = ''acct'' then emitColumn t ''t.account_id = $%d'' [] negate f
      else if field = ''id'' then emitColumn t ''t.id = $%d'' [] negate f
      else if field = ''ccy'' then emitCurrency t negate f
      else if field = ''payee'' then emitColumn t ''t.payee_id = $%d'' ''t.payee_id IS NULL'' negate f
      else if field = ''type'' then emitColumn t ''t.type = $%d'' [] negate f
      else if field = ''group'' then emitGroup t negate f
      else if field = ''tag'' then emitTags t negate f
      else if field = ''linked'' then emitFlag t negate linked_sql (''NOT '' @ linked_sql) f
      else if field = ''recurring'' then emitFlag t negate recurring_sql (''NOT '' @ recurring_sql) f
      else if field = ''amt'' then emitOrdered t ''t.amount'' negate CodeMalformedAmt convertAmount f
      else if field = ''date'' then emitOrdered t ''t.date'' negate CodeMalformedDate convertDate f
      else (Some (term_diag t CodeUnknownField (''unknown field '' @ field)), f))"

fun Compile :: "query_term list \<Rightarrow> txn_filter \<Rightarrow> diagnostic list \<times> txn_filter" where
  "Compile [] f = ([], f)"
| "Compile (t # ts) f =
     (case emit t f of (d, f1) \<Rightarrow>
        (case Compile ts f1 of (ds, f2) \<Rightarrow> ((case d of None \<Rightarrow> ds | Some x \<Rightarrow> x # ds), f2)))"

text \<open>\<open>compileQuery\<close> of the handlers: the diagnostics of both stages, and the filter.\<close>

definition compileQuery ::
  "(string \<Rightarrow> bool) \<Rightarrow> date \<Rightarrow> string \<Rightarrow> txn_filter \<Rightarrow> (diagnostic list \<times> txn_filter) option" where
  "compileQuery is_uuid now q f =
     (if q = [] then Some ([], f)
      else case ParseQuery is_uuid now q of
          None \<Rightarrow> None
        | Some (terms, ds) \<Rightarrow> (case Compile terms f of (ds', f') \<Rightarrow> Some (ds @ ds', f')))"

end
