(* ===== verification/Query_Reads.thy ===== *)
theory Query_Reads
  imports Query_Parse
begin

text \<open>
  What \<open>Parse\<close> promises: every round moves forward, so it returns; the terms and their values are bounded
  by the two caps; every term it keeps is well formed for its field; every diagnostic quotes the query. And
  one thing it loses: a \<open>not\<close> after a bare word.
\<close>

section \<open>Progress\<close>

lemma quoted_length: "quoted cs = (k, s) \<Longrightarrow> k \<le> length cs"
  by (induction cs arbitrary: k s rule: quoted.induct) (auto split: if_splits prod.splits)

lemma scan_le: "i \<le> length rs \<Longrightarrow> scan P rs i \<le> length rs"
  using length_takeWhile_le [of P "drop i rs"] by (simp add: scan_def)

lemma scan_stops: "scan P rs i < length rs \<Longrightarrow> \<not> P (rs ! scan P rs i)"
  using nth_length_takeWhile [of P "drop i rs"] by (simp add: scan_def)

lemma scan_moves: "i < length rs \<Longrightarrow> P (rs ! i) \<Longrightarrow> i < scan P rs i"
  by (simp add: scan_def Cons_nth_drop_Suc [symmetric])

text \<open>\<open>readValue\<close> uses at least one rune, and gives no more values than it uses runes.\<close>

lemma split_on_not_Nil [simp]: "split_on c xs \<noteq> []"
  by (cases xs) (auto split: list.splits)

lemma split_on_nonempty: "length (filter (\<lambda>p. p \<noteq> []) (map trim_space (split_on c xs))) \<le> length xs"
proof (induction xs)
  case (Cons x xs)
  obtain w ws where s: "split_on c xs = w # ws" by (cases "split_on c xs") auto
  have "length (filter (\<lambda>p. p \<noteq> []) (map trim_space ws)) \<le> length xs"
    using Cons.IH by (simp add: s split: if_splits)
  with Cons.IH show ?case by (simp add: s trim_space_def [of "[]"])
qed (simp add: trim_space_def)

lemma bare_values_bounds: "run \<noteq> [] \<Longrightarrow> bare_values run \<noteq> [] \<and> length (bare_values run) \<le> length run"
  using split_on_nonempty [of "CHR '',''" run] unfolding bare_values_def
  by (cases "filter (\<lambda>p. p \<noteq> []) (map trim_space (split_on CHR '','' run))") (simp_all add: Suc_le_eq)

lemma readValue_bounds:
  assumes "readValue rs i = (j, vs)" "i < length rs" "\<not> blank (rs ! i)"
  shows "i < j" "j \<le> length rs" "vs \<noteq> []" "length vs \<le> j - i"
proof -
  let ?Q = "\<lambda>c. \<not> (blank c \<or> c = CHR 34)"
  have "i < j \<and> j \<le> length rs \<and> vs \<noteq> [] \<and> length vs \<le> j - i"
  proof (cases "rs ! i = CHR 34")
    case True
    with assms obtain k s where "quoted (drop (Suc i) rs) = (k, s)" "j = Suc i + k" "vs = [s]"
      by (auto simp: readValue_def split: prod.splits)
    with assms(2) quoted_length [of "drop (Suc i) rs" k s] show ?thesis by simp
  next
    case False
    then have j: "j = scan ?Q rs i" "vs = bare_values (slice rs i j)"
      using assms(1) by (auto simp: readValue_def Let_def)
    moreover have "i < scan ?Q rs i" "scan ?Q rs i \<le> length rs"
      using False assms(2,3) by (auto intro: scan_moves scan_le)
    moreover from this assms(2) have "slice rs i (scan ?Q rs i) \<noteq> []" by (simp add: slice_def)
    ultimately show ?thesis using bare_values_bounds [of "slice rs i j"] by auto
  qed
  then show "i < j" "j \<le> length rs" "vs \<noteq> []" "length vs \<le> j - i" by simp_all
qed

lemma readWord_le: "readWord rs i = (w, j) \<Longrightarrow> i \<le> length rs \<Longrightarrow> j \<le> length rs"
  by (auto simp: readWord_def Let_def intro: scan_le)

lemma readWord_word: "readWord rs i = (w, j) \<Longrightarrow> list_all word_rune w"
  by (auto simp: readWord_def Let_def slice_def scan_def list_all_iff takeWhile_eq_take [symmetric]
      dest!: set_takeWhileD)

lemma matchOp_width: "matchOp rs i = Some (op, w) \<Longrightarrow> 0 < w \<and> i + w \<le> length rs"
  by (auto simp: matchOp_def operators_def split: if_splits dest!: prefix_length_le)

section \<open>One round\<close>

text \<open>
  A term is well formed for its field: a user field with an operator the field allows and values it
  accepts, or the words of a plain search.
\<close>

definition well_typed :: "(string \<Rightarrow> bool) \<Rightarrow> date \<Rightarrow> query_term \<Rightarrow> bool" where
  "well_typed is_uuid now t \<longleftrightarrow> qt_Values t \<noteq> [] \<and>
     (case userField (qt_Field t) of
        Some d \<Rightarrow> allowsOp d (qt_Op t) \<and> list_all (\<lambda>v. check_value is_uuid now d (qt_Field t) v = None) (qt_Values t)
      | None \<Rightarrow> qt_Field t = FieldPlain \<and> qt_Op t = OpLike \<and>
          list_all (\<lambda>w. w \<noteq> [] \<and> list_all word_rune w) (qt_Values t))"

definition quotes :: "string \<Rightarrow> nat \<Rightarrow> string \<Rightarrow> bool" where
  "quotes rs i s \<longleftrightarrow> s \<noteq> [] \<and> s = slice rs i (i + length s)"

definition good_read :: "(string \<Rightarrow> bool) \<Rightarrow> date \<Rightarrow> string \<Rightarrow> nat \<Rightarrow> nat \<times> outcome \<Rightarrow> bool" where
  "good_read is_uuid now rs start r \<longleftrightarrow> start < fst r \<and>
     (case snd r of
        Accepted t \<Rightarrow> fst r \<le> length rs \<and> length (qt_Values t) \<le> fst r - start \<and> well_typed is_uuid now t \<and>
          qt_Position t = start \<and> (qt_Field t \<noteq> FieldPlain \<longrightarrow> quotes rs start (qt_Raw t))
      | Dropped d \<Rightarrow> dg_Position d = start \<and> quotes rs start (dg_Term d)
      | Skipped \<Rightarrow> True)"

lemma quotes_slice: "start < stop \<Longrightarrow> start < length rs \<Longrightarrow> quotes rs start (slice rs start stop)"
  by (auto simp: quotes_def slice_def min_def)

lemma first_error_None [simp]: "first_error f xs = None \<longleftrightarrow> list_all (\<lambda>x. f x = None) xs"
  by (induction xs) (auto split: option.splits)

lemma userField_plain [simp]: "userField FieldPlain = None"
  by (simp add: userField_def fieldTable_def)

lemma good_accept:
  assumes "userField field = Some d" "allowsOp d op" "start < stop" "stop \<le> length rs"
    and "length vs \<le> stop - start"
  shows "good_read is_uuid now rs start (stop, accept is_uuid now d \<lparr>qt_Field = field, qt_Op = op,
    qt_Values = vs, qt_Negated = negated, qt_Position = start, qt_Raw = slice rs start stop\<rparr>)"
  using assms quotes_slice [of start stop rs]
  by (auto simp: good_read_def accept_def validate_def well_typed_def toDiagnostic_def split: option.splits)

lemma good_drop:
  "start < j \<Longrightarrow> start < stop \<Longrightarrow> start < length rs \<Longrightarrow>
    good_read is_uuid now rs start (j, drop_term (slice rs start stop) code message start)"
  by (simp add: good_read_def drop_term_def quotes_slice)

lemma user_ops: "userField f = Some d \<Longrightarrow> allowsOp d OpEq"
  by (auto simp: userField_def fieldTable_def allowsOp_def opsEq_def opsText_def opsOrder_def
      split: if_splits)

lemma field_value_good:
  assumes "start \<le> after" "after < length rs"
  shows "good_read is_uuid now rs start (field_value is_uuid now rs start negated word after)"
proof -
  let ?i = "skipSpaces rs (after + 1)"
  have i: "after < ?i" using scan_ge [of "after + 1" blank rs] by simp
  show ?thesis
  proof (cases "length rs \<le> ?i")
    case True
    with assms i show ?thesis by (simp add: field_value_def Let_def good_drop)
  next
    case False
    obtain stop vs where r: "readValue rs ?i = (stop, vs)" by fastforce
    have "\<not> blank (rs ! ?i)" using False by (intro scan_stops) simp
    note b = readValue_bounds [OF r _ this]
    show ?thesis
      using False assms i b r
      by (auto simp: field_value_def Let_def user_ops split: option.split intro!: good_drop good_accept)
  qed
qed

lemma compare_value_good:
  assumes "start < after" "matchOp rs after = Some (op, width)"
  shows "good_read is_uuid now rs start (compare_value is_uuid now rs start negated word after op width)"
proof -
  let ?a = "after + width"
  let ?j = "skipSpaces rs ?a"
  have w: "0 < width" "?a \<le> length rs" using matchOp_width [OF assms(2)] by simp_all
  have j: "?a \<le> ?j" by (rule scan_ge)
  show ?thesis
  proof (cases "?a < length rs \<and> isOperatorRune (rs ! ?a)")
    case True
    have "?a < scan (\<lambda>c. \<not> blank c) rs (?a + 1)"
      using scan_ge [of "?a + 1" "\<lambda>c. \<not> blank c" rs] by simp
    with True assms(1) show ?thesis by (simp add: compare_value_def Let_def good_drop)
  next
    case single: False
    show ?thesis
    proof (cases "length rs \<le> ?j")
      case True
      with single assms(1) w show ?thesis by (auto simp: compare_value_def Let_def intro!: good_drop)
    next
      case False
      obtain stop vs where r: "readValue rs ?j = (stop, vs)" by fastforce
      have "\<not> blank (rs ! ?j)" using False by (intro scan_stops) simp
      note b = readValue_bounds [OF r _ this]
      show ?thesis
        using False single assms(1) w j b r
        by (auto simp: compare_value_def Let_def split: option.split intro!: good_drop good_accept)
    qed
  qed
qed

lemma collect_words_good:
  assumes "collect_words rs i = (ws, j)" "i \<le> length rs"
  shows "i \<le> j \<and> j \<le> length rs \<and> length ws \<le> j - i \<and> list_all (\<lambda>w. w \<noteq> [] \<and> list_all word_rune w) ws"
  using assms
proof (induction rs i arbitrary: ws j rule: collect_words.induct)
  case (1 rs i)
  let ?i = "skipSpaces rs i"
  have i: "i \<le> ?i" "?i \<le> length rs" using "1.prems"(2) by (auto intro: scan_le scan_ge)
  show ?case
  proof (cases "length rs \<le> ?i")
    case True
    with "1.prems" i show ?thesis by (auto simp: collect_words.simps [of rs i] Let_def)
  next
    case False
    obtain w k where w: "readWord rs ?i = (w, k)" by fastforce
    have k: "?i \<le> k" "w \<noteq> [] \<longrightarrow> ?i < k" "k \<le> length rs" "list_all word_rune w"
      using readWord_progress [OF w] readWord_le [OF w i(2)] readWord_word [OF w] by simp_all
    note eq = collect_words.simps [of rs i]
    consider "w = []" | "w \<noteq> []" "k < length rs \<and> rs ! k = CHR '':'' \<or> matchOp rs k \<noteq> None"
      | "w \<noteq> []" "\<not> (k < length rs \<and> rs ! k = CHR '':'')" "matchOp rs k = None" by blast
    then show ?thesis
    proof cases
      case 1
      with "1.prems"(1) False w have "collect_words rs (?i + 1) = (ws, j)" by (simp add: eq Let_def)
      from "1.IH"(1) [OF refl False w [symmetric] refl 1 this] False i show ?thesis by auto
    next
      case 2
      with "1.prems"(1) False w have "ws = [] \<and> j = ?i" by (auto simp: eq Let_def split: if_splits)
      with i show ?thesis by simp
    next
      case 3
      obtain vs l where c: "collect_words rs k = (vs, l)" by fastforce
      with 3 "1.prems"(1) False w have "ws = w # vs \<and> j = l" by (auto simp: eq Let_def)
      moreover have "k \<le> l \<and> l \<le> length rs \<and> length vs \<le> l - k \<and>
          list_all (\<lambda>w. w \<noteq> [] \<and> list_all word_rune w) vs"
        using "1.IH"(2) [OF refl False w [symmetric] refl 3(1) 3(2) _ c] 3(3) k(3) by simp
      ultimately show ?thesis using i k 3(1) by auto
    qed
  qed
qed

lemma read_term_good:
  assumes "start < length rs"
  shows "good_read is_uuid now rs start (read_term is_uuid now rs start)"
proof -
  obtain w0 k0 where w0: "readWord rs start = (w0, k0)" by fastforce
  let ?neg = "equal_fold w0 ''not''"
  let ?i = "if ?neg then skipSpaces rs k0 else start"
  have i: "start \<le> ?i" "?i \<le> length rs"
    using readWord_progress [OF w0] readWord_le [OF w0] assms
    by (auto intro: scan_le order_trans [OF _ scan_ge])
  obtain w k where w: "readWord rs ?i = (w, k)" by fastforce
  have k: "?i \<le> k" "w \<noteq> [] \<longrightarrow> ?i < k" using readWord_progress [OF w] by simp_all
  have plain: "good_read is_uuid now rs start (plain_words rs start ?neg ?i)"
  proof -
    obtain ws j where c: "collect_words rs ?i = (ws, j)" by fastforce
    have "?i < j" if "ws \<noteq> []"
      using collect_words_good [OF c i(2)] that by (cases ws) auto
    then show ?thesis
      using collect_words_good [OF c i(2)] i c
      by (auto simp: plain_words_def good_read_def well_typed_def)
  qed
  show ?thesis
    using plain field_value_good [of start k rs] compare_value_good [of start k rs] i k w w0
    by (auto simp: read_term_def Let_def split: option.split)
qed

section \<open>The loop\<close>

lemma parse_step_moves:
  assumes "parse_step is_uuid now rs s = Inl s'"
  shows "ps_pos s < length rs \<and> ps_pos s < ps_pos s'"
proof -
  let ?i = "skipSpaces rs (ps_pos s)"
  have i: "ps_pos s \<le> ?i" by (rule scan_ge)
  from assms have lt: "?i < length rs" and s': "s' = advance (read_term is_uuid now rs ?i) s"
    by (auto simp: parse_step_def Let_def split: if_splits)
  have "?i < ps_pos s'"
    using read_term_good [OF lt, of is_uuid now] unfolding s'
    by (auto simp: good_read_def advance_def split: outcome.splits prod.splits)
  with i lt show ?thesis by simp
qed

text \<open>The rule of the loop: an invariant of the rounds holds where it returns, and it returns.\<close>

lemma parse_loop_rule:
  assumes "I s"
    and step: "\<And>s s'. I s \<Longrightarrow> parse_step is_uuid now rs s = Inl s' \<Longrightarrow> I s'"
    and stop: "\<And>s r. I s \<Longrightarrow> parse_step is_uuid now rs s = Inr r \<Longrightarrow> Q r"
  shows "\<exists>r. parse_loop is_uuid now rs s = Some r \<and> Q r"
  using assms(1)
proof (induction "length rs - ps_pos s" arbitrary: s rule: less_induct)
  case less
  show ?case
  proof (cases "parse_step is_uuid now rs s")
    case (Inl s')
    then have "length rs - ps_pos s' < length rs - ps_pos s"
      using parse_step_moves [OF Inl] by (intro diff_less_mono2) auto
    from less.hyps [OF this] step [OF less.prems Inl] Inl show ?thesis
      by (simp add: parse_loop.simps [of is_uuid now rs s])
  next
    case (Inr r)
    with stop [OF less.prems] show ?thesis by (simp add: parse_loop.simps [of is_uuid now rs s])
  qed
qed

definition values_of :: "query_term list \<Rightarrow> nat" where
  "values_of ts = (\<Sum>t\<leftarrow>ts. length (qt_Values t))"

definition good_term :: "(string \<Rightarrow> bool) \<Rightarrow> date \<Rightarrow> string \<Rightarrow> query_term \<Rightarrow> bool" where
  "good_term is_uuid now rs t \<longleftrightarrow> well_typed is_uuid now t \<and>
     (qt_Field t \<noteq> FieldPlain \<longrightarrow> quotes rs (qt_Position t) (qt_Raw t))"

definition good_result ::
  "(string \<Rightarrow> bool) \<Rightarrow> date \<Rightarrow> string \<Rightarrow> query_term list \<times> diagnostic list \<Rightarrow> bool" where
  "good_result is_uuid now rs r \<longleftrightarrow> length (fst r) \<le> MaxTerms \<and> values_of (fst r) \<le> length rs \<and>
     list_all (good_term is_uuid now rs) (fst r) \<and> sorted_wrt (<) (map qt_Position (fst r)) \<and>
     list_all (\<lambda>d. dg_Code d = CodeTooLong \<or> quotes rs (dg_Position d) (dg_Term d)) (snd r)"

definition reading :: "(string \<Rightarrow> bool) \<Rightarrow> date \<Rightarrow> string \<Rightarrow> parsing \<Rightarrow> bool" where
  "reading is_uuid now rs s \<longleftrightarrow> good_result is_uuid now rs (ps_terms s, ps_diags s) \<and>
     values_of (ps_terms s) \<le> ps_pos s \<and> list_all (\<lambda>t. qt_Position t < ps_pos s) (ps_terms s)"

lemma values_of_append [simp]: "values_of (ts @ [t]) = values_of ts + length (qt_Values t)"
  by (simp add: values_of_def)

lemma reading_step:
  assumes "reading is_uuid now rs s" "parse_step is_uuid now rs s = Inl s'"
  shows "reading is_uuid now rs s'"
proof -
  let ?i = "skipSpaces rs (ps_pos s)"
  have i: "ps_pos s \<le> ?i" by (rule scan_ge)
  from assms(2) have lt: "?i < length rs" and room: "length (ps_terms s) < MaxTerms"
    and s': "s' = advance (read_term is_uuid now rs ?i) s"
    by (auto simp: parse_step_def Let_def split: if_splits)
  note good = read_term_good [OF lt, of is_uuid now]
  show ?thesis
    using assms(1) good i room unfolding s'
    by (auto simp: reading_def good_result_def good_term_def good_read_def advance_def list_all_iff
        sorted_wrt_append split: outcome.splits prod.splits)
qed

lemma reading_stop:
  assumes "reading is_uuid now rs s" "parse_step is_uuid now rs s = Inr r"
  shows "good_result is_uuid now rs r"
  using assms
  by (auto simp: parse_step_def Let_def reading_def good_result_def too_many_def split: if_splits)

lemma ParseQuery_good:
  "\<exists>r. ParseQuery is_uuid now q = Some r \<and> good_result is_uuid now (take MaxQueryChars q) r"
proof -
  obtain ds where c: "cut_query q = (take MaxQueryChars q, ds)" and ds: "list_all (\<lambda>d. dg_Code d = CodeTooLong) ds"
    by (cases "MaxQueryChars < length q") (auto simp: cut_query_def)
  let ?s = "\<lparr>ps_pos = 0, ps_terms = [], ps_diags = ds\<rparr>"
  have "reading is_uuid now (take MaxQueryChars q) ?s"
    using ds by (auto simp: reading_def good_result_def values_of_def list_all_iff)
  from parse_loop_rule [where I = "reading is_uuid now (take MaxQueryChars q)", OF this reading_step reading_stop]
  show ?thesis by (simp add: ParseQuery_def c)
qed

lemma ParseQuery_result:
  "ParseQuery is_uuid now q = Some r \<Longrightarrow> good_result is_uuid now (take MaxQueryChars q) r"
  using ParseQuery_good [of is_uuid now q] by auto

lemma quotes_take: "quotes (take m q) i s \<Longrightarrow> quotes q i s"
  by (auto simp: quotes_def slice_def drop_take min_def split: if_splits)

section \<open>What \<open>Parse\<close> returns\<close>

text \<open>C29. Parsing returns for every query, however malformed: the loop over the terms ends.\<close>

theorem parse_returns:
  "\<exists>terms diags. ParseQuery is_uuid now q = Some (terms, diags)"
  using ParseQuery_good [of is_uuid now q] by auto

text \<open>C28. Every term that parsing keeps is well formed for its field: the field is one a user may type, the
  operator is one it allows, there is a value, and each value passes the field's check; or it is a plain
  search for words without a delimiter.
\<close>

theorem parse_well_typed:
  assumes "ParseQuery is_uuid now q = Some (terms, diags)"
  shows "list_all (well_typed is_uuid now) terms"
  using ParseQuery_result [OF assms] by (auto simp: good_result_def good_term_def list_all_iff)

text \<open>What is reported can be quoted back: the text of a diagnostic, and of a term with a field, is the
  part of the query that starts at its position.
\<close>

theorem parse_quotes_query:
  assumes "ParseQuery is_uuid now q = Some (terms, diags)"
  shows "list_all (\<lambda>t. qt_Field t \<noteq> FieldPlain \<longrightarrow> quotes q (qt_Position t) (qt_Raw t)) terms \<and>
    list_all (\<lambda>d. dg_Code d \<noteq> CodeTooLong \<longrightarrow> quotes q (dg_Position d) (dg_Term d)) diags"
  using ParseQuery_result [OF assms]
  by (auto simp: good_result_def good_term_def list_all_iff dest: quotes_take)

text \<open>A query of the four shapes: a field, a comparison, a plain search, and two terms that are dropped.\<close>

definition ex_query :: string where
  "ex_query = ''cat:abcd,efgh amt>=50.5 corner shop not tag:a foo:1 amt>>5''"

definition ex_is_uuid :: "string \<Rightarrow> bool" where
  "ex_is_uuid s = (length s = 4)"

definition ex_terms :: "query_term list" where
  "ex_terms =
    [\<lparr>qt_Field = ''cat'', qt_Op = OpEq, qt_Values = [''abcd'', ''efgh''], qt_Negated = False, qt_Position = 0,
       qt_Raw = ''cat:abcd,efgh''\<rparr>,
     \<lparr>qt_Field = ''amt'', qt_Op = OpGe, qt_Values = [''50.5''], qt_Negated = False, qt_Position = 14,
       qt_Raw = ''amt>=50.5''\<rparr>,
     \<lparr>qt_Field = ''plain'', qt_Op = OpLike, qt_Values = [''corner'', ''shop'', ''not''], qt_Negated = False,
       qt_Position = 24, qt_Raw = ''corner shop not''\<rparr>,
     \<lparr>qt_Field = ''tag'', qt_Op = OpEq, qt_Values = [''a''], qt_Negated = False, qt_Position = 40,
       qt_Raw = ''tag:a''\<rparr>]"

definition ex_diags :: "diagnostic list" where
  "ex_diags =
    [\<lparr>dg_Term = ''foo:1'', dg_Code = CodeUnknownField, dg_Message = ''unknown field foo'', dg_Position = 46\<rparr>,
     \<lparr>dg_Term = ''amt>>5'', dg_Code = CodeBadOperator, dg_Message = ''malformed operator after amt'',
       dg_Position = 52\<rparr>]"

lemma ex_parse: "ParseQuery ex_is_uuid 0 ex_query = Some (ex_terms, ex_diags)"
  by code_simp

theorem parse_well_typed_witness:
  "list_all (well_typed ex_is_uuid 0) ex_terms \<and> ex_terms \<noteq> []"
  using parse_well_typed [OF ex_parse] by (simp add: ex_terms_def)

theorem parse_quotes_query_witness:
  "quotes ex_query 14 ''amt>=50.5'' \<and> quotes ex_query 52 ''amt>>5''"
  using parse_quotes_query [OF ex_parse] by (simp add: ex_terms_def ex_diags_def FieldPlain_def)

section \<open>A negation that is lost\<close>

lemma scan_at:
  assumes "rs = xs @ us @ ys" "length xs = i" "list_all P us" "ys = [] \<or> \<not> P (hd ys)"
  shows "scan P rs i = i + length us"
proof -
  have "takeWhile P (us @ ys) = us"
    using assms(3,4) by (cases ys) (auto simp: takeWhile_append list_all_iff takeWhile_eq_all_conv)
  with assms(1,2) show ?thesis by (simp add: scan_def)
qed

lemma readWord_at:
  assumes "rs = xs @ us @ ys" "length xs = i" "list_all word_rune us" "ys = [] \<or> \<not> word_rune (hd ys)"
  shows "readWord rs i = (us, i + length us)"
  using scan_at [OF assms] assms(1,2) by (simp add: readWord_def slice_def)

lemma matchOp_blank: "k < length rs \<Longrightarrow> blank (rs ! k) \<Longrightarrow> matchOp rs k = None"
  by (auto simp: matchOp_def operators_def blank_def Cons_nth_drop_Suc [symmetric])

lemma collect_words_more:
  assumes "skipSpaces rs i = j" "j < length rs" "readWord rs j = (u, k)" "u \<noteq> []" "k < length rs" "blank (rs ! k)"
  shows "collect_words rs i = (case collect_words rs k of (ws, l) \<Rightarrow> (u # ws, l))"
  using assms matchOp_blank [OF assms(5,6)]
  by (auto simp: collect_words.simps [of rs i] Let_def blank_def)

lemma collect_words_stop:
  assumes "skipSpaces rs i = j" "j < length rs" "readWord rs j = (u, k)" "u \<noteq> []" "k < length rs" "rs ! k = CHR '':''"
  shows "collect_words rs i = ([], j)"
  using assms by (simp add: collect_words.simps [of rs i] Let_def)

lemma blank_space: "blank c \<Longrightarrow> is_space c"
  by (auto simp: blank_def is_space_def)

lemma bare_values_single:
  assumes "v \<noteq> []" "list_all (\<lambda>c. \<not> is_space c \<and> c \<noteq> CHR '','') v"
  shows "bare_values v = [v]"
proof -
  have "split_on (CHR '','') v = [v]" using assms(2) by (induction v) (auto split: list.splits)
  moreover have "trim_space v = v"
    using assms by (intro trim_space_id) (auto simp: list_all_iff)
  ultimately show ?thesis using assms(1) by (simp add: bare_values_def)
qed

lemma swallowed_words:
  assumes "rs = w @ '' not cat:'' @ v" "w \<noteq> []" "list_all word_rune w" "\<not> equal_fold w ''not''"
  shows "read_term is_uuid now rs 0 = (length w + 5, Accepted \<lparr>qt_Field = FieldPlain, qt_Op = OpLike,
    qt_Values = [w, ''not''], qt_Negated = False, qt_Position = 0, qt_Raw = w @ '' not''\<rparr>)"
proof -
  let ?n = "length w"
  note ch = word_rune_def blank_def isOperatorRune_def
  have at: "rs ! ?n = CHR '' ''" "rs ! (?n + 4) = CHR '' ''" "rs ! (?n + 8) = CHR '':''"
    by (simp_all add: assms(1) nth_append)
  have len: "?n + 9 \<le> length rs" "rs \<noteq> []" by (simp_all add: assms(1))
  have r0: "readWord rs 0 = (w, ?n)"
    using assms readWord_at [of rs "[]" w "'' not cat:'' @ v" 0] by (simp add: ch)
  have r1: "readWord rs (?n + 1) = (''not'', ?n + 4)"
    using assms readWord_at [of rs "w @ '' ''" "''not''" "'' cat:'' @ v" "?n + 1"] by (simp add: ch)
  have r2: "readWord rs (?n + 5) = (''cat'', ?n + 8)"
    using assms readWord_at [of rs "w @ '' not ''" "''cat''" "'':'' @ v" "?n + 5"] by (simp add: ch)
  have s0: "skipSpaces rs 0 = 0"
    using assms(1-3) scan_at [of rs "[]" "[]" rs 0 blank] by (cases w) (auto simp: ch)
  have s1: "skipSpaces rs ?n = ?n + 1"
    using assms scan_at [of rs w "'' ''" "''not cat:'' @ v" ?n blank] by (simp add: ch)
  have s2: "skipSpaces rs (?n + 4) = ?n + 5"
    using assms scan_at [of rs "w @ '' not''" "'' ''" "''cat:'' @ v" "?n + 4" blank] by (simp add: ch)
  have "collect_words rs (?n + 4) = ([], ?n + 5)"
    using collect_words_stop [OF s2 _ r2] at len by simp
  then have "collect_words rs ?n = ([''not''], ?n + 5)"
    using collect_words_more [OF s1 _ r1] at len by (simp add: blank_def)
  then have c: "collect_words rs 0 = ([w, ''not''], ?n + 5)"
    using collect_words_more [OF s0 _ r0] at len assms(2) by (simp add: blank_def)
  show ?thesis
    using at matchOp_blank [of ?n rs] len assms(2,4)
    by (simp add: read_term_def r0 plain_words_def c blank_def Let_def)
qed

lemma bare_category:
  assumes "rs = xs @ ''cat:'' @ v" "length xs = n" "v \<noteq> []" "is_uuid v"
    and "list_all (\<lambda>c. \<not> is_space c \<and> c \<noteq> CHR 34 \<and> c \<noteq> CHR '','') v"
  shows "read_term is_uuid now rs n = (length rs, Accepted \<lparr>qt_Field = ''cat'', qt_Op = OpEq,
    qt_Values = [v], qt_Negated = False, qt_Position = n, qt_Raw = ''cat:'' @ v\<rparr>)"
proof -
  note ch = word_rune_def blank_def isOperatorRune_def
  have v: "list_all (\<lambda>c. \<not> (blank c \<or> c = CHR 34)) v" "list_all (\<lambda>c. \<not> is_space c \<and> c \<noteq> CHR '','') v"
    using assms(5) blank_space unfolding list_all_iff by blast+
  have hd: "\<not> blank (hd v)" "hd v \<noteq> CHR 34"
    using v(1) hd_in_set [OF assms(3)] unfolding list_all_iff by blast+
  have at: "rs ! (n + 3) = CHR '':''" "rs ! (n + 4) = hd v"
    using assms(1,2,3) by (cases v; simp add: nth_append)+
  have len: "length rs = n + 4 + length v" using assms(1,2) by simp
  have r: "readWord rs n = (''cat'', n + 3)"
    using assms readWord_at [of rs xs "''cat''" "'':'' @ v" n] by (simp add: ch)
  have s: "skipSpaces rs (n + 4) = n + 4"
    using assms hd scan_at [of rs "xs @ ''cat:''" "[]" v "n + 4" blank] by simp
  have sv: "scan (\<lambda>c. \<not> (blank c \<or> c = CHR 34)) rs (n + 4) = n + 4 + length v"
    using assms(1,2) v scan_at [of rs "xs @ ''cat:''" v "[]" "n + 4"] by simp
  have "slice rs (n + 4) (n + 4 + length v) = v" using assms(1,2) by (simp add: slice_def)
  then have rv: "readValue rs (n + 4) = (n + 4 + length v, [v])"
    using at hd sv len assms(3) bare_values_single [OF assms(3) v(2)] by (simp add: readValue_def Let_def)
  have raw: "slice rs n (n + 4 + length v) = ''cat:'' @ v" using assms(1,2) by (simp add: slice_def)
  have cat: "userField ''cat'' = Some (typed_field KindUUID opsEq [] nullSentinels)"
    "to_lower ''cat'' = ''cat''" "\<not> equal_fold ''cat'' ''not''"
    by (simp_all add: userField_def fieldTable_def FieldPlain_def equal_fold_def to_lower_def to_lower_char_def)
  have "field_value is_uuid now rs n False ''cat'' (n + 3) = (length rs, Accepted \<lparr>qt_Field = ''cat'',
      qt_Op = OpEq, qt_Values = [v], qt_Negated = False, qt_Position = n, qt_Raw = ''cat:'' @ v\<rparr>)"
    unfolding field_value_def Let_def using s rv raw len cat(1,2) assms(3,4)
    by (simp add: accept_def validate_def check_value_def add.commute [of 4 n])
  then show ?thesis
    using at(1) len cat(3) by (simp add: read_term_def r Let_def)
qed

text \<open>A \<open>not\<close> in front of a term counts only when no bare word precedes it. After one the collecting loop
  takes \<open>not\<close> for another word to search for, and the term it was meant to negate is kept as it stands:
  the query asks for the very rows it was written to leave out, and nothing is reported.
\<close>

theorem negation_after_word_lost:
  assumes "w \<noteq> []" "list_all word_rune w" "\<not> equal_fold w ''not''" "length w + length v \<le> 1900"
    and "is_uuid v" "v \<noteq> []" "list_all (\<lambda>c. \<not> is_space c \<and> c \<noteq> CHR 34 \<and> c \<noteq> CHR '','') v"
  shows "ParseQuery is_uuid now (w @ '' not cat:'' @ v) =
    Some ([\<lparr>qt_Field = FieldPlain, qt_Op = OpLike, qt_Values = [w, ''not''], qt_Negated = False,
             qt_Position = 0, qt_Raw = w @ '' not''\<rparr>,
           \<lparr>qt_Field = ''cat'', qt_Op = OpEq, qt_Values = [v], qt_Negated = False,
             qt_Position = length w + 5, qt_Raw = ''cat:'' @ v\<rparr>], [])"
proof -
  define rs where "rs = w @ '' not cat:'' @ v"
  let ?n = "length w"
  have s: "skipSpaces rs 0 = 0" "skipSpaces rs (?n + 5) = ?n + 5" "skipSpaces rs (length rs) = length rs"
    using assms(1,2) scan_at [of rs "[]" "[]" rs 0 blank]
      scan_at [of rs "w @ '' not ''" "[]" "''cat:'' @ v" "?n + 5" blank] scan_at [of rs rs "[]" "[]" "length rs" blank]
    by (cases w; simp add: rs_def word_rune_def blank_def)+
  note r = swallowed_words [OF rs_def assms(1-3), of is_uuid now]
    bare_category [of rs "w @ '' not ''" v "?n + 5" is_uuid now, OF _ _ assms(6,5,7)]
  have "parse_loop is_uuid now rs \<lparr>ps_pos = 0, ps_terms = [], ps_diags = []\<rparr> =
    Some ([\<lparr>qt_Field = FieldPlain, qt_Op = OpLike, qt_Values = [w, ''not''], qt_Negated = False,
             qt_Position = 0, qt_Raw = w @ '' not''\<rparr>,
           \<lparr>qt_Field = ''cat'', qt_Op = OpEq, qt_Values = [v], qt_Negated = False,
             qt_Position = ?n + 5, qt_Raw = ''cat:'' @ v\<rparr>], [])"
    using r s by (simp add: parse_loop.simps parse_step_def advance_def MaxTerms_def rs_def)
  then show ?thesis
    using assms(4) unfolding ParseQuery_def cut_query_def MaxQueryChars_def rs_def by simp
qed

theorem negation_after_word_lost_witness:
  "ParseQuery ex_is_uuid 0 ''coffee not cat:abcd'' =
    Some ([\<lparr>qt_Field = FieldPlain, qt_Op = OpLike, qt_Values = [''coffee'', ''not''], qt_Negated = False,
             qt_Position = 0, qt_Raw = ''coffee not''\<rparr>,
           \<lparr>qt_Field = ''cat'', qt_Op = OpEq, qt_Values = [''abcd''], qt_Negated = False,
             qt_Position = 11, qt_Raw = ''cat:abcd''\<rparr>], [])"
  using negation_after_word_lost [of "''coffee''" "''abcd''" ex_is_uuid 0]
  by (simp add: word_rune_def blank_def isOperatorRune_def equal_fold_def to_lower_def to_lower_char_def
      is_space_def ex_is_uuid_def)

end
