(* ===== verification/Query_Sql.thy ===== *)
theory Query_Sql
  imports Query_Compile Query_Reads
begin

text \<open>
  The statement that \<open>Compile\<close> builds, as a structure: \<open>clauses_of\<close> gives the clauses of a term over atoms,
  \<open>clause_text\<close> and \<open>clause_args\<close> their text and bound arguments. \<open>Compile\<close> is shown to print exactly this
  structure.
\<close>

section \<open>Clauses\<close>

datatype atom =
  PlainLike string | DescLike string | NoteLike string
  | CategoryIs string | CategoryNull | AccountIs string | IdIs string | PayeeIs string | PayeeNull
  | TypeIs string | GroupIs string | CurrencyIs string
  | TagsAny "string list" | Linked | Attached
  | AmountCmp op int | DateCmp op string

datatype literal = Lit bool atom

datatype clause = AnyOf bool "literal list" | AllOf bool "atom list"

definition op_sql :: "op \<Rightarrow> string" where
  "op_sql op = (case cmpFormat op of Some s \<Rightarrow> s | None \<Rightarrow> [])"

fun atom_format :: "atom \<Rightarrow> string" where
  "atom_format (PlainLike p) = plainSearchGroup"
| "atom_format (DescLike p) = ''LOWER(t.description) LIKE LOWER($%d)''"
| "atom_format (NoteLike p) = ''LOWER(COALESCE(t.notes, '' @ two_quotes @ '')) LIKE LOWER($%d)''"
| "atom_format (CategoryIs v) = ''t.category_id = $%d''"
| "atom_format CategoryNull = ''t.category_id IS NULL''"
| "atom_format (AccountIs v) = ''t.account_id = $%d''"
| "atom_format (IdIs v) = ''t.id = $%d''"
| "atom_format (PayeeIs v) = ''t.payee_id = $%d''"
| "atom_format PayeeNull = ''t.payee_id IS NULL''"
| "atom_format (TypeIs v) = ''t.type = $%d''"
| "atom_format (GroupIs v) = groupPredicate"
| "atom_format (CurrencyIs v) = currencyPredicate"
| "atom_format (TagsAny vs) = ''t.tags && ARRAY['' @ quoteAll vs @ '']::text[]''"
| "atom_format Linked = linked_sql"
| "atom_format Attached = recurring_sql"
| "atom_format (AmountCmp op a) = ''t.amount '' @ op_sql op @ '' $%d''"
| "atom_format (DateCmp op v) = ''t.date '' @ op_sql op @ '' $%d''"

fun atom_args :: "atom \<Rightarrow> sql_arg list" where
  "atom_args (PlainLike p) = replicate 4 (ArgText p)"
| "atom_args (AmountCmp op a) = [ArgCents a]"
| "atom_args (DescLike p) = [ArgText p]"
| "atom_args (NoteLike p) = [ArgText p]"
| "atom_args (CategoryIs v) = [ArgText v]"
| "atom_args (AccountIs v) = [ArgText v]"
| "atom_args (IdIs v) = [ArgText v]"
| "atom_args (PayeeIs v) = [ArgText v]"
| "atom_args (TypeIs v) = [ArgText v]"
| "atom_args (GroupIs v) = [ArgText v]"
| "atom_args (CurrencyIs v) = [ArgText v]"
| "atom_args (DateCmp op v) = [ArgText v]"
| "atom_args _ = []"

text \<open>The text of an atom whose arguments follow \<open>n\<close> others.\<close>

definition atom_text :: "atom \<Rightarrow> nat \<Rightarrow> string" where
  "atom_text a n =
     (if atom_args a = [] then atom_format a
      else sprintf (atom_format a) [Suc n..<Suc n + length (atom_args a)])"

fun literal_atom :: "literal \<Rightarrow> atom" where
  "literal_atom (Lit pos a) = a"

fun literal_text :: "literal \<Rightarrow> nat \<Rightarrow> string" where
  "literal_text (Lit pos a) n = (if pos then [] else ''NOT '') @ atom_text a n"

fun texts :: "('a \<Rightarrow> nat \<Rightarrow> string) \<Rightarrow> ('a \<Rightarrow> nat) \<Rightarrow> 'a list \<Rightarrow> nat \<Rightarrow> string list" where
  "texts f k [] n = []"
| "texts f k (x # xs) n = f x n # texts f k xs (n + k x)"

definition args_size :: "atom \<Rightarrow> nat" where
  "args_size a = length (atom_args a)"

fun clause_atoms :: "clause \<Rightarrow> atom list" where
  "clause_atoms (AnyOf neg ls) = map literal_atom ls"
| "clause_atoms (AllOf neg as) = as"

definition clause_args :: "clause \<Rightarrow> sql_arg list" where
  "clause_args c = concat (map atom_args (clause_atoms c))"

fun clause_text :: "clause \<Rightarrow> nat \<Rightarrow> string" where
  "clause_text (AnyOf neg ls) n = (if neg then ''NOT ('' else ''('') @
     join_with '' OR '' (texts literal_text (args_size \<circ> literal_atom) ls n) @ '')''"
| "clause_text (AllOf neg as) n =
     (let s = join_with '' AND '' (texts atom_text args_size as n) in
      if neg then ''NOT ('' @ s @ '')'' else s)"

definition add_clause :: "clause \<Rightarrow> txn_filter \<Rightarrow> txn_filter" where
  "add_clause c f = f\<lparr>tf_clauses := tf_clauses f @ [clause_text c (length (tf_args f))],
     tf_args := tf_args f @ clause_args c\<rparr>"

section \<open>The clauses of a term\<close>

definition like_pattern :: "string \<Rightarrow> string" where
  "like_pattern v = ''%'' @ EscapeLikePattern v @ ''%''"

definition sentinel :: "string \<Rightarrow> bool" where
  "sentinel v \<longleftrightarrow> v = ''none'' \<or> v = ''uncategorized''"

definition says_false :: "string \<Rightarrow> bool" where
  "says_false v \<longleftrightarrow> v = ''false'' \<or> v = ''unlinked''"

definition cents_of :: "string \<Rightarrow> int" where
  "cents_of v = (case Parse v of Inr a \<Rightarrow> a | Inl _ \<Rightarrow> 0)"

definition any_of :: "query_term \<Rightarrow> (string \<Rightarrow> atom) \<Rightarrow> clause list" where
  "any_of t f = [AnyOf (negates t) (map (\<lambda>v. Lit True (f v)) (qt_Values t))]"

definition flags :: "query_term \<Rightarrow> atom \<Rightarrow> clause list" where
  "flags t a = [AnyOf (negates t) (map (\<lambda>v. Lit (negates t = says_false v) a) (qt_Values t))]"

definition clauses_of :: "query_term \<Rightarrow> clause list" where
  "clauses_of t =
     (let field = qt_Field t; vs = qt_Values t; negate = negates t in
      if field = FieldPlain then [AllOf negate (map (PlainLike \<circ> like_pattern) vs)]
      else if field = ''desc'' then map (\<lambda>v. AllOf negate [DescLike (like_pattern v)]) vs
      else if field = ''note'' then map (\<lambda>v. AllOf negate [NoteLike (like_pattern v)]) vs
      else if field = ''cat'' then any_of t (\<lambda>v. if sentinel v then CategoryNull else CategoryIs v)
      else if field = ''acct'' then any_of t AccountIs
      else if field = ''id'' then any_of t IdIs
      else if field = ''ccy'' then any_of t (CurrencyIs \<circ> to_upper)
      else if field = ''payee'' then any_of t (\<lambda>v. if sentinel v then PayeeNull else PayeeIs v)
      else if field = ''type'' then any_of t TypeIs
      else if field = ''group'' then any_of t GroupIs
      else if field = ''tag'' then [AllOf negate [TagsAny vs]]
      else if field = ''linked'' then flags t Linked
      else if field = ''recurring'' then flags t Attached
      else if field = ''amt'' then any_of t (AmountCmp (qt_Op t) \<circ> cents_of)
      else any_of t (DateCmp (qt_Op t)))"

section \<open>\<open>Compile\<close> prints them\<close>

lemma texts_map: "texts f k (map g xs) n = texts (f \<circ> g) (k \<circ> g) xs n"
  by (induction xs arbitrary: n) auto

lemma texts_const: "(\<And>x n. f x n = c) \<Longrightarrow> texts f k xs n = map (\<lambda>_. c) xs"
  by (induction xs arbitrary: n) auto

lemma join_with_Nil_iff: "(\<And>x. x \<in> set xs \<Longrightarrow> x \<noteq> []) \<Longrightarrow> join_with sep xs = [] \<longleftrightarrow> xs = []"
  by (cases xs; cases "tl xs") (auto simp: neq_Nil_conv)

text \<open>\<open>takes fmt k\<close>: the format has \<open>k\<close> verbs, so a longer format prints it with the first \<open>k\<close> operands.\<close>

lemma sprintf_char [simp]: "c \<noteq> CHR ''%'' \<Longrightarrow> sprintf (c # cs) ns = c # sprintf cs ns"
  by (cases cs) auto

lemma sprintf_verb [simp]: "sprintf (CHR ''%'' # CHR ''d'' # cs) (n # ns) = dec n @ sprintf cs ns"
  by simp

declare sprintf.simps(2,3) [simp del]

definition takes :: "string \<Rightarrow> nat \<Rightarrow> bool" where
  "takes fmt k \<longleftrightarrow>
     (\<forall>ns. length ns = k \<longrightarrow> (\<forall>rest ms. sprintf (fmt @ rest) (ns @ ms) = sprintf fmt ns @ sprintf rest ms))"

lemma takesD: "takes fmt k \<Longrightarrow> length ns = k \<Longrightarrow> sprintf (fmt @ rest) (ns @ ms) = sprintf fmt ns @ sprintf rest ms"
  by (simp add: takes_def)

lemma all_list_Suc: "(\<forall>ns. length ns = Suc k \<longrightarrow> P ns) \<longleftrightarrow> (\<forall>n ns. length ns = k \<longrightarrow> P (n # ns))"
  by (auto simp: length_Suc_conv)

lemma takes_0 [simp]: "takes [] 0"
  by (simp add: takes_def)

lemma takes_char [simp]: "c \<noteq> CHR ''%'' \<Longrightarrow> takes (c # cs) k \<longleftrightarrow> takes cs k"
  by (simp add: takes_def)

lemma takes_verb [simp]: "takes (CHR ''%'' # CHR ''d'' # cs) (Suc k) \<longleftrightarrow> takes cs k"
  by (simp add: takes_def all_list_Suc)

lemma group_break_eq: "group_break = [CHR 10, CHR 9, CHR 9, CHR 9, CHR 9] @ ''  OR ''"
  by (simp add: group_break_def numeral_eq_Suc)

lemma plain_takes: "takes plainSearchGroup (Suc (Suc (Suc (Suc 0))))"
  unfolding plainSearchGroup_def group_break_eq by simp

lemma one_takes [simp]: "takes ''LOWER(t.description) LIKE LOWER($%d)'' (Suc 0)"
  "takes (''LOWER(COALESCE(t.notes, '' @ two_quotes @ '')) LIKE LOWER($%d)'') (Suc 0)"
  by simp_all

lemma upt_Suc_append: "[Suc n..<Suc n + (a + b)] = [Suc n..<Suc n + a] @ [Suc (n + a)..<Suc (n + a) + b]"
  using upt_add_eq_append [of "Suc n" "Suc n + a" b] by (simp add: add.assoc)

text \<open>A plain search: the groups of its words, in one format.\<close>

lemma sprintf_groups:
  "sprintf (join_with '' AND '' (map (\<lambda>_. plainSearchGroup) vs) @ rest)
     ([Suc n..<Suc n + 4 * length vs] @ ms) =
   join_with '' AND '' (texts atom_text args_size (map (PlainLike \<circ> like_pattern) vs) n) @ sprintf rest ms"
proof (induction vs arbitrary: n)
  case (Cons v vs)
  note G = takesD [OF plain_takes]
  have one: "[Suc n..<Suc n + 4 * length (v # vs)] =
      [Suc n..<Suc n + 4] @ [Suc (n + 4)..<Suc (n + 4) + 4 * length vs]"
    using upt_Suc_append [of n 4 "4 * length vs"] by simp
  have len: "length [Suc n..<Suc n + 4] = Suc (Suc (Suc (Suc 0)))" by simp
  have tx: "atom_text (PlainLike p) n = sprintf plainSearchGroup [Suc n..<Suc n + 4]" for p
    by (simp add: atom_text_def)
  show ?case
  proof (cases vs)
    case Nil
    then show ?thesis using G [OF len, of rest ms] by (simp add: tx)
  next
    case (Cons w ws)
    have "join_with '' AND '' (map (\<lambda>_. plainSearchGroup) (v # vs)) @ rest =
        plainSearchGroup @ '' AND '' @ join_with '' AND '' (map (\<lambda>_. plainSearchGroup) vs) @ rest"
      by (simp add: Cons)
    then have "sprintf (join_with '' AND '' (map (\<lambda>_. plainSearchGroup) (v # vs)) @ rest)
        ([Suc n..<Suc n + 4 * length (v # vs)] @ ms) =
      sprintf plainSearchGroup [Suc n..<Suc n + 4] @ sprintf
        ('' AND '' @ join_with '' AND '' (map (\<lambda>_. plainSearchGroup) vs) @ rest)
        ([Suc (n + 4)..<Suc (n + 4) + 4 * length vs] @ ms)"
      unfolding one append_assoc using G [OF len] by simp
    also have "\<dots> = sprintf plainSearchGroup [Suc n..<Suc n + 4] @ '' AND '' @
        join_with '' AND '' (texts atom_text args_size (map (PlainLike \<circ> like_pattern) vs) (n + 4)) @ sprintf rest ms"
      using Cons.IH [of "n + 4"] by (simp add: comp_def)
    finally have "sprintf (join_with '' AND '' (map (\<lambda>_. plainSearchGroup) (v # vs)) @ rest)
        ([Suc n..<Suc n + 4 * length (v # vs)] @ ms) =
      sprintf plainSearchGroup [Suc n..<Suc n + 4] @ '' AND '' @
        join_with '' AND '' (texts atom_text args_size (map (PlainLike \<circ> like_pattern) vs) (n + 4)) @ sprintf rest ms" .
    moreover have "args_size (PlainLike p) = 4" for p by (simp add: args_size_def)
    ultimately show ?thesis by (simp add: Cons tx comp_def)
  qed
qed simp

lemma concat_like_args:
  "concat (map (\<lambda>w. replicate 4 (like_arg w)) vs) = clause_args (AllOf neg (map (PlainLike \<circ> like_pattern) vs))"
  by (induction vs) (simp_all add: clause_args_def like_arg_def like_pattern_def)

lemma emit_plain_eq:
  "emit_plain t negate f = (None, add_clause (AllOf negate (map (PlainLike \<circ> like_pattern) (qt_Values t))) f)"
proof -
  let ?vs = "qt_Values t"
  have len: "length (concat (map (\<lambda>w. replicate 4 (like_arg w)) ?vs)) = 4 * length ?vs"
    by (induction ?vs arbitrary: t rule: list.induct) (simp_all add: length_concat sum_list_triv comp_def)
  have 1: "sprintf (join_with '' AND '' (map (\<lambda>_. plainSearchGroup) ?vs)) [Suc n..<Suc n + 4 * length ?vs] =
      join_with '' AND '' (texts atom_text args_size (map (PlainLike \<circ> like_pattern) ?vs) n)" for n
    using sprintf_groups [of ?vs "[]" n "[]"] by simp
  have 2: "sprintf (join_with '' AND '' (map (\<lambda>_. plainSearchGroup) ?vs) @ '')'') [Suc n..<Suc n + 4 * length ?vs] =
      join_with '' AND '' (texts atom_text args_size (map (PlainLike \<circ> like_pattern) ?vs) n) @ '')''" for n
    using sprintf_groups [of ?vs "'')''" n "[]"] by simp
  show ?thesis
    using 1 2 len concat_like_args [of ?vs negate]
    by (simp add: emit_plain_def f_params_def add_clause_def Let_def del: upt_Suc)
qed

text \<open>The loops: one clause, or one literal, per value.\<close>

lemma contains_loop_eq:
  assumes "\<And>p. atom_format (A p) = format" "\<And>p. atom_args (A p) = [ArgText p]" "takes format (Suc 0)"
  shows "contains_loop format negate vs f = fold add_clause (map (\<lambda>v. AllOf negate [A (like_pattern v)]) vs) f"
proof (induction vs arbitrary: f)
  case (Cons v vs)
  have "sprintf (format @ '')'') [n] = sprintf format [n] @ '')''" for n
    using takesD [OF assms(3), of "[n]" "'')''" "[]"] by simp
  then have "f_params (if negate then ''NOT ('' @ format @ '')'' else format) [like_arg v] f =
      add_clause (AllOf negate [A (like_pattern v)]) f"
    by (simp add: f_params_def add_clause_def clause_args_def atom_text_def assms(1,2) like_arg_def
        like_pattern_def Let_def)
  with Cons show ?case by simp
qed simp

abbreviation positives :: "(string \<Rightarrow> atom) \<Rightarrow> string list \<Rightarrow> literal list" where
  "positives g vs \<equiv> map (\<lambda>v. Lit True (g v)) vs"

abbreviation literal_texts :: "literal list \<Rightarrow> nat \<Rightarrow> string list" where
  "literal_texts \<equiv> texts literal_text (args_size \<circ> literal_atom)"

lemma column_clauses_eq:
  assumes "\<And>v. isNull \<noteq> [] \<Longrightarrow> sentinel v \<Longrightarrow> atom_format (g v) = isNull \<and> atom_args (g v) = []"
    and "\<And>v. isNull = [] \<or> \<not> sentinel v \<Longrightarrow> atom_format (g v) = format \<and> atom_args (g v) = [ArgText v]"
  shows "column_clauses format isNull vs f =
    (literal_texts (positives g vs) (length (tf_args f)),
     f\<lparr>tf_args := tf_args f @ concat (map (atom_args \<circ> g) vs)\<rparr>)"
proof (induction vs arbitrary: f)
  case (Cons v vs)
  show ?case
  proof (cases "isNull \<noteq> [] \<and> sentinel v")
    case True
    with assms(1) [of v] Cons [of f] show ?thesis
      by (simp add: sentinel_def atom_text_def args_size_def)
  next
    case False
    with assms(2) [of v] Cons [of "snd (f_clause format (ArgText v) f)"] show ?thesis
      by (auto simp: sentinel_def atom_text_def args_size_def f_clause_def Let_def)
  qed
qed simp

lemma ordered_clauses_eq:
  assumes "\<And>v. v \<in> set vs \<Longrightarrow> convert v = Some (arg v)"
    and "\<And>v. atom_format (g v) = format \<and> atom_args (g v) = [arg v]"
  shows "ordered_clauses convert format vs f =
    (Inr (literal_texts (positives g vs) (length (tf_args f))),
     f\<lparr>tf_args := tf_args f @ concat (map (atom_args \<circ> g) vs)\<rparr>)"
  using assms(1)
proof (induction vs arbitrary: f)
  case (Cons v vs)
  then show ?case
    using assms(2) [of v] Cons.IH [of "snd (f_clause format (arg v) f)"]
    by (auto simp: atom_text_def args_size_def f_clause_def Let_def)
qed simp

lemma wrap_literals:
  assumes "ls \<noteq> []"
  shows "wrapGroup (literal_texts ls (length (tf_args f))) neg
      (f\<lparr>tf_args := tf_args f @ clause_args (AnyOf neg ls)\<rparr>) = add_clause (AnyOf neg ls) f"
proof -
  have "literal_texts ls n \<noteq> []" for n using assms by (cases ls) simp_all
  then show ?thesis by (simp add: wrapGroup_def f_raw_def f_anyOf_def add_clause_def)
qed

lemma clause_args_positives [simp]:
  "clause_args (AnyOf neg (positives g vs)) = concat (map (atom_args \<circ> g) vs)"
  by (simp add: clause_args_def comp_def)

lemma wrap_positives:
  assumes "vs \<noteq> []"
  shows "wrapGroup (literal_texts (positives g vs) (length (tf_args f))) negate
      (f\<lparr>tf_args := tf_args f @ concat (map (atom_args \<circ> g) vs)\<rparr>) =
    add_clause (AnyOf negate (positives g vs)) f"
  using wrap_literals [of "positives g vs" f negate] assms by simp

text \<open>The fields a user may type, and what a well-formed term of each gives.\<close>

lemma userField_cases:
  assumes "userField f = Some d"
  obtains (contains) "f = ''desc'' \<or> f = ''note''"
  | (column) "f = ''acct'' \<or> f = ''id'' \<or> f = ''ccy'' \<or> f = ''type'' \<or> f = ''group''"
  | (nullable) "f = ''cat'' \<or> f = ''payee''"
  | (tag) "f = ''tag''" "d = typed_field KindTagList opsEq [] []"
  | (flag) "f = ''linked'' \<or> f = ''recurring''"
  | (amt) "f = ''amt''" "d = typed_field KindAmount opsOrder [] []"
  | (date) "f = ''date''" "d = typed_field KindDate opsOrder [] []"
  using assms unfolding userField_def fieldTable_def FieldPlain_def by (auto split: if_splits)

lemma well_typed_values: "well_typed is_uuid now t \<Longrightarrow> qt_Values t \<noteq> []"
  by (simp add: well_typed_def)

lemma ordered_op: "op \<in> set opsOrder \<Longrightarrow> cmpFormat op = Some (op_sql op)"
  by (auto simp: opsOrder_def op_sql_def cmpFormat_def)

lemma add_any: "fold add_clause (any_of t g) f = add_clause (AnyOf (negates t) (positives g (qt_Values t))) f"
  by (simp add: any_of_def)

lemma clause_args_single [simp]: "clause_args (AllOf neg [a]) = atom_args a"
  by (simp add: clause_args_def)

lemma emit_column_eq:
  assumes "qt_Values t \<noteq> []"
    and "\<And>v. isNull \<noteq> [] \<Longrightarrow> sentinel v \<Longrightarrow> atom_format (g v) = isNull \<and> atom_args (g v) = []"
    and "\<And>v. isNull = [] \<or> \<not> sentinel v \<Longrightarrow> atom_format (g v) = format \<and> atom_args (g v) = [ArgText v]"
  shows "emitColumn t format isNull negate f = (None, add_clause (AnyOf negate (positives g (qt_Values t))) f)"
proof -
  note eq = column_clauses_eq [of isNull g format, OF assms(2,3)]
  show ?thesis using eq wrap_positives [OF assms(1)] by (simp add: emitColumn_def)
qed

lemma emit_currency_eq:
  assumes "qt_Values t \<noteq> []"
  shows "emitCurrency t negate f =
    (None, add_clause (AnyOf negate (positives (CurrencyIs \<circ> to_upper) (qt_Values t))) f)"
proof -
  have "column_clauses currencyPredicate [] (map to_upper (qt_Values t)) f =
    (literal_texts (positives CurrencyIs (map to_upper (qt_Values t))) (length (tf_args f)),
     f\<lparr>tf_args := tf_args f @ concat (map (atom_args \<circ> CurrencyIs) (map to_upper (qt_Values t)))\<rparr>)"
    by (rule column_clauses_eq) simp_all
  then show ?thesis
    using wrap_positives [of "map to_upper (qt_Values t)" CurrencyIs f negate] assms
    by (simp add: emitCurrency_def comp_def)
qed

lemma emit_ordered_eq:
  assumes "qt_Values t \<noteq> []" "cmpFormat (qt_Op t) = Some op"
    and "\<And>v. v \<in> set (qt_Values t) \<Longrightarrow> convert v = Some (arg v)"
    and "\<And>v. atom_format (g v) = column @ '' '' @ op @ '' $%d'' \<and> atom_args (g v) = [arg v]"
  shows "emitOrdered t column negate code convert f =
    (None, add_clause (AnyOf negate (positives g (qt_Values t))) f)"
proof -
  note eq = ordered_clauses_eq [of "qt_Values t" convert arg g, OF assms(3,4)]
  show ?thesis using eq wrap_positives [OF assms(1)] assms(2) by (simp add: emitOrdered_def)
qed

lemma emit_flag_eq:
  assumes "qt_Values t \<noteq> []" "atom_args a = []"
  shows "emitFlag t (negates t) (atom_format a) (''NOT '' @ atom_format a) f = (None, fold add_clause (flags t a) f)"
proof -
  have fr: "flag_fragment (negates t) (atom_format a) (''NOT '' @ atom_format a) v =
      literal_text (Lit (negates t = says_false v) a) n" for v n
    using assms(2) by (auto simp: flag_fragment_def says_false_def atom_text_def)
  let ?ls = "map (\<lambda>v. Lit (negates t = says_false v) a) (qt_Values t)"
  have "map (flag_fragment (negates t) (atom_format a) (''NOT '' @ atom_format a)) vs =
      literal_texts (map (\<lambda>v. Lit (negates t = says_false v) a) vs) n" for vs n
  proof (induction vs arbitrary: n)
    case (Cons v vs)
    then show ?case using fr [of v n] by (simp del: literal_text.simps)
  qed simp
  moreover have "clause_args (AnyOf neg ?ls) = []" for neg using assms(2) by (simp add: clause_args_def comp_def)
  ultimately show ?thesis
    using wrap_literals [of ?ls f "negates t"] assms(1) unfolding emitFlag_def flags_def by simp
qed

lemma emit_renders:
  assumes "well_typed is_uuid now t"
  shows "emit t f = (None, fold add_clause (clauses_of t) f)"
proof (cases "userField (qt_Field t)")
  case None
  then have "qt_Field t = FieldPlain" using assms by (simp add: well_typed_def)
  then show ?thesis by (simp add: emit_def clauses_of_def emit_plain_eq Let_def)
next
  case (Some d)
  note ne = well_typed_values [OF assms]
  have typed: "qt_Op t \<in> set (fd_ops d)"
    "\<And>v. v \<in> set (qt_Values t) \<Longrightarrow> check_value is_uuid now d (qt_Field t) v = None"
    using assms Some by (auto simp: well_typed_def allowsOp_def list_all_iff)
  note unfolds = emit_def clauses_of_def Let_def FieldPlain_def add_any
  from Some show ?thesis
  proof (cases rule: userField_cases)
    case contains
    then show ?thesis
      using contains_loop_eq [of DescLike, OF _ _ one_takes(1)] contains_loop_eq [of NoteLike, OF _ _ one_takes(2)]
      by (auto simp: unfolds emitContains_def)
  next
    case column
    then show ?thesis
      using emit_column_eq [of t "[]" AccountIs, OF ne] emit_column_eq [of t "[]" IdIs, OF ne]
        emit_column_eq [of t "[]" TypeIs, OF ne] emit_column_eq [of t "[]" GroupIs, OF ne]
        emit_currency_eq [OF ne]
      by (auto simp: unfolds emitGroup_def emitColumn_def)
  next
    case nullable
    then show ?thesis
      using emit_column_eq [of t "''t.category_id IS NULL''" "\<lambda>v. if sentinel v then CategoryNull else CategoryIs v", OF ne]
        emit_column_eq [of t "''t.payee_id IS NULL''" "\<lambda>v. if sentinel v then PayeeNull else PayeeIs v", OF ne]
      by (auto simp: unfolds)
  next
    case tag
    then have "CHR 39 \<notin> set v" if "v \<in> set (qt_Values t)" for v
      using typed(2) [OF that] by (auto simp: check_value_def split: if_splits)
    then have "\<not> list_ex (\<lambda>v. CHR 39 \<in> set v) (qt_Values t)" by (auto simp: list_ex_iff)
    with tag ne show ?thesis
      by (simp add: unfolds emitTags_def f_raw_def add_clause_def atom_text_def)
  next
    case flag
    then show ?thesis
      using emit_flag_eq [OF ne, of Linked f] emit_flag_eq [OF ne, of Attached f] by (auto simp: unfolds)
  next
    case amt
    then have "convertAmount v = Some (ArgCents (cents_of v))" if "v \<in> set (qt_Values t)" for v
      using typed(2) [OF that] by (auto simp: check_value_def convertAmount_def cents_of_def split: sum.splits)
    then show ?thesis
      using amt typed(1) emit_ordered_eq [OF ne ordered_op, of convertAmount "\<lambda>v. ArgCents (cents_of v)"
          "AmountCmp (qt_Op t) \<circ> cents_of" "''t.amount''"]
      by (auto simp: unfolds)
  next
    case date
    then show ?thesis
      using typed(1) emit_ordered_eq [OF ne ordered_op, of convertDate ArgText "DateCmp (qt_Op t)" "''t.date''"]
      by (auto simp: unfolds convertDate_def)
  qed
qed

lemma Compile_renders:
  "list_all (well_typed is_uuid now) ts \<Longrightarrow> Compile ts f = ([], fold add_clause (concat (map clauses_of ts)) f)"
  by (induction ts arbitrary: f) (simp_all add: emit_renders [of is_uuid now])

lemma compileQuery_renders:
  assumes "ParseQuery is_uuid now q = Some (terms, ds)"
  shows "compileQuery is_uuid now q f = Some (ds, fold add_clause (concat (map clauses_of terms)) f)"
proof (cases "q = []")
  case True
  have "terms = [] \<and> ds = []"
    using assms by (simp add: True ParseQuery_def cut_query_def parse_loop.simps parse_step_def scan_def)
  with True show ?thesis by (simp add: compileQuery_def)
next
  case False
  have "list_all (well_typed is_uuid now) terms"
    using ParseQuery_result [OF assms] by (auto simp: good_result_def good_term_def list_all_iff)
  with False assms show ?thesis by (simp add: compileQuery_def Compile_renders)
qed

end
