(* ===== verification/Query_Safety.thy ===== *)
theory Query_Safety
  imports Query_Sql
begin

text \<open>
  The text of a compiled query is safe: its placeholders are the bound arguments, in order; what a user
  types never leaves a string literal; and the arguments are bounded.
\<close>

section \<open>Placeholders and literals\<close>

text \<open>
  What PostgreSQL reads outside string literals, and the numbers of the placeholders there. The program's
  literals have no escapes: a quote always opens or closes one.
\<close>

fun outside :: "bool \<Rightarrow> string \<Rightarrow> string" where
  "outside inq [] = []"
| "outside inq (c # cs) =
     (if c = CHR 39 then c # outside (\<not> inq) cs
      else if inq then outside inq cs else c # outside inq cs)"

fun in_literal :: "bool \<Rightarrow> string \<Rightarrow> bool" where
  "in_literal inq [] = inq"
| "in_literal inq (c # cs) = in_literal (if c = CHR 39 then \<not> inq else inq) cs"

definition is_digit :: "char \<Rightarrow> bool" where
  "is_digit c \<longleftrightarrow> digit_val c \<noteq> None"

fun placeholders :: "string \<Rightarrow> nat list" where
  "placeholders [] = []"
| "placeholders (c # cs) =
     (if c = CHR ''$'' then (case undec (takeWhile is_digit cs) of Some n \<Rightarrow> [n] | None \<Rightarrow> []) else []) @ placeholders cs"

lemma outside_append [simp]: "outside q (xs @ ys) = outside q xs @ outside (in_literal q xs) ys"
  by (induction xs arbitrary: q) auto

lemma in_literal_append [simp]: "in_literal q (xs @ ys) = in_literal (in_literal q xs) ys"
  by (induction xs arbitrary: q) auto

lemma no_quote [simp]:
  "CHR 39 \<notin> set xs \<Longrightarrow> outside False xs = xs" "CHR 39 \<notin> set xs \<Longrightarrow> in_literal q xs = q"
  "CHR 39 \<notin> set xs \<Longrightarrow> outside True xs = []"
  by (induction xs arbitrary: q) auto

definition starts_digit :: "string \<Rightarrow> bool" where
  "starts_digit s \<longleftrightarrow> s \<noteq> [] \<and> is_digit (hd s)"

lemma takeWhile_stop: "\<not> starts_digit ys \<Longrightarrow> takeWhile is_digit (xs @ ys) = takeWhile is_digit xs"
proof (induction xs)
  case Nil
  then show ?case by (cases ys) (simp_all add: starts_digit_def)
qed simp

lemma placeholders_append:
  "\<not> starts_digit ys \<Longrightarrow> placeholders (xs @ ys) = placeholders xs @ placeholders ys"
  by (induction xs) (simp_all add: takeWhile_stop)

lemma digits_dec: "takeWhile is_digit (dec n) = dec n" "CHR ''$'' \<notin> set (dec n)" "CHR 39 \<notin> set (dec n)"
proof -
  show "takeWhile is_digit (dec n) = dec n"
    unfolding takeWhile_eq_all_conv is_digit_def by (auto dest!: set_dec)
  have "\<not> is_digit (CHR ''$'')" "\<not> is_digit (CHR 39)" by (simp_all add: is_digit_def digit_val_def)
  moreover have "is_digit c" if "c \<in> set (dec n)" for c
    using set_dec [OF that] by (auto simp: is_digit_def)
  ultimately show "CHR ''$'' \<notin> set (dec n)" "CHR 39 \<notin> set (dec n)" by blast+
qed

lemma placeholders_none: "CHR ''$'' \<notin> set xs \<Longrightarrow> placeholders xs = []"
  by (induction xs) auto

lemma placeholders_dollar [simp]:
  "\<not> starts_digit ys \<Longrightarrow> placeholders (CHR ''$'' # dec n @ ys) = n # placeholders ys"
  by (simp add: takeWhile_stop digits_dec placeholders_append placeholders_none)

text \<open>\<open>prints xs ns\<close>: the text closes its literals and its placeholders are \<open>ns\<close>.\<close>

definition prints :: "string \<Rightarrow> nat list \<Rightarrow> bool" where
  "prints xs ns \<longleftrightarrow> \<not> in_literal False xs \<and> placeholders (outside False xs) = ns"

lemma starts_digit_outside: "xs \<noteq> [] \<Longrightarrow> \<not> is_digit (hd xs) \<Longrightarrow> \<not> starts_digit (outside False xs)"
  by (cases xs) (auto simp: starts_digit_def)

lemma prints_append:
  assumes "prints xs ns" "prints ys ms" "ys = [] \<or> \<not> is_digit (hd ys)"
  shows "prints (xs @ ys) (ns @ ms)"
  using assms starts_digit_outside [of ys]
  by (cases "ys = []") (auto simp: prints_def placeholders_append)

lemma prints_plain: "CHR 39 \<notin> set xs \<Longrightarrow> CHR ''$'' \<notin> set xs \<Longrightarrow> prints xs []"
  by (simp add: prints_def placeholders_none)

text \<open>The literal of a tag term: quotes around text without quotes.\<close>

lemma join_quoted:
  assumes "list_all (\<lambda>v. CHR 39 \<notin> set v) vs"
  shows "outside False (quoteAll vs) = join_with '', '' (map (\<lambda>_. two_quotes) vs) \<and> \<not> in_literal False (quoteAll vs)"
  unfolding quoteAll_def using assms
proof (induction vs)
  case (Cons v vs)
  then show ?case by (cases vs) auto
qed simp

fun clean :: "atom \<Rightarrow> bool" where
  "clean (TagsAny vs) \<longleftrightarrow> list_all (\<lambda>v. CHR 39 \<notin> set v) vs"
| "clean _ \<longleftrightarrow> True"

lemma commas_plain: "CHR ''$'' \<notin> set (join_with '', '' (map (\<lambda>_. two_quotes) vs))"
proof (induction vs)
  case (Cons v vs)
  then show ?case by (cases vs) auto
qed simp

lemma not_digit [simp]: "c \<in> set ''$(),. []:&=<>+'' \<Longrightarrow> \<not> is_digit c" "\<not> is_digit (CHR 10)"
  by (auto simp: is_digit_def digit_val_def)

lemma op_sql_prints: "prints (op_sql op) []" "op_sql op = [] \<or> \<not> is_digit (hd (op_sql op))"
  by (cases op; simp add: op_sql_def cmpFormat_def prints_plain)+

lemma sprintf_prefix: "CHR ''%'' \<notin> set xs \<Longrightarrow> sprintf (xs @ ys) ns = xs @ sprintf ys ns"
  by (induction xs) auto

lemma starts_digit_Cons [simp]: "starts_digit (c # cs) \<longleftrightarrow> is_digit c"
  by (simp add: starts_digit_def)

lemma placeholders_other [simp]: "c \<noteq> CHR ''$'' \<Longrightarrow> placeholders (c # cs) = placeholders cs"
  by simp

lemma placeholders_end [simp]: "placeholders (CHR ''$'' # dec n) = [n]"
  using placeholders_dollar [of "[]" n] by (simp add: starts_digit_def)

declare placeholders.simps(2) [simp del]

lemma upt_one: "[Suc n..<Suc n + Suc 0] = [Suc n]" and upt_four:
  "[Suc n..<Suc n + 4] = [Suc n, Suc (Suc n), Suc (Suc (Suc n)), Suc (Suc (Suc (Suc n)))]"
  by (simp_all add: numeral_eq_Suc upt_rec)

lemma plain_prints:
  "prints (sprintf plainSearchGroup [a, b, c, d]) [a, b, c, d]"
  unfolding plainSearchGroup_def group_break_eq by (simp add: prints_def digits_dec)

lemma atom_prints:
  assumes "clean a"
  shows "prints (atom_text a n) [Suc n..<Suc n + args_size a]"
proof (cases a)
  case (PlainLike p)
  then have "atom_text a n = sprintf plainSearchGroup [Suc n..<Suc n + 4]" "args_size a = 4"
    by (simp_all add: atom_text_def args_size_def)
  then show ?thesis by (simp only: upt_four plain_prints)
next
  case (TagsAny vs)
  with assms join_quoted [of vs] commas_plain [of vs] show ?thesis
    by (simp add: atom_text_def args_size_def prints_def placeholders_none)
next
  case (AmountCmp op v)
  then show ?thesis
    by (cases op) (simp_all add: atom_text_def args_size_def prints_def digits_dec op_sql_def cmpFormat_def)
next
  case (DateCmp op v)
  then show ?thesis
    by (cases op) (simp_all add: atom_text_def args_size_def prints_def digits_dec op_sql_def cmpFormat_def)
qed (simp_all add: atom_text_def args_size_def prints_def digits_dec groupPredicate_def currencyPredicate_def
    currency_Column_def currency_default_def linked_sql_def recurring_sql_def)

section \<open>Clauses and statements\<close>

declare upt_Suc [simp del]

definition clean_clause :: "clause \<Rightarrow> bool" where
  "clean_clause c \<longleftrightarrow> list_all clean (clause_atoms c) \<and> clause_atoms c \<noteq> []"

lemma texts_prints:
  assumes "\<And>x n. x \<in> set xs \<Longrightarrow> prints (f x n) [Suc n..<Suc n + k x]"
    and "prints sep []" "sep \<noteq> []" "\<not> is_digit (hd sep)"
    and "\<And>x n. x \<in> set xs \<Longrightarrow> f x n \<noteq> [] \<and> \<not> is_digit (hd (f x n))"
  shows "prints (join_with sep (texts f k xs n)) [Suc n..<Suc n + sum_list (map k xs)]"
  using assms(1,5)
proof (induction xs arbitrary: n)
  case Nil
  then show ?case by (simp add: prints_def)
next
  case (Cons x xs)
  have one: "prints (f x n) [Suc n..<Suc n + k x]" using Cons.prems(1) by simp
  have IH: "prints (join_with sep (texts f k xs (n + k x))) [Suc (n + k x)..<Suc (n + k x) + sum_list (map k xs)]"
    using Cons by simp
  show ?case
  proof (cases xs)
    case Nil
    with one show ?thesis by simp
  next
    case (Cons y ys)
    let ?rest = "join_with sep (texts f k xs (n + k x))"
    have "?rest = f y (n + k x) @ drop (length (f y (n + k x))) ?rest"
      unfolding Cons by (cases "texts f k ys (n + k x + k y)") simp_all
    moreover have "f y (n + k x) \<noteq> [] \<and> \<not> is_digit (hd (f y (n + k x)))" using Cons.prems(2) by (simp add: Cons)
    ultimately have hd: "\<not> is_digit (hd ?rest)" by (metis hd_append2)
    have "prints (sep @ ?rest) ([] @ [Suc (n + k x)..<Suc (n + k x) + sum_list (map k xs)])"
      using assms(2) IH hd by (intro prints_append) auto
    then have "prints (f x n @ sep @ ?rest)
        ([Suc n..<Suc n + k x] @ [] @ [Suc (n + k x)..<Suc (n + k x) + sum_list (map k xs)])"
      using assms(3,4) by (intro prints_append [OF one]) (auto simp: hd_append)
    then show ?thesis
      using upt_Suc_append [of n "k x" "sum_list (map k xs)"] by (simp add: Cons)
  qed
qed

definition heads :: "string \<Rightarrow> bool" where
  "heads s \<longleftrightarrow> s \<noteq> [] \<and> \<not> is_digit (hd s)"

lemma heads_append [simp]: "heads xs \<Longrightarrow> heads (xs @ ys)"
  by (simp add: heads_def)

lemma heads_Cons [simp]: "heads (c # cs) \<longleftrightarrow> \<not> is_digit c"
  by (simp add: heads_def)

lemma letters [simp]: "\<not> is_digit (CHR ''t'')" "\<not> is_digit (CHR ''L'')" "\<not> is_digit (CHR ''E'')"
  "\<not> is_digit (CHR ''N'')" "\<not> is_digit (CHR ''A'')" "\<not> is_digit (CHR ''O'')"
  by (simp_all add: is_digit_def digit_val_def)

lemma atom_heads [simp]: "heads (atom_text a n)"
  by (cases a) (simp_all add: atom_text_def plainSearchGroup_def groupPredicate_def currencyPredicate_def
      linked_sql_def recurring_sql_def)

lemma literal_prints:
  "clean (literal_atom l) \<Longrightarrow>
    prints (literal_text l n) [Suc n..<Suc n + (args_size \<circ> literal_atom) l] \<and> heads (literal_text l n)"
proof (cases l)
  case (Lit pos a)
  assume "clean (literal_atom l)"
  then have "prints (atom_text a n) [Suc n..<Suc n + args_size a]" using atom_prints [of a n] by (simp add: Lit)
  moreover from this have "prints (''NOT '' @ atom_text a n) ([] @ [Suc n..<Suc n + args_size a])"
    using atom_heads [of a n] by (intro prints_append) (auto simp: prints_plain heads_def)
  ultimately show ?thesis by (cases pos) (simp_all add: Lit)
qed

lemma clause_args_length: "length (clause_args c) = sum_list (map args_size (clause_atoms c))"
proof -
  have "args_size = length \<circ> atom_args" by (simp add: fun_eq_iff args_size_def)
  then show ?thesis by (simp add: clause_args_def length_concat comp_def)
qed

lemma clause_prints:
  assumes "clean_clause c"
  shows "prints (clause_text c n) [Suc n..<Suc n + length (clause_args c)] \<and> heads (clause_text c n)"
proof -
  have wrap: "prints (xs @ ys @ '')'') ns \<and> heads (xs @ ys @ '')'')"
    if "prints ys ns" "xs = ''('' \<or> xs = ''NOT (''" "heads ys \<or> ys = []" for xs ys ns
  proof -
    have "prints (ys @ '')'') (ns @ [])" using that(1) by (rule prints_append) (simp_all add: prints_plain)
    then have "prints (xs @ ys @ '')'') ([] @ ns)"
      using that(2,3) by (intro prints_append) (auto simp: prints_plain heads_def hd_append)
    then show ?thesis using that(2) by auto
  qed
  have first: "heads (join_with sep (texts f k xs n)) \<or> join_with sep (texts f k xs n) = []"
    if "\<And>x n. x \<in> set xs \<Longrightarrow> heads (f x n)" for sep n xs and f :: "'b \<Rightarrow> nat \<Rightarrow> string" and k
    using that by (cases xs; cases "tl xs") auto
  show ?thesis
  proof (cases c)
    case (AnyOf neg ls)
    have l: "clean (literal_atom l)" if "l \<in> set ls" for l
      using assms that by (auto simp: clean_clause_def AnyOf list_all_iff)
    let ?j = "join_with '' OR '' (texts literal_text (args_size \<circ> literal_atom) ls n)"
    have "prints ?j [Suc n..<Suc n + sum_list (map (args_size \<circ> literal_atom) ls)]"
      using literal_prints l by (intro texts_prints) (auto simp: prints_plain heads_def)
    moreover have "heads ?j \<or> ?j = []" using literal_prints l by (intro first) blast
    ultimately show ?thesis
      using wrap [of ?j _ "''(''"] wrap [of ?j _ "''NOT (''"] by (simp add: AnyOf clause_args_length comp_def)
  next
    case (AllOf neg as)
    have a: "clean a" if "a \<in> set as" for a
      using assms that by (auto simp: clean_clause_def AllOf list_all_iff)
    let ?j = "join_with '' AND '' (texts atom_text args_size as n)"
    have p: "prints ?j [Suc n..<Suc n + sum_list (map args_size as)]"
      using atom_prints a atom_heads by (intro texts_prints) (auto simp: prints_plain heads_def)
    have h: "heads ?j"
      using assms first [of as atom_text] atom_heads
      by (cases as; cases "tl as") (auto simp: clean_clause_def AllOf heads_def)
    show ?thesis
      using p h wrap [OF p, of "''NOT (''"] by (simp add: AllOf clause_args_length Let_def)
  qed
qed

text \<open>The invariant of the filter: its placeholders are its arguments, each once and in order.\<close>

definition numbered :: "txn_filter \<Rightarrow> bool" where
  "numbered f \<longleftrightarrow> prints (f_where f) [1..<Suc (length (tf_args f))]"

lemma f_where_add:
  "f_where (add_clause c f) = f_where f @ '' AND '' @ clause_text c (length (tf_args f))"
proof -
  have "join_with sep (xs @ [y]) = (if xs = [] then y else join_with sep xs @ sep @ y)" for sep y and xs :: "string list"
    by (induction xs rule: join_with.induct [of _ sep]) auto
  then show ?thesis by (simp add: f_where_def add_clause_def)
qed

lemma numbered_add:
  assumes "numbered f" "clean_clause c"
  shows "numbered (add_clause c f)"
proof -
  let ?n = "length (tf_args f)"
  have c: "prints (clause_text c ?n) [Suc ?n..<Suc ?n + length (clause_args c)]" "heads (clause_text c ?n)"
    using clause_prints [OF assms(2)] by blast+
  have "prints ('' AND '' @ clause_text c ?n) ([] @ [Suc ?n..<Suc ?n + length (clause_args c)])"
    using c by (intro prints_append) (auto simp: prints_plain heads_def)
  then have "prints (f_where f @ '' AND '' @ clause_text c ?n)
      ([1..<Suc ?n] @ [] @ [Suc ?n..<Suc ?n + length (clause_args c)])"
    using assms(1) by (intro prints_append [OF _ \<open>prints ('' AND '' @ _) _\<close>]) (simp_all add: numbered_def)
  moreover have "[1..<Suc ?n] @ [Suc ?n..<Suc ?n + length (clause_args c)] = [1..<Suc (?n + length (clause_args c))]"
    using upt_add_eq_append [of 1 "Suc ?n" "length (clause_args c)"] by simp
  ultimately show ?thesis
    unfolding numbered_def f_where_add by (simp add: add_clause_def)
qed

lemma numbered_new: "numbered (newTxnFilter u)"
  by (simp add: numbered_def newTxnFilter_def f_where_def prints_def placeholders.simps(2) is_digit_def
      digit_val_def undec_def upt_rec)

lemma well_typed_clean:
  assumes "well_typed is_uuid now t"
  shows "list_all clean_clause (clauses_of t)"
proof (cases "userField (qt_Field t)")
  case None
  then have "qt_Field t = FieldPlain" using assms by (simp add: well_typed_def)
  then show ?thesis using well_typed_values [OF assms]
    by (simp add: clauses_of_def Let_def clean_clause_def list_all_iff)
next
  case (Some d)
  then have typed: "\<And>v. v \<in> set (qt_Values t) \<Longrightarrow> check_value is_uuid now d (qt_Field t) v = None"
    using assms by (auto simp: well_typed_def list_all_iff)
  from Some have quote: "CHR 39 \<notin> set v" if "qt_Field t = ''tag''" "v \<in> set (qt_Values t)" for v
    using typed [OF that(2)] that(1)
    by (auto simp: userField_def fieldTable_def FieldPlain_def check_value_def split: if_splits)
  then show ?thesis
    using well_typed_values [OF assms]
    by (auto simp: clauses_of_def Let_def clean_clause_def any_of_def flags_def list_all_iff)
qed

lemma numbered_fold: "list_all clean_clause cs \<Longrightarrow> numbered f \<Longrightarrow> numbered (fold add_clause cs f)"
  by (induction cs arbitrary: f) (simp_all add: numbered_add)

section \<open>What is typed stays in literals and arguments\<close>

text \<open>Two terms of one shape: the same field, operator and negation, and values of the same kind.\<close>

definition same_value :: "string \<Rightarrow> string \<Rightarrow> bool" where
  "same_value v w \<longleftrightarrow> sentinel v = sentinel w \<and> says_false v = says_false w"

definition same_shape :: "query_term \<Rightarrow> query_term \<Rightarrow> bool" where
  "same_shape t t' \<longleftrightarrow> qt_Field t = qt_Field t' \<and> qt_Op t = qt_Op t' \<and> qt_Negated t = qt_Negated t' \<and>
     list_all2 same_value (qt_Values t) (qt_Values t')"

fun erase :: "atom \<Rightarrow> atom" where
  "erase (PlainLike p) = PlainLike []"
| "erase (DescLike p) = DescLike []"
| "erase (NoteLike p) = NoteLike []"
| "erase (CategoryIs v) = CategoryIs []"
| "erase (AccountIs v) = AccountIs []"
| "erase (IdIs v) = IdIs []"
| "erase (PayeeIs v) = PayeeIs []"
| "erase (TypeIs v) = TypeIs []"
| "erase (GroupIs v) = GroupIs []"
| "erase (CurrencyIs v) = CurrencyIs []"
| "erase (TagsAny vs) = TagsAny (map (\<lambda>_. []) vs)"
| "erase (AmountCmp op a) = AmountCmp op 0"
| "erase (DateCmp op v) = DateCmp op []"
| "erase a = a"

fun erase_literal :: "literal \<Rightarrow> literal" where
  "erase_literal (Lit pos a) = Lit pos (erase a)"

fun erase_clause :: "clause \<Rightarrow> clause" where
  "erase_clause (AnyOf neg ls) = AnyOf neg (map erase_literal ls)"
| "erase_clause (AllOf neg as) = AllOf neg (map erase as)"

lemma erase_size [simp]: "args_size (erase a) = args_size a"
  by (cases a) (simp_all add: args_size_def)

lemma outside_erase: "clean a \<Longrightarrow> outside False (atom_text (erase a) n) = outside False (atom_text a n)"
proof (cases a)
  case (TagsAny vs)
  assume "clean a"
  with TagsAny join_quoted [of vs] join_quoted [of "map (\<lambda>_. []) vs"] show ?thesis
    by (simp add: atom_text_def list_all_iff comp_def)
qed (simp_all add: atom_text_def)

lemma erase_clean: "clean a \<Longrightarrow> clean (erase a)"
  by (cases a) (simp_all add: list_all_iff)

text \<open>Joining texts that close their literals joins what is outside.\<close>

lemma outside_join:
  "(\<And>x. x \<in> set xs \<Longrightarrow> \<not> in_literal False x) \<Longrightarrow> CHR 39 \<notin> set sep \<Longrightarrow>
    outside False (join_with sep xs) = join_with sep (map (outside False) xs) \<and> \<not> in_literal False (join_with sep xs)"
  by (induction xs rule: join_with.induct [of _ sep]) auto

lemma texts_cong:
  assumes "list_all2 (\<lambda>x y. k x = l y \<and> (\<forall>n. outside False (f x n) = outside False (g y n) \<and>
     \<not> in_literal False (f x n) \<and> \<not> in_literal False (g y n))) xs ys" "CHR 39 \<notin> set sep"
  shows "outside False (join_with sep (texts f k xs n)) = outside False (join_with sep (texts g l ys n)) \<and>
    \<not> in_literal False (join_with sep (texts f k xs n)) \<and> \<not> in_literal False (join_with sep (texts g l ys n))"
proof -
  have "map (outside False) (texts f k xs n) = map (outside False) (texts g l ys n) \<and>
      (\<forall>x \<in> set (texts f k xs n). \<not> in_literal False x) \<and> (\<forall>x \<in> set (texts g l ys n). \<not> in_literal False x)"
    using assms(1) by (induction xs ys arbitrary: n) auto
  then show ?thesis
    using outside_join [of "texts f k xs n" sep] outside_join [of "texts g l ys n" sep] assms(2) by auto
qed

lemma atom_closed [simp]: "clean a \<Longrightarrow> \<not> in_literal False (atom_text a n)"
  using atom_prints [of a n] by (simp add: prints_def)

lemma outside_erase_clause:
  assumes "clean_clause c"
  shows "outside False (clause_text (erase_clause c) n) = outside False (clause_text c n)"
proof (cases c)
  case (AnyOf neg ls)
  have "list_all2 (\<lambda>x y. (args_size \<circ> literal_atom) x = (args_size \<circ> literal_atom) y \<and>
      (\<forall>n. outside False (literal_text x n) = outside False (literal_text y n) \<and>
        \<not> in_literal False (literal_text x n) \<and> \<not> in_literal False (literal_text y n))) (map erase_literal ls) ls"
  proof -
    have "outside False (literal_text (erase_literal l) n) = outside False (literal_text l n) \<and>
        \<not> in_literal False (literal_text (erase_literal l) n) \<and> \<not> in_literal False (literal_text l n) \<and>
        args_size (literal_atom (erase_literal l)) = args_size (literal_atom l)" if "l \<in> set ls" for l n
      using assms that by (cases l) (auto simp: clean_clause_def AnyOf list_all_iff outside_erase erase_clean)
    then show ?thesis by (simp add: list_all2_map1 list.rel_refl_strong)
  qed
  from texts_cong [OF this, of "'' OR ''" n] show ?thesis by (simp add: AnyOf comp_def)
next
  case (AllOf neg as)
  have "list_all2 (\<lambda>x y. args_size x = args_size y \<and>
      (\<forall>n. outside False (atom_text x n) = outside False (atom_text y n) \<and>
        \<not> in_literal False (atom_text x n) \<and> \<not> in_literal False (atom_text y n))) (map erase as) as"
    using assms by (auto simp: clean_clause_def AllOf list_all_iff outside_erase erase_clean list_all2_map1
        intro!: list.rel_refl_strong)
  from texts_cong [OF this, of "'' AND ''" n] show ?thesis by (simp add: AllOf Let_def)
qed

lemma shape_clauses:
  assumes "same_shape t t'"
  shows "map erase_clause (clauses_of t) = map erase_clause (clauses_of t')"
proof -
  have vs: "list_all2 same_value (qt_Values t) (qt_Values t')" and fields: "qt_Field t' = qt_Field t"
    "qt_Op t' = qt_Op t" "negates t' = negates t"
    using assms by (auto simp: same_shape_def negates_def)
  have eq: "map g (qt_Values t) = map g (qt_Values t')" if "\<And>v w. same_value v w \<Longrightarrow> g v = g w" for g :: "string \<Rightarrow> 'b"
    using vs that by (induction rule: list_all2_induct) auto
  show ?thesis
    unfolding clauses_of_def Let_def fields any_of_def flags_def
    by (auto simp: comp_def same_value_def intro!: eq)
qed

lemma erase_args: "length (clause_args (erase_clause c)) = length (clause_args c)"
proof -
  have "map args_size (clause_atoms (erase_clause c)) = map args_size (clause_atoms c)"
  proof (cases c)
    case (AnyOf neg ls)
    have "args_size (literal_atom (erase_literal l)) = args_size (literal_atom l)" for l by (cases l) simp
    then show ?thesis by (simp add: AnyOf comp_def)
  qed (simp add: comp_def)
  then show ?thesis by (simp only: clause_args_length)
qed

lemma outside_where:
  assumes "outside False (f_where f) = outside False (f_where g)" "length (tf_args f) = length (tf_args g)"
    and "numbered f" "numbered g" "map erase_clause cs = map erase_clause cs'"
    and "list_all clean_clause cs" "list_all clean_clause cs'"
  shows "outside False (f_where (fold add_clause cs f)) = outside False (f_where (fold add_clause cs' g))"
  using assms
proof (induction cs arbitrary: cs' f g)
  case (Cons c cs)
  then obtain c' ds where cs': "cs' = c' # ds" and e: "erase_clause c = erase_clause c'"
    by (auto simp: Cons_eq_map_conv)
  note clean = Cons.prems(6,7) [unfolded cs', simplified]
  have "outside False (clause_text c n) = outside False (clause_text c' n)" for n
    using outside_erase_clause [of c n] outside_erase_clause [of c' n] clean e by simp
  then have "outside False (f_where (add_clause c f)) = outside False (f_where (add_clause c' g))"
    using Cons.prems(1-4) unfolding f_where_add by (simp add: numbered_def prints_def)
  moreover have "length (tf_args (add_clause c f)) = length (tf_args (add_clause c' g))"
    using erase_args [of c] erase_args [of c'] e Cons.prems(2) by (simp add: add_clause_def)
  ultimately show ?case
    using Cons.IH [of "add_clause c f" "add_clause c' g" ds] Cons.prems(3-5) clean numbered_add
    by (simp add: cs')
qed simp

lemma terms_clean:
  "ParseQuery is_uuid now q = Some (terms, ds) \<Longrightarrow> list_all clean_clause (concat (map clauses_of terms))"
  using ParseQuery_result [of is_uuid now q "(terms, ds)"] well_typed_clean [of is_uuid now]
  by (force simp: good_result_def good_term_def list_all_iff)

lemma args_fold: "tf_args (fold add_clause cs f) = tf_args f @ concat (map clause_args cs)"
  by (induction cs arbitrary: f) (simp_all add: add_clause_def)

text \<open>A term has at most one atom per value, and an atom binds at most four arguments.\<close>

lemma args_of_term:
  assumes "well_typed is_uuid now t"
  shows "length (concat (map clause_args (clauses_of t))) \<le> 4 * length (qt_Values t)"
proof -
  have "args_size a \<le> 4" for a by (cases a) (simp_all add: args_size_def)
  then have many: "sum_list (map args_size as) \<le> 4 * length as" for as
    by (induction as) (auto intro: add_mono)
  have "length (concat (map clause_args cs)) = sum_list (map args_size (concat (map clause_atoms cs)))" for cs
    by (induction cs) (simp_all add: clause_args_length)
  moreover have one: "length (concat (map (clause_atoms \<circ> (\<lambda>v. AllOf neg [A v])) vs)) = length vs" for neg A vs
    by (induction vs) simp_all
  have "length (concat (map clause_atoms (clauses_of t))) \<le> length (qt_Values t)"
    using well_typed_values [OF assms] one [of _ "\<lambda>v. DescLike (like_pattern v)"]
      one [of _ "\<lambda>v. NoteLike (like_pattern v)"]
    by (auto simp: clauses_of_def Let_def any_of_def flags_def Suc_le_eq)
  ultimately show ?thesis
    using many [of "concat (map clause_atoms (clauses_of t))"] by simp
qed

lemma args_of_terms:
  "list_all (well_typed is_uuid now) ts \<Longrightarrow>
    length (concat (map clause_args (concat (map clauses_of ts)))) \<le> 4 * values_of ts"
proof (induction ts)
  case (Cons t ts)
  then show ?case using args_of_term [of is_uuid now t] by (simp add: values_of_def)
qed (simp add: values_of_def)

section \<open>The compiled query\<close>

text \<open>C12. The numbering contract holds: compiling a query onto a filter whose placeholders are its arguments
  leaves such a filter, so every argument is referred to once, in order, and no placeholder dangles; and
  the arguments that were there keep their places.
\<close>

theorem placeholders_are_arguments:
  assumes "numbered f"
  shows "\<exists>diags g added. compileQuery is_uuid now q f = Some (diags, g) \<and> tf_args g = tf_args f @ added \<and>
    \<not> in_literal False (f_where g) \<and> placeholders (outside False (f_where g)) = [1..<Suc (length (tf_args g))]"
proof -
  obtain terms diags where p: "ParseQuery is_uuid now q = Some (terms, diags)"
    using ParseQuery_good [of is_uuid now q] by auto
  show ?thesis
    using numbered_fold [OF terms_clean [OF p] assms]
    by (simp add: compileQuery_renders [OF p] args_fold numbered_def prints_def)
qed

text \<open>C11. No query can change the statement beyond the shape of its terms: two queries whose terms have the same
  fields, operators and negations, over any other ids, amounts, dates, words and tags, compile to the same
  text outside string literals.
\<close>

theorem typed_text_stays_quoted:
  assumes "ParseQuery is_uuid now q = Some (terms, diags)" "ParseQuery is_uuid now q' = Some (terms', diags')"
    and "list_all2 same_shape terms terms'" "numbered f"
    and "compileQuery is_uuid now q f = Some (ds, g)" "compileQuery is_uuid now q' f = Some (ds', g')"
  shows "outside False (f_where g) = outside False (f_where g')"
proof -
  have "map erase_clause (concat (map clauses_of terms)) = map erase_clause (concat (map clauses_of terms'))"
    using assms(3) shape_clauses by (induction rule: list_all2_induct) auto
  from outside_where [OF refl refl assms(4,4) this] show ?thesis
    using assms(1,2,5,6) terms_clean [OF assms(1)] terms_clean [OF assms(2)]
    by (simp add: compileQuery_renders [OF assms(1)] compileQuery_renders [OF assms(2)])
qed

text \<open>What one request can cost is bounded: at most 32 terms, and four arguments for each of at most 2000
  values, whatever is typed.
\<close>

theorem query_bounded:
  assumes "ParseQuery is_uuid now q = Some (terms, diags)" "compileQuery is_uuid now q f = Some (ds, g)"
  shows "length terms \<le> MaxTerms \<and> sorted_wrt (<) (map qt_Position terms) \<and>
    length (tf_args g) \<le> length (tf_args f) + 4 * min MaxQueryChars (length q)"
proof -
  have r: "good_result is_uuid now (take MaxQueryChars q) (terms, diags)" by (rule ParseQuery_result [OF assms(1)])
  then have "list_all (well_typed is_uuid now) terms"
    by (auto simp: good_result_def good_term_def list_all_iff)
  note args = args_of_terms [OF this]
  have "g = fold add_clause (concat (map clauses_of terms)) f"
    using assms(2) by (simp add: compileQuery_renders [OF assms(1)])
  then have "length (tf_args g) \<le> length (tf_args f) + 4 * values_of terms" using args by (simp add: args_fold)
  moreover have "values_of terms \<le> min MaxQueryChars (length q)" using r by (simp add: good_result_def)
  ultimately have "length (tf_args g) \<le> length (tf_args f) + 4 * min MaxQueryChars (length q)" by linarith
  with r show ?thesis by (simp add: good_result_def)
qed

text \<open>C22. The compiler implements the clauses of the terms: it drops nothing that parsing kept, adds no
  diagnostic, and appends to the filter exactly the clauses of each term, in order.
\<close>

theorem compile_implements_clauses:
  assumes "ParseQuery is_uuid now q = Some (terms, diags)"
  shows "compileQuery is_uuid now q f = Some (diags, fold add_clause (concat (map clauses_of terms)) f)"
  by (rule compileQuery_renders [OF assms])

text \<open>The example query on a new filter, and two tag searches of one shape, one of them an attempt at injection.\<close>

definition tag_query :: "string \<Rightarrow> string" where
  "tag_query v = ''tag:'' @ [CHR 34] @ v @ [CHR 34]"

definition tag_term :: "string \<Rightarrow> query_term" where
  "tag_term v = \<lparr>qt_Field = ''tag'', qt_Op = OpEq, qt_Values = [v], qt_Negated = False, qt_Position = 0,
     qt_Raw = tag_query v\<rparr>"

lemma ex_tags:
  "ParseQuery ex_is_uuid 0 (tag_query ''food'') = Some ([tag_term ''food''], [])"
  "ParseQuery ex_is_uuid 0 (tag_query '']) OR (1=1'') = Some ([tag_term '']) OR (1=1''], [])"
  by code_simp+

lemma ex_compiled:
  "compileQuery ex_is_uuid 0 ex_query (newTxnFilter 2) =
    Some (ex_diags, fold add_clause (concat (map clauses_of ex_terms)) (newTxnFilter 2))"
  by (rule compileQuery_renders [OF ex_parse])

theorem placeholders_are_arguments_witness:
  "\<exists>diags g added. compileQuery ex_is_uuid 0 ex_query (newTxnFilter 2) = Some (diags, g) \<and>
    tf_args g = ArgUser 2 # added \<and> placeholders (outside False (f_where g)) = [1..<Suc (length (tf_args g))]"
  using placeholders_are_arguments [OF numbered_new [of 2], of ex_is_uuid 0 ex_query]
  by (auto simp: newTxnFilter_def)

theorem typed_text_stays_quoted_witness:
  "outside False (f_where (fold add_clause (clauses_of (tag_term ''food'')) (newTxnFilter 2))) =
   outside False (f_where (fold add_clause (clauses_of (tag_term '']) OR (1=1'')) (newTxnFilter 2)))"
proof -
  note c = compileQuery_renders [OF ex_tags(1), of "newTxnFilter 2"] compileQuery_renders [OF ex_tags(2), of "newTxnFilter 2"]
  have "list_all2 same_shape [tag_term ''food''] [tag_term '']) OR (1=1'']"
    by (simp add: same_shape_def tag_term_def same_value_def sentinel_def says_false_def)
  from typed_text_stays_quoted [OF ex_tags this numbered_new c] show ?thesis by simp
qed

theorem query_bounded_witness:
  "length (tf_args (fold add_clause (concat (map clauses_of ex_terms)) (newTxnFilter 2))) \<le>
    1 + 4 * min MaxQueryChars (length ex_query) \<and> length ex_terms \<le> MaxTerms"
  using query_bounded [OF ex_parse ex_compiled] by (simp add: newTxnFilter_def)

theorem compile_implements_clauses_witness:
  "compileQuery ex_is_uuid 0 ex_query (newTxnFilter 2) =
    Some (ex_diags, fold add_clause (concat (map clauses_of ex_terms)) (newTxnFilter 2)) \<and> length ex_terms = 4"
  using compile_implements_clauses [OF ex_parse, of "newTxnFilter 2"] by (simp add: ex_terms_def)

declare upt_Suc [simp]

end
