(* ===== verification/Query_Meaning.thy ===== *)
theory Query_Meaning
  imports Query_Safety
begin

text \<open>
  Which transactions a compiled query keeps. The clauses are evaluated on a transaction in SQL's three truth
  values, with \<open>LIKE\<close> as PostgreSQL documents it, and compared with what the language says a term asks for:
  a value matches, any of several values, and \<open>not\<close> or \<open>!=\<close> the opposite. Where the two differ, theorems
  say how. Identifiers are read by \<open>uuid_of\<close>, an argument, for the server's \<open>uuid.Parse\<close> and the database's
  own reading alike.
\<close>

section \<open>\<open>LIKE\<close>\<close>

fun like :: "string \<Rightarrow> string \<Rightarrow> bool" where
  "like s [] \<longleftrightarrow> s = []"
| "like s (p # ps) \<longleftrightarrow>
     (if p = CHR ''%'' then like s ps \<or> (case s of [] \<Rightarrow> False | c # cs \<Rightarrow> like cs (p # ps))
      else case s of [] \<Rightarrow> False
        | c # cs \<Rightarrow> if p = CHR 92 then (case ps of [] \<Rightarrow> False | q # qs \<Rightarrow> c = q \<and> like cs qs)
                    else (p = CHR ''_'' \<or> c = p) \<and> like cs ps)"

declare like.simps(2) [simp del]

lemma like_percent: "like s (CHR ''%'' # p) \<longleftrightarrow> (\<exists>t. suffix t s \<and> like t p)"
proof (induction s)
  case Nil
  then show ?case by (simp add: like.simps)
next
  case (Cons c s)
  have "like (c # s) (CHR ''%'' # p) \<longleftrightarrow> like (c # s) p \<or> like s (CHR ''%'' # p)"
    by (subst like.simps) simp
  with Cons show ?case by (auto simp: suffix_Cons)
qed

lemma like_escape_char: "like s (escape_char c @ p) \<longleftrightarrow> (\<exists>t. s = c # t \<and> like t p)"
  by (cases s) (auto simp: escape_char_def like.simps(2) split: if_splits)

lemma like_escaped_prefix: "like s (EscapeLikePattern v @ ''%'') \<longleftrightarrow> prefix v s"
proof (induction v arbitrary: s)
  case Nil
  have "suffix [] s" by simp
  then show ?case by (auto simp: EscapeLikePattern_def like_percent)
next
  case (Cons c v)
  have "EscapeLikePattern (c # v) @ ''%'' = escape_char c @ EscapeLikePattern v @ ''%''"
    by (simp add: EscapeLikePattern_def)
  then show ?case using Cons by (cases s) (auto simp: like_escape_char)
qed

text \<open>Escaping is exact: whatever characters a search text has, wildcards and backslashes among them, the
  pattern bound for it matches a text if and only if the text contains it.
\<close>

theorem escaped_pattern_is_substring:
  "like s (''%'' @ EscapeLikePattern v @ ''%'') \<longleftrightarrow> contains s v"
  by (auto simp: like_percent like_escaped_prefix contains_def sublist_altdef' )

text \<open>Lower-casing a pattern lower-cases the text in it.\<close>

lemma lower_escape: "to_lower (escape_char c) = escape_char (to_lower_char c)"
proof -
  have "to_lower_char (CHR 92) = CHR 92" "to_lower_char (CHR ''%'') = CHR ''%''" "to_lower_char (CHR ''_'') = CHR ''_''"
    by (simp_all add: to_lower_char_def)
  moreover have "to_lower_char c \<noteq> x" if "c \<noteq> x" "x = CHR 92 \<or> x = CHR ''%'' \<or> x = CHR ''_''" for x
  proof (cases "(65 :: nat) \<le> of_char c \<and> of_char c \<le> (90 :: nat)")
    case True
    then have "(of_char (to_lower_char c) :: nat) = of_char c + 32"
      by (simp add: to_lower_char_def of_char_of)
    with True that(2) show ?thesis by auto
  qed (use that in \<open>auto simp: to_lower_char_def Let_def\<close>)
  ultimately show ?thesis by (auto simp: escape_char_def to_lower_def)
qed

lemma lower_pattern: "to_lower (like_pattern v) = like_pattern (to_lower v)"
proof -
  have "to_lower (EscapeLikePattern v) = EscapeLikePattern (to_lower v)"
    by (induction v) (simp_all add: EscapeLikePattern_def to_lower_def lower_escape [unfolded to_lower_def])
  then show ?thesis by (simp add: like_pattern_def to_lower_def to_lower_char_def)
qed

lemma like_lower: "like (to_lower s) (to_lower (like_pattern v)) \<longleftrightarrow> contains (to_lower s) (to_lower v)"
  unfolding lower_pattern unfolding like_pattern_def
  by (auto simp: like_percent like_escaped_prefix contains_def sublist_altdef')

section \<open>Clauses in three truth values\<close>

text \<open>A transaction with what the clauses read of its account, category, payee, links and attachments.\<close>

record txn_view =
  tv_id :: uuid
  tv_account :: uuid
  tv_category :: "uuid option"
  tv_group :: "string option"
  tv_payee :: "uuid option"
  tv_payeeName :: "string option"
  tv_description :: string
  tv_notes :: "string option"
  tv_tags :: "string list"
  tv_type :: string
  tv_amount :: int
  tv_date :: date
  tv_currency :: "string option"
  tv_linked :: bool
  tv_attached :: bool

definition not3 :: "bool option \<Rightarrow> bool option" where
  "not3 = map_option Not"

definition or3 :: "bool option list \<Rightarrow> bool option" where
  "or3 xs = (if Some True \<in> set xs then Some True else if None \<in> set xs then None else Some False)"

definition and3 :: "bool option list \<Rightarrow> bool option" where
  "and3 xs = (if Some False \<in> set xs then Some False else if None \<in> set xs then None else Some True)"

text \<open>\<open>column = value\<close> on a column that may be null, and \<open>COALESCE(NULLIF(currency, ''), 'INR')\<close>.\<close>

definition equals3 :: "'a option \<Rightarrow> 'a option \<Rightarrow> bool option" where
  "equals3 c v = (if c = None then None else Some (c = v))"

definition currency_of :: "txn_view \<Rightarrow> string" where
  "currency_of r = (case tv_currency r of None \<Rightarrow> currency_default
     | Some c \<Rightarrow> if c = [] then currency_default else c)"

fun compare :: "op \<Rightarrow> int \<Rightarrow> int \<Rightarrow> bool" where
  "compare OpEq a b \<longleftrightarrow> a = b"
| "compare OpNe a b \<longleftrightarrow> a \<noteq> b"
| "compare OpGt a b \<longleftrightarrow> b < a"
| "compare OpGe a b \<longleftrightarrow> b \<le> a"
| "compare OpLt a b \<longleftrightarrow> a < b"
| "compare OpLe a b \<longleftrightarrow> a \<le> b"
| "compare OpLike a b \<longleftrightarrow> False"

text \<open>The four texts that a plain search reads.\<close>

definition searched :: "txn_view \<Rightarrow> string list" where
  "searched r = [tv_description r, case tv_notes r of None \<Rightarrow> [] | Some n \<Rightarrow> n] @
     (case tv_payeeName r of None \<Rightarrow> [] | Some n \<Rightarrow> [n]) @ tv_tags r"

definition notes_of :: "txn_view \<Rightarrow> string" where
  "notes_of r = (case tv_notes r of None \<Rightarrow> [] | Some n \<Rightarrow> n)"

fun holds :: "(string \<Rightarrow> uuid option) \<Rightarrow> txn_view \<Rightarrow> atom \<Rightarrow> bool option" where
  "holds uuid_of r (PlainLike p) = Some (list_ex (\<lambda>s. like (to_lower s) (to_lower p)) (searched r))"
| "holds uuid_of r (DescLike p) = Some (like (to_lower (tv_description r)) (to_lower p))"
| "holds uuid_of r (NoteLike p) = Some (like (to_lower (notes_of r)) (to_lower p))"
| "holds uuid_of r (CategoryIs v) = equals3 (tv_category r) (uuid_of v)"
| "holds uuid_of r CategoryNull = Some (tv_category r = None)"
| "holds uuid_of r (AccountIs v) = Some (Some (tv_account r) = uuid_of v)"
| "holds uuid_of r (IdIs v) = Some (Some (tv_id r) = uuid_of v)"
| "holds uuid_of r (PayeeIs v) = equals3 (tv_payee r) (uuid_of v)"
| "holds uuid_of r PayeeNull = Some (tv_payee r = None)"
| "holds uuid_of r (TypeIs v) = Some (tv_type r = v)"
| "holds uuid_of r (GroupIs v) = Some (tv_group r = Some v)"
| "holds uuid_of r (CurrencyIs v) = Some (currency_of r = v)"
| "holds uuid_of r (TagsAny vs) = Some (list_ex (\<lambda>v. v \<in> set vs) (tv_tags r))"
| "holds uuid_of r Linked = Some (tv_linked r)"
| "holds uuid_of r Attached = Some (tv_attached r)"
| "holds uuid_of r (AmountCmp op a) = Some (compare op (tv_amount r) a)"
| "holds uuid_of r (DateCmp op v) = map_option (compare op (tv_date r)) (parse_ymd v)"

fun literal_holds :: "(string \<Rightarrow> uuid option) \<Rightarrow> txn_view \<Rightarrow> literal \<Rightarrow> bool option" where
  "literal_holds uuid_of r (Lit pos a) = (if pos then holds uuid_of r a else not3 (holds uuid_of r a))"

fun clause_holds :: "(string \<Rightarrow> uuid option) \<Rightarrow> txn_view \<Rightarrow> clause \<Rightarrow> bool option" where
  "clause_holds uuid_of r (AnyOf neg ls) =
     (let b = or3 (map (literal_holds uuid_of r) ls) in if neg then not3 b else b)"
| "clause_holds uuid_of r (AllOf neg as) =
     (let b = and3 (map (holds uuid_of r) as) in if neg then not3 b else b)"

text \<open>A row is returned when the conjunction of the clauses is true, neither false nor unknown.\<close>

definition keeps :: "(string \<Rightarrow> uuid option) \<Rightarrow> clause list \<Rightarrow> txn_view \<Rightarrow> bool" where
  "keeps uuid_of cs r \<longleftrightarrow> and3 (map (clause_holds uuid_of r) cs) = Some True"

section \<open>What a term asks for\<close>

definition value_matches :: "(string \<Rightarrow> uuid option) \<Rightarrow> query_term \<Rightarrow> txn_view \<Rightarrow> string \<Rightarrow> bool" where
  "value_matches uuid_of t r v \<longleftrightarrow>
     (let field = qt_Field t; op = (if qt_Op t = OpNe then OpEq else qt_Op t) in
      if field = FieldPlain then list_ex (\<lambda>s. contains (to_lower s) (to_lower v)) (searched r)
      else if field = ''desc'' then contains (to_lower (tv_description r)) (to_lower v)
      else if field = ''note'' then contains (to_lower (notes_of r)) (to_lower v)
      else if field = ''cat'' then (if sentinel v then tv_category r = None
        else tv_category r \<noteq> None \<and> tv_category r = uuid_of v)
      else if field = ''acct'' then Some (tv_account r) = uuid_of v
      else if field = ''id'' then Some (tv_id r) = uuid_of v
      else if field = ''ccy'' then currency_of r = to_upper v
      else if field = ''payee'' then (if sentinel v then tv_payee r = None
        else tv_payee r \<noteq> None \<and> tv_payee r = uuid_of v)
      else if field = ''type'' then tv_type r = v
      else if field = ''group'' then tv_group r = Some v
      else if field = ''tag'' then v \<in> set (tv_tags r)
      else if field = ''linked'' then tv_linked r \<noteq> says_false v
      else if field = ''recurring'' then tv_attached r \<noteq> says_false v
      else if field = ''amt'' then compare op (tv_amount r) (cents_of v)
      else (case parse_ymd v of None \<Rightarrow> False | Some d \<Rightarrow> compare op (tv_date r) d))"

text \<open>Any of the values, but all the words of a plain search; \<open>not\<close> and \<open>!=\<close> ask for the opposite.\<close>

definition asks :: "(string \<Rightarrow> uuid option) \<Rightarrow> query_term \<Rightarrow> txn_view \<Rightarrow> bool" where
  "asks uuid_of t r \<longleftrightarrow>
     (if qt_Field t = FieldPlain then list_all (value_matches uuid_of t r) (qt_Values t)
      else list_ex (value_matches uuid_of t r) (qt_Values t)) \<noteq> negates t"

section \<open>Where the clauses mean what the term asks\<close>

lemma or3_known: "(\<And>v. v \<in> set vs \<Longrightarrow> h v = Some (m v)) \<Longrightarrow> or3 (map h vs) = Some (list_ex m vs)"
  by (force simp: or3_def list_ex_iff image_iff)

lemma and3_known: "(\<And>v. v \<in> set vs \<Longrightarrow> h v = Some (m v)) \<Longrightarrow> and3 (map h vs) = Some (list_all m vs)"
  by (force simp: and3_def list_all_iff image_iff)

lemma and3_True: "and3 xs = Some True \<longleftrightarrow> (\<forall>x \<in> set xs. x = Some True)"
proof -
  have "x = Some True \<or> x = Some False \<or> x = None" for x :: "bool option" by (cases x) auto
  then have "(\<forall>x \<in> set xs. x = Some True) \<longleftrightarrow> Some False \<notin> set xs \<and> None \<notin> set xs" by fastforce
  then show ?thesis by (simp add: and3_def)
qed

lemma keeps_iff: "keeps uuid_of cs r \<longleftrightarrow> (\<forall>c \<in> set cs. clause_holds uuid_of r c = Some True)"
  by (auto simp: keeps_def and3_True)

lemma keeps_append: "keeps uuid_of (xs @ ys) r \<longleftrightarrow> keeps uuid_of xs r \<and> keeps uuid_of ys r"
  by (auto simp: keeps_iff)

lemma keeps_terms:
  "keeps uuid_of (concat (map clauses_of ts)) r \<longleftrightarrow> list_all (\<lambda>t. keeps uuid_of (clauses_of t) r) ts"
  by (auto simp: keeps_iff list_all_iff)

lemma not3_Some [simp]: "not3 (Some b) = Some (\<not> b)" "not3 None = None"
  by (simp_all add: not3_def)

lemma keeps_any_of:
  assumes "\<And>v. v \<in> set (qt_Values t) \<Longrightarrow> holds uuid_of r (g v) = Some (m v)"
  shows "keeps uuid_of (any_of t g) r \<longleftrightarrow> list_ex m (qt_Values t) \<noteq> negates t"
proof -
  have "or3 (map (literal_holds uuid_of r \<circ> (\<lambda>v. Lit True (g v))) (qt_Values t)) = Some (list_ex m (qt_Values t))"
    by (rule or3_known) (simp add: assms)
  then show ?thesis by (simp add: keeps_iff any_of_def Let_def)
qed

text \<open>A nullable column: with the null case among the values, or set, the answer is known.\<close>

lemma keeps_nullable:
  assumes "\<And>v. holds uuid_of r (g v) = (if sentinel v then Some (c = None) else equals3 c (uuid_of v))"
    and "negates t \<Longrightarrow> c \<noteq> None \<or> list_ex sentinel (qt_Values t)"
  shows "keeps uuid_of (any_of t g) r \<longleftrightarrow>
    list_ex (\<lambda>v. if sentinel v then c = None else c \<noteq> None \<and> c = uuid_of v) (qt_Values t) \<noteq> negates t"
proof (cases "c = None")
  case False
  then obtain y where "c = Some y" by auto
  then show ?thesis by (intro keeps_any_of) (simp add: assms(1) equals3_def)
next
  case True
  let ?l = "map (literal_holds uuid_of r \<circ> (\<lambda>v. Lit True (g v))) (qt_Values t)"
  have v: "literal_holds uuid_of r (Lit True (g v)) = (if sentinel v then Some True else None)" for v
    using assms(1) [of v] True by (simp add: equals3_def)
  then have "Some True \<in> set ?l \<longleftrightarrow> list_ex sentinel (qt_Values t)"
    by (auto simp: list_ex_iff image_iff split: if_splits)
  moreover have "qt_Values t = [] \<or> list_ex sentinel (qt_Values t) \<or> None \<in> set ?l"
    using v by (cases "qt_Values t") (auto simp: image_iff)
  ultimately show ?thesis
    using assms(2) True
    by (auto simp: keeps_iff any_of_def or3_def Let_def list_ex_iff)
qed

lemma keeps_flags:
  assumes "holds uuid_of r a = Some b" "\<not> negates t"
  shows "keeps uuid_of (flags t a) r \<longleftrightarrow> list_ex (\<lambda>v. b \<noteq> says_false v) (qt_Values t)"
proof -
  have "or3 (map (literal_holds uuid_of r \<circ> (\<lambda>v. Lit (\<not> says_false v) a)) (qt_Values t)) =
      Some (list_ex (\<lambda>v. b \<noteq> says_false v) (qt_Values t))"
    by (rule or3_known) (auto simp: assms(1))
  with assms(2) show ?thesis by (simp add: keeps_iff flags_def Let_def)
qed

lemma keeps_each:
  assumes "\<And>v. holds uuid_of r (A (like_pattern v)) = Some (m v)"
  shows "keeps uuid_of (map (\<lambda>v. AllOf neg [A (like_pattern v)]) vs) r \<longleftrightarrow> list_all (\<lambda>v. m v \<noteq> neg) vs"
  using assms by (auto simp: keeps_iff list_all_iff and3_def Let_def)

lemma keeps_one: "holds uuid_of r a = Some b \<Longrightarrow> keeps uuid_of [AllOf neg [a]] r \<longleftrightarrow> b \<noteq> neg"
  by (cases b; cases neg) (simp_all add: keeps_iff and3_def Let_def)

lemma keeps_plain:
  "keeps uuid_of [AllOf neg (map (PlainLike \<circ> like_pattern) vs)] r \<longleftrightarrow>
    list_all (\<lambda>v. list_ex (\<lambda>s. contains (to_lower s) (to_lower v)) (searched r)) vs \<noteq> neg"
proof -
  have "and3 (map (holds uuid_of r \<circ> (PlainLike \<circ> like_pattern)) vs) =
      Some (list_all (\<lambda>v. list_ex (\<lambda>s. contains (to_lower s) (to_lower v)) (searched r)) vs)"
    by (rule and3_known) (simp add: like_lower)
  then show ?thesis by (simp add: keeps_iff Let_def)
qed

text \<open>
  The terms whose clauses mean what the term asks: a comparison that is not \<open>!=\<close>, a flag that is not
  negated, a text field with one value unless negated, and a negated category or payee on a transaction that
  has one, or with the null case among the values.
\<close>

definition plainly_meant :: "query_term \<Rightarrow> txn_view \<Rightarrow> bool" where
  "plainly_meant t r \<longleftrightarrow>
     (qt_Field t \<in> {''amt'', ''date''} \<longrightarrow> qt_Op t \<noteq> OpNe) \<and>
     (qt_Field t \<in> {''linked'', ''recurring''} \<longrightarrow> \<not> negates t) \<and>
     (qt_Field t \<in> {''desc'', ''note''} \<longrightarrow> negates t \<or> length (qt_Values t) = 1) \<and>
     (qt_Field t = ''cat'' \<and> negates t \<longrightarrow> tv_category r \<noteq> None \<or> list_ex sentinel (qt_Values t)) \<and>
     (qt_Field t = ''payee'' \<and> negates t \<longrightarrow> tv_payee r \<noteq> None \<or> list_ex sentinel (qt_Values t))"

lemma value_matches_fields:
  "qt_Field t = FieldPlain \<Longrightarrow> value_matches uuid_of t r =
     (\<lambda>v. list_ex (\<lambda>s. contains (to_lower s) (to_lower v)) (searched r))"
  "qt_Field t = ''desc'' \<Longrightarrow> value_matches uuid_of t r = (\<lambda>v. contains (to_lower (tv_description r)) (to_lower v))"
  "qt_Field t = ''note'' \<Longrightarrow> value_matches uuid_of t r = (\<lambda>v. contains (to_lower (notes_of r)) (to_lower v))"
  "qt_Field t = ''cat'' \<Longrightarrow> value_matches uuid_of t r = (\<lambda>v. if sentinel v then tv_category r = None
        else tv_category r \<noteq> None \<and> tv_category r = uuid_of v)"
  "qt_Field t = ''payee'' \<Longrightarrow> value_matches uuid_of t r = (\<lambda>v. if sentinel v then tv_payee r = None
        else tv_payee r \<noteq> None \<and> tv_payee r = uuid_of v)"
  "qt_Field t = ''tag'' \<Longrightarrow> value_matches uuid_of t r = (\<lambda>v. v \<in> set (tv_tags r))"
  "qt_Field t = ''linked'' \<Longrightarrow> value_matches uuid_of t r = (\<lambda>v. tv_linked r \<noteq> says_false v)"
  "qt_Field t = ''recurring'' \<Longrightarrow> value_matches uuid_of t r = (\<lambda>v. tv_attached r \<noteq> says_false v)"
  "qt_Field t = ''amt'' \<Longrightarrow> value_matches uuid_of t r =
     (\<lambda>v. compare (if qt_Op t = OpNe then OpEq else qt_Op t) (tv_amount r) (cents_of v))"
  "qt_Field t = ''date'' \<Longrightarrow> value_matches uuid_of t r = (\<lambda>v. case parse_ymd v of None \<Rightarrow> False
     | Some d \<Rightarrow> compare (if qt_Op t = OpNe then OpEq else qt_Op t) (tv_date r) d)"
  by (simp_all add: value_matches_def Let_def FieldPlain_def fun_eq_iff)

lemma clauses_of_fields:
  "qt_Field t = FieldPlain \<Longrightarrow> clauses_of t = [AllOf (negates t) (map (PlainLike \<circ> like_pattern) (qt_Values t))]"
  "qt_Field t = ''desc'' \<Longrightarrow> clauses_of t = map (\<lambda>v. AllOf (negates t) [DescLike (like_pattern v)]) (qt_Values t)"
  "qt_Field t = ''note'' \<Longrightarrow> clauses_of t = map (\<lambda>v. AllOf (negates t) [NoteLike (like_pattern v)]) (qt_Values t)"
  "qt_Field t = ''cat'' \<Longrightarrow> clauses_of t = any_of t (\<lambda>v. if sentinel v then CategoryNull else CategoryIs v)"
  "qt_Field t = ''payee'' \<Longrightarrow> clauses_of t = any_of t (\<lambda>v. if sentinel v then PayeeNull else PayeeIs v)"
  "qt_Field t = ''tag'' \<Longrightarrow> clauses_of t = [AllOf (negates t) [TagsAny (qt_Values t)]]"
  "qt_Field t = ''linked'' \<Longrightarrow> clauses_of t = flags t Linked"
  "qt_Field t = ''recurring'' \<Longrightarrow> clauses_of t = flags t Attached"
  "qt_Field t = ''amt'' \<Longrightarrow> clauses_of t = any_of t (AmountCmp (qt_Op t) \<circ> cents_of)"
  "qt_Field t = ''date'' \<Longrightarrow> clauses_of t = any_of t (DateCmp (qt_Op t))"
  by (simp_all add: clauses_of_def Let_def FieldPlain_def)

lemma value_matches_columns:
  "qt_Field t = ''acct'' \<Longrightarrow> value_matches uuid_of t r = (\<lambda>v. Some (tv_account r) = uuid_of v)"
  "qt_Field t = ''id'' \<Longrightarrow> value_matches uuid_of t r = (\<lambda>v. Some (tv_id r) = uuid_of v)"
  "qt_Field t = ''ccy'' \<Longrightarrow> value_matches uuid_of t r = (\<lambda>v. currency_of r = to_upper v)"
  "qt_Field t = ''type'' \<Longrightarrow> value_matches uuid_of t r = (\<lambda>v. tv_type r = v)"
  "qt_Field t = ''group'' \<Longrightarrow> value_matches uuid_of t r = (\<lambda>v. tv_group r = Some v)"
  by (simp_all add: value_matches_def Let_def FieldPlain_def fun_eq_iff)

lemma clauses_of_columns:
  "qt_Field t = ''acct'' \<Longrightarrow> clauses_of t = any_of t AccountIs"
  "qt_Field t = ''id'' \<Longrightarrow> clauses_of t = any_of t IdIs"
  "qt_Field t = ''ccy'' \<Longrightarrow> clauses_of t = any_of t (CurrencyIs \<circ> to_upper)"
  "qt_Field t = ''type'' \<Longrightarrow> clauses_of t = any_of t TypeIs"
  "qt_Field t = ''group'' \<Longrightarrow> clauses_of t = any_of t GroupIs"
  by (simp_all add: clauses_of_def Let_def FieldPlain_def)

lemma typed_date:
  assumes "well_typed is_uuid now t" "qt_Field t = ''date''" "v \<in> set (qt_Values t)"
  shows "\<exists>d. parse_ymd v = Some d"
proof -
  have "check_value is_uuid now (typed_field KindDate opsOrder [] []) ''date'' v = None"
    using assms by (auto simp: well_typed_def userField_def fieldTable_def FieldPlain_def list_all_iff)
  then show ?thesis by (auto simp: check_value_def CheckTransactionDate_def split: sum.splits option.splits)
qed

lemma keeps_term:
  assumes "well_typed is_uuid now t" "plainly_meant t r"
  shows "keeps uuid_of (clauses_of t) r \<longleftrightarrow> asks uuid_of t r"
proof (cases "userField (qt_Field t)")
  case None
  then have "qt_Field t = FieldPlain" using assms(1) by (simp add: well_typed_def)
  then show ?thesis by (simp add: asks_def clauses_of_fields value_matches_fields keeps_plain)
next
  case (Some d)
  note one = assms(2) [unfolded plainly_meant_def]
  have ne: "qt_Field t \<noteq> FieldPlain" using Some by auto
  from Some show ?thesis
  proof (cases rule: userField_cases)
    case contains
    let ?m = "value_matches uuid_of t r"
    have d: "keeps uuid_of (map (\<lambda>v. AllOf neg [DescLike (like_pattern v)]) vs) r \<longleftrightarrow>
        list_all (\<lambda>v. contains (to_lower (tv_description r)) (to_lower v) \<noteq> neg) vs" for neg vs
      by (rule keeps_each) (simp add: like_lower)
    have n: "keeps uuid_of (map (\<lambda>v. AllOf neg [NoteLike (like_pattern v)]) vs) r \<longleftrightarrow>
        list_all (\<lambda>v. contains (to_lower (notes_of r)) (to_lower v) \<noteq> neg) vs" for neg vs
      by (rule keeps_each) (simp add: like_lower)
    have "keeps uuid_of (clauses_of t) r \<longleftrightarrow> list_all (\<lambda>v. ?m v \<noteq> negates t) (qt_Values t)"
      using contains by (elim disjE) (simp_all only: clauses_of_fields value_matches_fields d n)
    also have "\<dots> \<longleftrightarrow> list_ex ?m (qt_Values t) \<noteq> negates t"
    proof (cases "negates t")
      case True
      then show ?thesis by (auto simp: list_all_iff list_ex_iff)
    next
      case False
      with one contains have "length (qt_Values t) = 1" by auto
      then show ?thesis by (auto simp: length_Suc_conv)
    qed
    finally show ?thesis using ne by (simp add: asks_def)
  next
    case column
    have any: "keeps uuid_of (any_of t g) r \<longleftrightarrow> asks uuid_of t r"
      if "\<And>v. holds uuid_of r (g v) = Some (value_matches uuid_of t r v)" for g
      using keeps_any_of [of t uuid_of r g "value_matches uuid_of t r"] that ne by (simp add: asks_def)
    show ?thesis
      using column
      by (elim disjE; simp only: clauses_of_columns) (rule any, simp add: value_matches_columns)+
  next
    case nullable
    then show ?thesis
    proof
      assume f: "qt_Field t = ''cat''"
      with one have "negates t \<Longrightarrow> tv_category r \<noteq> None \<or> list_ex sentinel (qt_Values t)" by blast
      from keeps_nullable [OF _ this, of uuid_of r "\<lambda>v. if sentinel v then CategoryNull else CategoryIs v"]
      show ?thesis using ne f by (simp add: asks_def clauses_of_fields value_matches_fields)
    next
      assume f: "qt_Field t = ''payee''"
      with one have "negates t \<Longrightarrow> tv_payee r \<noteq> None \<or> list_ex sentinel (qt_Values t)" by blast
      from keeps_nullable [OF _ this, of uuid_of r "\<lambda>v. if sentinel v then PayeeNull else PayeeIs v"]
      show ?thesis using ne f by (simp add: asks_def clauses_of_fields value_matches_fields)
    qed
  next
    case tag
    have "list_ex (\<lambda>v. v \<in> set (qt_Values t)) (tv_tags r) \<longleftrightarrow> list_ex (\<lambda>v. v \<in> set (tv_tags r)) (qt_Values t)"
      by (auto simp: list_ex_iff)
    with tag(1) ne show ?thesis
      by (simp add: asks_def clauses_of_fields value_matches_fields keeps_one)
  next
    case flag
    then have neg: "\<not> negates t" using one by auto
    have "keeps uuid_of (flags t Linked) r \<longleftrightarrow> list_ex (\<lambda>v. tv_linked r \<noteq> says_false v) (qt_Values t)"
      "keeps uuid_of (flags t Attached) r \<longleftrightarrow> list_ex (\<lambda>v. tv_attached r \<noteq> says_false v) (qt_Values t)"
      by (rule keeps_flags [OF _ neg], simp)+
    with flag neg ne show ?thesis
      by (elim disjE) (simp_all only: asks_def clauses_of_fields value_matches_fields if_False simp_thms)
  next
    case amt
    then show ?thesis
      using one ne keeps_any_of [of t uuid_of r "AmountCmp (qt_Op t) \<circ> cents_of"]
      by (simp add: asks_def clauses_of_fields value_matches_fields)
  next
    case date
    have "holds uuid_of r (DateCmp (qt_Op t) v) = Some (case parse_ymd v of None \<Rightarrow> False
        | Some d \<Rightarrow> compare (qt_Op t) (tv_date r) d)" if "v \<in> set (qt_Values t)" for v
      using typed_date [OF assms(1) date(1) that] by auto
    from keeps_any_of [of t uuid_of r "DateCmp (qt_Op t)", OF this] show ?thesis
      using one ne date by (simp add: asks_def clauses_of_fields value_matches_fields)
  qed
qed

lemma terms_well_typed:
  "ParseQuery is_uuid now q = Some (terms, diags) \<Longrightarrow> list_all (well_typed is_uuid now) terms"
  using ParseQuery_result [of is_uuid now q "(terms, diags)"]
  by (auto simp: good_result_def good_term_def list_all_iff)

text \<open>C7. A compiled query means what it says: the clauses appended for a query keep exactly the transactions
  that every term kept by the parser asks for, wherever the terms are plainly meant.
\<close>

theorem compiled_query_meaning:
  assumes "ParseQuery (\<lambda>v. uuid_of v \<noteq> None) now q = Some (terms, diags)"
    and "list_all (\<lambda>t. plainly_meant t r) terms"
  shows "\<exists>cs. compileQuery (\<lambda>v. uuid_of v \<noteq> None) now q f = Some (diags, fold add_clause cs f) \<and>
    (keeps uuid_of cs r \<longleftrightarrow> list_all (\<lambda>t. asks uuid_of t r) terms)"
proof -
  have "keeps uuid_of (clauses_of t) r \<longleftrightarrow> asks uuid_of t r" if "t \<in> set terms" for t
    using terms_well_typed [OF assms(1)] assms(2) that keeps_term by (auto simp: list_all_iff)
  then have "keeps uuid_of (concat (map clauses_of terms)) r \<longleftrightarrow> list_all (\<lambda>t. asks uuid_of t r) terms"
    by (auto simp: keeps_terms list_all_iff)
  then show ?thesis using compileQuery_renders [OF assms(1)] by blast
qed

section \<open>Where they do not\<close>

text \<open>A negation that is applied twice is none. \<open>!=\<close> on an amount or a date is compiled to \<open>NOT (column <> value)\<close>,
  and a negated flag to \<open>NOT\<close> of the opposite fragment: the query keeps exactly the transactions it was
  written to leave out.
\<close>

theorem negation_applied_twice:
  assumes "well_typed is_uuid now t" "qt_Values t = [v]"
    and "qt_Field t \<in> {''amt'', ''date''} \<and> qt_Op t = OpNe \<or> qt_Field t \<in> {''linked'', ''recurring''} \<and> negates t"
  shows "keeps uuid_of (clauses_of t) r \<longleftrightarrow> \<not> asks uuid_of t r"
proof -
  have neg: "negates t" using assms(3) by (auto simp: negates_def)
  have flag: "keeps uuid_of (flags t a) r \<longleftrightarrow> b \<noteq> says_false v" if "holds uuid_of r a = Some b" for a b
    using that neg assms(2) by (auto simp: keeps_iff flags_def or3_def Let_def)
  consider "qt_Field t = ''amt''" "qt_Op t = OpNe" | "qt_Field t = ''date''" "qt_Op t = OpNe"
    | "qt_Field t = ''linked''" | "qt_Field t = ''recurring''"
    using assms(3) by blast
  then show ?thesis
  proof cases
    case 1
    then show ?thesis
      using keeps_any_of [of t uuid_of r "AmountCmp OpNe \<circ> cents_of"] neg assms(2)
      by (simp add: clauses_of_fields asks_def value_matches_fields FieldPlain_def)
  next
    case 2
    then obtain d where d: "parse_ymd v = Some d" using typed_date [OF assms(1), of v] assms(2) by auto
    then have "keeps uuid_of (any_of t (DateCmp OpNe)) r \<longleftrightarrow> tv_date r = d"
      using keeps_any_of [of t uuid_of r "DateCmp OpNe" "\<lambda>v. tv_date r \<noteq> d"] neg assms(2) by simp
    with 2 d neg assms(2) show ?thesis
      by (simp add: clauses_of_fields asks_def value_matches_fields FieldPlain_def)
  next
    case 3
    then show ?thesis
      using flag [of Linked] neg assms(2) by (simp add: clauses_of_fields asks_def value_matches_fields FieldPlain_def)
  next
    case 4
    then show ?thesis
      using flag [of Attached] neg assms(2) by (simp add: clauses_of_fields asks_def value_matches_fields FieldPlain_def)
  qed
qed

text \<open>A negated category or payee leaves out the transactions that have none: \<open>NOT (NULL = value)\<close> is
  unknown, so a transaction without a category is in neither \<open>cat:x\<close> nor \<open>not cat:x\<close>.
\<close>

theorem negation_drops_unset:
  assumes "qt_Field t = ''cat'' \<and> tv_category r = None \<or> qt_Field t = ''payee'' \<and> tv_payee r = None"
    and "negates t" "qt_Values t \<noteq> []" "list_all (\<lambda>v. \<not> sentinel v) (qt_Values t)"
  shows "asks uuid_of t r \<and> \<not> keeps uuid_of (clauses_of t) r"
proof -
  have none: "\<not> keeps uuid_of (any_of t g) r" if "\<And>v. v \<in> set (qt_Values t) \<Longrightarrow> holds uuid_of r (g v) = None" for g
  proof -
    have "set (map (literal_holds uuid_of r \<circ> (\<lambda>v. Lit True (g v))) (qt_Values t)) = {None}"
      using that assms(3) by (cases "qt_Values t") auto
    then have "or3 (map (literal_holds uuid_of r \<circ> (\<lambda>v. Lit True (g v))) (qt_Values t)) = None"
      unfolding or3_def by simp
    with assms(2) show ?thesis by (simp add: keeps_iff any_of_def Let_def)
  qed
  have no: "\<not> sentinel v" if "v \<in> set (qt_Values t)" for v using assms(4) that by (auto simp: list_all_iff)
  from assms(1) show ?thesis
  proof (elim disjE conjE)
    assume f: "qt_Field t = ''cat''" "tv_category r = None"
    then have "\<not> keeps uuid_of (clauses_of t) r"
      unfolding clauses_of_fields(4) [OF f(1)] by (intro none) (simp add: no equals3_def)
    with f no assms(2) show ?thesis by (auto simp: asks_def value_matches_fields FieldPlain_def list_ex_iff)
  next
    assume f: "qt_Field t = ''payee''" "tv_payee r = None"
    then have "\<not> keeps uuid_of (clauses_of t) r"
      unfolding clauses_of_fields(5) [OF f(1)] by (intro none) (simp add: no equals3_def)
    with f no assms(2) show ?thesis by (auto simp: asks_def value_matches_fields FieldPlain_def list_ex_iff)
  qed
qed

text \<open>Several values of a text field are all required, where a list of values elsewhere asks for any of them.\<close>

lemma text_values_all_required:
  assumes "qt_Field t = ''desc'' \<or> qt_Field t = ''note''" "\<not> negates t"
  shows "keeps uuid_of (clauses_of t) r \<longleftrightarrow> list_all (value_matches uuid_of t r) (qt_Values t)"
proof -
  have "keeps uuid_of (map (\<lambda>v. AllOf False [A (like_pattern v)]) vs) r \<longleftrightarrow> list_all m vs"
    if "\<And>v. holds uuid_of r (A (like_pattern v)) = Some (m v)" for A m vs
    using keeps_each [of uuid_of r A m False vs] that by simp
  then show ?thesis
    using assms by (elim disjE) (simp_all add: clauses_of_fields value_matches_fields like_lower)
qed

section \<open>An example\<close>

definition ex_uuid_of :: "string \<Rightarrow> uuid option" where
  "ex_uuid_of v = (if v = ''abcd'' then Some 7 else None)"

text \<open>A debit of 50.00 for the rent, without a category; and the same in category 7.\<close>

definition ex_rent :: "uuid option \<Rightarrow> txn_view" where
  "ex_rent c = \<lparr>tv_id = 3, tv_account = 4, tv_category = c, tv_group = None, tv_payee = None, tv_payeeName = None,
     tv_description = ''Rent for May'', tv_notes = None, tv_tags = [''home''], tv_type = ''debit'', tv_amount = 5000,
     tv_date = 0, tv_currency = None, tv_linked = False, tv_attached = False\<rparr>"

definition ex_rent_query :: string where
  "ex_rent_query = ''cat:abcd amt>=50 not tag:car rent''"

definition ex_rent_terms :: "query_term list" where
  "ex_rent_terms =
    [\<lparr>qt_Field = ''cat'', qt_Op = OpEq, qt_Values = [''abcd''], qt_Negated = False, qt_Position = 0,
       qt_Raw = ''cat:abcd''\<rparr>,
     \<lparr>qt_Field = ''amt'', qt_Op = OpGe, qt_Values = [''50''], qt_Negated = False, qt_Position = 9,
       qt_Raw = ''amt>=50''\<rparr>,
     \<lparr>qt_Field = ''tag'', qt_Op = OpEq, qt_Values = [''car''], qt_Negated = True, qt_Position = 17,
       qt_Raw = ''not tag:car''\<rparr>,
     \<lparr>qt_Field = ''plain'', qt_Op = OpLike, qt_Values = [''rent''], qt_Negated = False, qt_Position = 29,
       qt_Raw = ''rent''\<rparr>]"

lemma ex_rent_parse: "ParseQuery (\<lambda>v. ex_uuid_of v \<noteq> None) 0 ex_rent_query = Some (ex_rent_terms, [])"
  by code_simp

definition ex_negated :: "string \<Rightarrow> op \<Rightarrow> string \<Rightarrow> bool \<Rightarrow> query_term" where
  "ex_negated field op v n = \<lparr>qt_Field = field, qt_Op = op, qt_Values = [v], qt_Negated = n, qt_Position = 0, qt_Raw = []\<rparr>"

lemma ex_negated_typed: "well_typed ex_is_uuid 0 (ex_negated ''amt'' OpNe ''50'' False)"
  by code_simp

theorem compiled_query_meaning_witness:
  "\<exists>cs. compileQuery (\<lambda>v. ex_uuid_of v \<noteq> None) 0 ex_rent_query (newTxnFilter 2) =
      Some ([], fold add_clause cs (newTxnFilter 2)) \<and> keeps ex_uuid_of cs (ex_rent (Some 7))"
proof -
  have "list_all (\<lambda>t. plainly_meant t (ex_rent (Some 7))) ex_rent_terms"
    "list_all (\<lambda>t. asks ex_uuid_of t (ex_rent (Some 7))) ex_rent_terms"
    by code_simp+
  with compiled_query_meaning [OF ex_rent_parse] show ?thesis by blast
qed

theorem negation_applied_twice_witness:
  "asks ex_uuid_of (ex_negated ''amt'' OpNe ''50'' False) (ex_rent None) = False \<and>
   keeps ex_uuid_of (clauses_of (ex_negated ''amt'' OpNe ''50'' False)) (ex_rent None)"
proof -
  have "\<not> asks ex_uuid_of (ex_negated ''amt'' OpNe ''50'' False) (ex_rent None)" by code_simp
  then show ?thesis
    using negation_applied_twice [OF ex_negated_typed, of "''50''" ex_uuid_of "ex_rent None"]
    by (simp add: ex_negated_def)
qed

theorem negation_drops_unset_witness:
  "asks ex_uuid_of (ex_negated ''cat'' OpEq ''abcd'' True) (ex_rent None) \<and>
   \<not> keeps ex_uuid_of (clauses_of (ex_negated ''cat'' OpEq ''abcd'' True)) (ex_rent None)"
  by (rule negation_drops_unset) (simp_all add: ex_negated_def ex_rent_def negates_def sentinel_def)

end
