(* ===== verification/Rule_Meaning.thy ===== *)
theory Rule_Meaning
  imports Rule_Match
begin

text \<open>
  What a rule does to the ledger. The clauses of \<open>appendRulePredicate\<close> are evaluated on a row in SQL's
  three truth values and shown to hold exactly where \<open>ruleMatches\<close> does; \<open>ApplyRules\<close>, one \<open>UPDATE\<close> per rule
  in one transaction, is shown to give each uncategorized row the actions of the first rule that matches
  it. \<open>collate\<close> is the database's ordering of text, which \<open>array_agg(DISTINCT x ORDER BY x)\<close> sorts by.
\<close>

section \<open>The clauses on a row\<close>

definition linked_txn :: "db \<Rightarrow> txn_row \<Rightarrow> bool" where
  "linked_txn d t \<longleftrightarrow> list_ex (\<lambda>l. pr_From l = tx_ID t \<or> pr_To l = tx_ID t) (txn_links d)"

definition attached_txn :: "db \<Rightarrow> txn_row \<Rightarrow> bool" where
  "attached_txn d t \<longleftrightarrow> list_ex (\<lambda>l. lk_TransactionID l = tx_ID t) (recurring_attachments d)"

fun atom_holds :: "db \<Rightarrow> txn_row \<Rightarrow> rule_atom \<Rightarrow> bool option" where
  "atom_holds d t (MatchLike p) = Some (like (to_lower (tx_Description t)) (to_lower p))"
| "atom_holds d t (MatchEquals p) = Some (to_lower (tx_Description t) = to_lower p)"
| "atom_holds d t (OnAccount a) = Some (tx_AccountID t = a)"
| "atom_holds d t (InCategory i) = equals3 (tx_CategoryID t) (Some i)"
| "atom_holds d t (ToPayee p) = equals3 (tx_PayeeID t) (Some p)"
| "atom_holds d t (AtLeast m) = Some (m \<le> tx_Amount t)"
| "atom_holds d t (AtMost m) = Some (tx_Amount t \<le> m)"
| "atom_holds d t (OfType s) = Some (tx_Type t = s)"
| "atom_holds d t (Since s) = map_option (\<lambda>x. x \<le> tx_Date t) (parse_ymd s)"
| "atom_holds d t (Until s) = map_option (\<lambda>x. tx_Date t \<le> x) (parse_ymd s)"
| "atom_holds d t (IsLinked b) = Some (linked_txn d t = b)"
| "atom_holds d t (IsRecurring b) = Some (attached_txn d t = b)"

definition sql_matches :: "db \<Rightarrow> rule_entry \<Rightarrow> txn_row \<Rightarrow> bool" where
  "sql_matches d r t = (case rule_atoms r of None \<Rightarrow> False
     | Some as \<Rightarrow> and3 (map (atom_holds d t) as) = Some True)"

text \<open>The row as \<open>ruleMatches\<close> sees it.\<close>

definition context_of :: "db \<Rightarrow> txn_row \<Rightarrow> rule_context" where
  "context_of d t = \<lparr>rx_Description = tx_Description t, rx_AccountID = tx_AccountID t, rx_Amount = tx_Amount t,
     rx_Type = tx_Type t, rx_Date = format_ymd (tx_Date t), rx_CategoryID = tx_CategoryID t,
     rx_PayeeID = tx_PayeeID t, rx_IsLinked = linked_txn d t, rx_IsRecurring = attached_txn d t\<rparr>"

definition well_dated :: "rule_entry \<Rightarrow> bool" where
  "well_dated r \<longleftrightarrow> (\<forall>s \<in> set_option (re_DateFrom r) \<union> set_option (re_DateTo r). parse_ymd s \<noteq> None)"

lemma lower_append [simp]: "to_lower (xs @ ys) = to_lower xs @ to_lower ys"
  by (simp add: to_lower_def)

lemma lower_escaped: "to_lower (EscapeLikePattern v) = EscapeLikePattern (to_lower v)"
  by (induction v) (simp_all add: EscapeLikePattern_def to_lower_def lower_escape [unfolded to_lower_def])

lemma lower_percent [simp]: "to_lower ''%'' = ''%''"
  by (simp add: to_lower_def to_lower_char_def)

lemma match_atom_meaning:
  "(case match_atom mt p of None \<Rightarrow> False | Some a \<Rightarrow> atom_holds d t a = Some True) \<longleftrightarrow> matchRule (tx_Description t) p mt"
proof -
  have "like (to_lower s) (to_lower (EscapeLikePattern v @ ''%'')) \<longleftrightarrow> prefix (to_lower v) (to_lower s)" for s v
    by (simp add: lower_escaped like_escaped_prefix)
  moreover have "like (to_lower s) (to_lower (''%'' @ EscapeLikePattern v @ ''%'')) \<longleftrightarrow> contains (to_lower s) (to_lower v)" for s v
    using like_lower [of s v] by (simp only: like_pattern_def)
  ultimately show ?thesis by (simp add: match_atom_def matchRule_def Let_def)
qed

lemma since_meaning:
  assumes "parse_ymd s \<noteq> None" "four_digit_year t"
  shows "map_option (\<lambda>x. x \<le> t) (parse_ymd s) = Some True \<longleftrightarrow> \<not> str_less (format_ymd t) s"
    "map_option (\<lambda>x. t \<le> x) (parse_ymd s) = Some True \<longleftrightarrow> \<not> str_less s (format_ymd t)"
proof -
  obtain x where x: "parse_ymd s = Some x" using assms(1) by auto
  from four_digit_parse [OF x] have "four_digit_year x" "s = format_ymd x" by auto
  with x assms(2) show "map_option (\<lambda>x. x \<le> t) (parse_ymd s) = Some True \<longleftrightarrow> \<not> str_less (format_ymd t) s"
    "map_option (\<lambda>x. t \<le> x) (parse_ymd s) = Some True \<longleftrightarrow> \<not> str_less s (format_ymd t)"
    by (auto simp: format_ymd_less)
qed

lemma opt_atom_holds:
  "(\<forall>a \<in> set (opt_atom g v). atom_holds d t a = Some True) \<longleftrightarrow> (case v of None \<Rightarrow> True | Some x \<Rightarrow> atom_holds d t (g x) = Some True)"
  by (simp add: opt_atom_def split: option.split)

lemma conditions_meaning:
  assumes "well_dated r" "four_digit_year (tx_Date t)" "matchRule (tx_Description t) (re_Pattern r) (re_MatchType r)"
  shows "(\<forall>a \<in> set (condition_atoms r). atom_holds d t a = Some True) \<longleftrightarrow> ruleMatches r (context_of d t)"
proof -
  have dates: "parse_ymd s \<noteq> None" if "re_DateFrom r = Some s \<or> re_DateTo r = Some s" for s
    using assms(1) that by (auto simp: well_dated_def)
  have f: "(case re_DateFrom r of None \<Rightarrow> True | Some s \<Rightarrow> map_option (\<lambda>x. x \<le> tx_Date t) (parse_ymd s) = Some True) \<longleftrightarrow>
      (case re_DateFrom r of None \<Rightarrow> True | Some s \<Rightarrow> \<not> str_less (format_ymd (tx_Date t)) s)"
    using since_meaning(1) [OF dates assms(2)] by (cases "re_DateFrom r") auto
  have u: "(case re_DateTo r of None \<Rightarrow> True | Some s \<Rightarrow> map_option (\<lambda>x. tx_Date t \<le> x) (parse_ymd s) = Some True) \<longleftrightarrow>
      (case re_DateTo r of None \<Rightarrow> True | Some s \<Rightarrow> \<not> str_less s (format_ymd (tx_Date t)))"
    using since_meaning(2) [OF dates assms(2)] by (cases "re_DateTo r") auto
  have e: "equals3 c (Some i) = Some True \<longleftrightarrow> c = Some i" for c and i :: uuid
    by (simp add: equals3_def)
  show ?thesis
    unfolding condition_atoms_def set_append ball_Un opt_atom_holds atom_holds.simps f u e ruleMatches_def context_of_def
      rule_context.simps
    using assms(3) by (simp add: not_less cong: option.case_cong)
qed

lemma sql_matches_iff:
  "well_dated r \<Longrightarrow> four_digit_year (tx_Date t) \<Longrightarrow> sql_matches d r t \<longleftrightarrow> ruleMatches r (context_of d t)"
  using match_atom_meaning [where mt = "re_MatchType r" and p = "re_Pattern r" and d = d and t = t] conditions_meaning [of r t d]
  by (cases "match_atom (re_MatchType r) (re_Pattern r)")
    (auto simp: sql_matches_def rule_atoms_def and3_True ruleMatches_def context_of_def)

text \<open>C4. A rule matches the same transactions in SQL and in Go: the predicate appended to a statement
  consists of exactly the rule's clauses, and they are true of a row if and only if \<open>ruleMatches\<close> holds of
  it, wildcards, backslashes, unset categories and date bounds included. A rule of an unknown match type
  matches nothing either way.\<close>

theorem rule_matching_agrees:
  assumes "well_dated r" "four_digit_year (tx_Date t)"
  shows "appendRulePredicate r f = map_option (\<lambda>as. fold add_rule_atom as f) (rule_atoms r) \<and>
    (sql_matches d r t \<longleftrightarrow> ruleMatches r (context_of d t))"
  using sql_matches_iff [OF assms] appendRulePredicate_atoms by blast

end
