(* ===== verification/Rule_Apply.thy ===== *)
theory Rule_Apply
  imports Rule_Meaning Loan_Store
begin

text \<open>
  \<open>ApplyRules\<close> and \<open>PreviewRule\<close> of \<open>backend/handlers/rule.go\<close>: the rules are loaded in descending
  priority, and each sends one \<open>UPDATE\<close> over the uncategorized rows of open accounts, all in one database
  transaction. The first matching rule wins, as it does where a transaction is entered.
\<close>

section \<open>The statements\<close>

definition entry_of :: "rule_row \<Rightarrow> rule_entry" where
  "entry_of r = \<lparr>re_Pattern = rl_Pattern r, re_MatchType = rl_MatchType r, re_CatID = rl_CategoryID r,
     re_PayeeID = rl_PayeeID r, re_AccountID = rl_AccountID r, re_FilterCategoryID = rl_FilterCategoryID r,
     re_FilterPayeeID = rl_FilterPayeeID r, re_MinAmount = rl_MinAmount r, re_MaxAmount = rl_MaxAmount r,
     re_TxnType = (case rl_TxnType r of None \<Rightarrow> [] | Some s \<Rightarrow> s),
     re_DateFrom = map_option format_ymd (rl_DateFrom r), re_DateTo = map_option format_ymd (rl_DateTo r),
     re_IsLinked = rl_IsLinked r, re_IsRecurring = rl_IsRecurring r, re_AddTags = rl_AddTags r,
     re_Notes = rl_Notes r\<rparr>"

definition loadRules :: "uuid \<Rightarrow> db \<Rightarrow> rule_entry list" where
  "loadRules u d = map entry_of
     (sort_key (\<lambda>r. (- rl_Priority r, rl_ID r)) (filter (\<lambda>r. rl_UserID r = u) (rules d)))"

definition on_closed :: "db \<Rightarrow> txn_row \<Rightarrow> bool" where
  "on_closed d t \<longleftrightarrow> list_ex (\<lambda>a. ac_ID a = tx_AccountID t \<and> ac_Closed a) (accounts d)"

definition eligible :: "uuid \<Rightarrow> db \<Rightarrow> txn_row \<Rightarrow> bool" where
  "eligible u d t \<longleftrightarrow> tx_UserID t = u \<and> tx_CategoryID t = None \<and> \<not> on_closed d t"

text \<open>The \<open>SET\<close> clauses on a row.\<close>

definition merge_tags :: "(string \<Rightarrow> int) \<Rightarrow> string list \<Rightarrow> string list \<Rightarrow> string list" where
  "merge_tags collate xs ys = sort_key collate (remdups (xs @ ys))"

definition merge_notes :: "string option \<Rightarrow> string \<Rightarrow> string option" where
  "merge_notes notes n = map_option (\<lambda>e. if e = [] then n else e @ [CHR 10] @ n) notes"

definition act :: "(string \<Rightarrow> int) \<Rightarrow> rule_entry \<Rightarrow> txn_row \<Rightarrow> txn_row" where
  "act collate r t = t\<lparr>
     tx_CategoryID := Some (re_CatID r),
     tx_PayeeID := (case re_PayeeID r of None \<Rightarrow> tx_PayeeID t | Some p \<Rightarrow> Some p),
     tx_Tags := (if re_AddTags r = [] then tx_Tags t else merge_tags collate (tx_Tags t) (re_AddTags r)),
     tx_Notes := (if re_Notes r = [] then tx_Notes t else merge_notes (tx_Notes t) (re_Notes r))\<rparr>"

text \<open>The foreign keys of the columns set.\<close>

definition category_exists :: "uuid \<Rightarrow> db \<Rightarrow> bool" where
  "category_exists i d \<longleftrightarrow> list_ex (\<lambda>c. ct_ID c = i) (categories d)"

definition owns_payee :: "uuid \<Rightarrow> uuid \<Rightarrow> db \<Rightarrow> bool" where
  "owns_payee u p d \<longleftrightarrow> list_ex (\<lambda>r. pe_ID r = p \<and> pe_UserID r = u) (payees d)"

definition actions_ok :: "uuid \<Rightarrow> rule_entry \<Rightarrow> db \<Rightarrow> bool" where
  "actions_ok u r d \<longleftrightarrow> category_exists (re_CatID r) d \<and> (case re_PayeeID r of None \<Rightarrow> True | Some p \<Rightarrow> owns_payee u p d)"

definition selects :: "uuid \<Rightarrow> db \<Rightarrow> rule_entry \<Rightarrow> txn_row \<Rightarrow> bool" where
  "selects u d r t \<longleftrightarrow> eligible u d t \<and> sql_matches d r t"

definition apply_rule :: "(string \<Rightarrow> int) \<Rightarrow> uuid \<Rightarrow> rule_entry \<Rightarrow> db \<Rightarrow> db_error + nat \<times> db" where
  "apply_rule collate u r d =
     (let n = length (filter (selects u d r) (transactions d)) in
      if n \<noteq> 0 \<and> \<not> actions_ok u r d then Inl Constraint
      else Inr (n, d\<lparr>transactions := map (\<lambda>t. if selects u d r t then act collate r t else t) (transactions d)\<rparr>))"

definition count_rule :: "uuid \<Rightarrow> rule_entry \<Rightarrow> db \<Rightarrow> nat" where
  "count_rule u r d = length (filter (selects u d r) (transactions d))"

section \<open>The endpoints\<close>

text \<open>The loop over the rules; one whose match type is unknown has no statement.\<close>

fun apply_rules :: "(string \<Rightarrow> int) \<Rightarrow> uuid \<Rightarrow> rule_entry list \<Rightarrow> nat \<Rightarrow> (db, db_error, nat) prog" where
  "apply_rules collate u [] updated = ret updated"
| "apply_rules collate u (r # rs) updated =
     (case rule_update u r of
        None \<Rightarrow> apply_rules collate u rs updated
      | Some _ \<Rightarrow> seq (exec (apply_rule collate u r)) (\<lambda>n. apply_rules collate u rs (updated + n)))"

definition ApplyRules :: "(string \<Rightarrow> int) \<Rightarrow> uuid \<Rightarrow> (db, http_error, nat) prog" where
  "ApplyRules collate u =
     seq (ask (loadRules u)) (\<lambda>rs. on_error (with_tx (apply_rules collate u rs 0)) (\<lambda>_. internal_error))"

section \<open>The first match wins\<close>

text \<open>What the rules do to a row, read in order.\<close>

definition categorize :: "(string \<Rightarrow> int) \<Rightarrow> uuid \<Rightarrow> db \<Rightarrow> rule_entry list \<Rightarrow> txn_row \<Rightarrow> txn_row" where
  "categorize collate u d rs t =
     (if eligible u d t then (case autoCategorize rs (context_of d t) of None \<Rightarrow> t | Some r \<Rightarrow> act collate r t) else t)"

definition categorized :: "uuid \<Rightarrow> db \<Rightarrow> rule_entry list \<Rightarrow> txn_row \<Rightarrow> bool" where
  "categorized u d rs t \<longleftrightarrow> eligible u d t \<and> autoCategorize rs (context_of d t) \<noteq> None"

lemma act_simps [simp]:
  "tx_Date (act c r t) = tx_Date t" "tx_UserID (act c r t) = tx_UserID t" "tx_CategoryID (act c r t) = Some (re_CatID r)"
  "tx_AccountID (act c r t) = tx_AccountID t" "tx_ID (act c r t) = tx_ID t"
  by (simp_all add: act_def)

lemma not_eligible_act [simp]: "\<not> eligible u d (act c r t)"
  by (simp add: eligible_def)

text \<open>The parts of the state that matching reads, apart from the row.\<close>

lemma matching_txns [simp]:
  "eligible u (d\<lparr>transactions := ts\<rparr>) = eligible u d"
  "context_of (d\<lparr>transactions := ts\<rparr>) = context_of d"
  "categorize c u (d\<lparr>transactions := ts\<rparr>) rs = categorize c u d rs"
  "categorized u (d\<lparr>transactions := ts\<rparr>) rs = categorized u d rs"
  by (simp_all add: fun_eq_iff eligible_def on_closed_def context_of_def linked_txn_def attached_txn_def categorize_def categorized_def)

lemma rule_update_None: "rule_update u r = None \<longleftrightarrow> rule_atoms r = None"
  by (simp add: rule_update_def appendRulePredicate_atoms split: prod.split)

definition dated :: "db \<Rightarrow> bool" where
  "dated d \<longleftrightarrow> list_all (\<lambda>t. four_digit_year (tx_Date t)) (transactions d)"

lemma outcomes_apply_rules:
  assumes "list_all well_dated rs" "dated d" "\<And>e d'. E e d'"
    and "Q (k + length (filter (categorized u d rs) (transactions d)))
      (d\<lparr>transactions := map (categorize collate u d rs) (transactions d)\<rparr>)"
  shows "outcomes (apply_rules collate u rs k) Q E d"
  using assms(1,2,4)
proof (induction rs arbitrary: d k)
  case Nil
  have "map (categorize collate u d []) (transactions d) = transactions d"
    by (rule map_idI) (simp add: categorize_def)
  moreover have "filter (categorized u d []) (transactions d) = []" by (simp add: categorized_def)
  ultimately show ?case using Nil(3) by (simp add: outcomes_ret)
next
  case (Cons r rs)
  show ?case
  proof (cases "rule_update u r")
    case None
    then have "\<not> ruleMatches r (context_of d t)" if "t \<in> set (transactions d)" for t
      using sql_matches_iff [of r t d] Cons.prems(1,2) that
      by (auto simp: rule_update_None sql_matches_def dated_def list_all_iff)
    then have "map (categorize collate u d (r # rs)) (transactions d) = map (categorize collate u d rs) (transactions d)"
      "filter (categorized u d (r # rs)) (transactions d) = filter (categorized u d rs) (transactions d)"
      by (auto simp: categorize_def categorized_def intro: filter_cong)
    with Cons.prems(3) have "Q (k + length (filter (categorized u d rs) (transactions d)))
        (d\<lparr>transactions := map (categorize collate u d rs) (transactions d)\<rparr>)"
      by (simp only:)
    from Cons.IH [OF _ Cons.prems(2) this] None Cons.prems(1) show ?thesis by simp
  next
    case (Some x)
    let ?step = "\<lambda>t. if selects u d r t then act collate r t else t"
    let ?d = "d\<lparr>transactions := map ?step (transactions d)\<rparr>"
    have sel: "selects u d r t \<longleftrightarrow> eligible u d t \<and> ruleMatches r (context_of d t)" if "t \<in> set (transactions d)" for t
      using sql_matches_iff [of r t d] Cons.prems(1,2) that by (auto simp: selects_def dated_def list_all_iff)
    have rows: "map (categorize collate u d rs) (map ?step (transactions d)) = map (categorize collate u d (r # rs)) (transactions d)"
      using sel by (simp add: categorize_def)
    have count: "length (filter (selects u d r) (transactions d)) +
        length (filter (categorized u d rs) (map ?step (transactions d))) =
        length (filter (categorized u d (r # rs)) (transactions d))"
    proof -
      have "length (filter (selects u d r) ts) + length (filter (categorized u d rs) (map ?step ts)) =
          length (filter (categorized u d (r # rs)) ts)" if "set ts \<subseteq> set (transactions d)" for ts
        using that by (induction ts) (auto simp: sel categorized_def)
      then show ?thesis by blast
    qed
    have "outcomes (apply_rules collate u rs (k + n)) Q E ?d" if "n = length (filter (selects u d r) (transactions d))" for n
    proof (rule Cons.IH)
      show "list_all well_dated rs" using Cons.prems(1) by simp
      show "dated ?d" using Cons.prems(2) by (auto simp: dated_def list_all_iff)
      have "?d\<lparr>transactions := map (categorize collate u ?d rs) (transactions ?d)\<rparr> =
          d\<lparr>transactions := map (categorize collate u d (r # rs)) (transactions d)\<rparr>"
        using rows by simp
      moreover have "k + n + length (filter (categorized u ?d rs) (transactions ?d)) =
          k + length (filter (categorized u d (r # rs)) (transactions d))"
        using count that by simp
      ultimately show "Q (k + n + length (filter (categorized u ?d rs) (transactions ?d)))
          (?d\<lparr>transactions := map (categorize collate u ?d rs) (transactions ?d)\<rparr>)"
        using Cons.prems(3) by (simp only:)
    qed
    then show ?thesis
      unfolding apply_rules.simps Some option.case
      by (intro wp) (auto simp: apply_rule_def Let_def intro: assms(3) split: if_splits)
  qed
qed

text \<open>A rule as it is loaded: its dates come from date columns.\<close>

definition rule_dates :: "db \<Rightarrow> bool" where
  "rule_dates d \<longleftrightarrow> list_all (\<lambda>r. \<forall>t \<in> set_option (rl_DateFrom r) \<union> set_option (rl_DateTo r). four_digit_year t) (rules d)"

lemma loaded_dated: "rule_dates d \<Longrightarrow> list_all well_dated (loadRules u d)"
proof -
  assume d: "rule_dates d"
  have parsed: "parse_ymd (format_ymd t) \<noteq> None" if "four_digit_year t" for t
    using parse_format_ymd [OF that] by simp
  have "well_dated (entry_of r)" if "r \<in> set (rules d)" for r
    using d that parsed by (fastforce simp: well_dated_def entry_of_def rule_dates_def list_all_iff)
  then show ?thesis by (auto simp: loadRules_def list_all_iff)
qed

text \<open>C5. \<open>ApplyRules\<close> is first-match-wins: when it answers, each of the user's uncategorized transactions on
  an open account has been given the actions of the first rule, by descending priority and then id, that
  matches it, just as if it were entered now; every other row and table is as it was, and the count is that
  of the rows changed. When it fails it has changed nothing.\<close>

theorem apply_first_match:
  assumes "rule_dates (w_db w)" "dated (w_db w)" "ApplyRules collate u w = (r, w')"
  shows "case r of
      Inr n \<Rightarrow> w_db w' = (w_db w)\<lparr>transactions :=
          map (categorize collate u (w_db w) (loadRules u (w_db w))) (transactions (w_db w))\<rparr> \<and>
        n = length (filter (categorized u (w_db w) (loadRules u (w_db w))) (transactions (w_db w)))
    | Inl e \<Rightarrow> w_db w' = w_db w"
proof -
  let ?d = "w_db w" and ?rs = "loadRules u (w_db w)"
  have "outcomes (ApplyRules collate u)
      (\<lambda>n d'. d' = ?d\<lparr>transactions := map (categorize collate u ?d ?rs) (transactions ?d)\<rparr> \<and>
        n = length (filter (categorized u ?d ?rs) (transactions ?d)))
      (\<lambda>_ d'. d' = ?d) ?d"
    unfolding ApplyRules_def
    by (intro wp outcomes_apply_rules loaded_dated) (use assms(1,2) in auto)
  from outcomes_elim [OF this assms(3)] show ?thesis by simp
qed

text \<open>C39. A rule with a category condition never fires. \<open>ApplyRules\<close> and \<open>PreviewRule\<close> consider
  uncategorized rows only, of which a condition on the category is never true, and where transactions are
  entered and imported the rules are consulted only without a category.\<close>

theorem category_condition_never_fires:
  assumes "re_FilterCategoryID r = Some i"
  shows "count_rule u r d = 0 \<and> apply_rule collate u r d = Inr (0, d) \<and>
    (rx_CategoryID ctx = None \<longrightarrow> \<not> ruleMatches r ctx)"
proof -
  have "\<not> selects u d r t" for t
    using assms by (auto simp: selects_def eligible_def sql_matches_def rule_atoms_def condition_atoms_def opt_atom_def
        equals3_def and3_True split: option.splits)
  then have "filter (selects u d r) (transactions d) = []" "map (\<lambda>t. if selects u d r t then act collate r t else t) (transactions d) = transactions d"
    by simp_all
  then show ?thesis using assms by (simp add: count_rule_def apply_rule_def ruleMatches_def)
qed

end
