(* ===== verification/Rule_Handlers.thy ===== *)
theory Rule_Handlers
  imports Rule_Apply
begin

text \<open>
  The endpoints of \<open>backend/handlers/rule.go\<close> that keep the rules (\<open>CreateRule\<close>, \<open>UpdateRule\<close>, \<open>DeleteRule\<close>)
  and that try one out (\<open>PreviewRule\<close>), with \<open>normalizeTags\<close> of \<open>handlers/tag.go\<close>. A statement answers with
  the number of rows it changed; \<open>pgx.ErrNoRows\<close> is zero of them.
\<close>

section \<open>Tags\<close>

definition maxTagLength :: nat where "maxTagLength = 50"
definition maxTagsPerRequest :: nat where "maxTagsPerRequest = 100"

text \<open>\<open>len([]rune(s))\<close> of text that a JSON body carried, which is valid UTF-8: a rune per byte that does not
  continue one.\<close>

definition rune_count :: "string \<Rightarrow> nat" where
  "rune_count s = length (filter (\<lambda>c. let k = of_char c :: nat in k < 128 \<or> 192 \<le> k) s)"

fun normalize_tags :: "string list \<Rightarrow> string list \<Rightarrow> string + string list" where
  "normalize_tags out [] = Inr out"
| "normalize_tags out (raw # rest) =
     (let tag = trim_space raw in
      if tag = [] then normalize_tags out rest
      else if rune_count tag > maxTagLength then Inl ''tag exceeds the maximum length of 50 characters''
      else if tag \<in> set out then normalize_tags out rest
      else normalize_tags (out @ [tag]) rest)"

definition normalizeTags :: "string list \<Rightarrow> string \<Rightarrow> string + string list" where
  "normalizeTags tags field =
     (if length tags > maxTagsPerRequest then Inl (''too many tags in one request ('' @ field @ '')'')
      else normalize_tags [] tags)"

section \<open>Requests\<close>

text \<open>\<open>CreateRuleRequest\<close> and \<open>UpdateRuleRequest\<close>, which have the same fields, as they are decoded.\<close>

record rule_request =
  rq_Pattern :: string
  rq_MatchType :: string
  rq_CategoryID :: uuid
  rq_PayeeID :: "uuid option"
  rq_Priority :: int
  rq_AccountID :: "uuid option"
  rq_FilterCategoryID :: "uuid option"
  rq_FilterPayeeID :: "uuid option"
  rq_MinAmount :: "cents option"
  rq_MaxAmount :: "cents option"
  rq_TxnType :: string
  rq_DateFrom :: string
  rq_DateTo :: string
  rq_IsLinked :: "bool option"
  rq_IsRecurring :: "bool option"
  rq_AddTags :: "string list"
  rq_Notes :: string

text \<open>The \<open>binding\<close> tags of the two.\<close>

definition create_binding :: "rule_request \<Rightarrow> bool" where
  "create_binding req \<longleftrightarrow> rq_Pattern req \<noteq> [] \<and> rune_count (rq_Pattern req) \<le> 500 \<and> rq_CategoryID req \<noteq> 0"

definition update_binding :: "rule_request \<Rightarrow> bool" where
  "update_binding req \<longleftrightarrow> rune_count (rq_Pattern req) \<le> 500"

definition bind_rule :: "(rule_request \<Rightarrow> bool) \<Rightarrow> rule_request option \<Rightarrow> (db, http_error, rule_request) prog" where
  "bind_rule binding body =
     seq (bind_json body) (\<lambda>req. seq (check (binding req) (bad_request ''invalid request'')) (\<lambda>_. ret req))"

definition in_quotes :: "string \<Rightarrow> string" where
  "in_quotes s = [CHR 39] @ s @ [CHR 39]"

definition normalizeRuleMatchType :: "string \<Rightarrow> string + string" where
  "normalizeRuleMatchType mt =
     (if mt = [] then Inr ''contains''
      else if mt \<in> {''contains'', ''starts_with'', ''exact''} then Inr mt
      else Inl (''matchType must be '' @ in_quotes ''contains'' @ '', '' @ in_quotes ''starts_with'' @ '' or '' @ in_quotes ''exact''))"

definition rule_date :: "string \<Rightarrow> string \<Rightarrow> string + string option" where
  "rule_date field s =
     (if s = [] then Inr None
      else if parse_ymd s = None then Inl (''invalid '' @ field @ '' (expected YYYY-MM-DD)'') else Inr (Some s))"

definition validateRuleDates :: "string \<Rightarrow> string \<Rightarrow> string + string option \<times> string option" where
  "validateRuleDates from to =
     (case rule_date ''dateFrom'' from of Inl m \<Rightarrow> Inl m
      | Inr f \<Rightarrow> (case rule_date ''dateTo'' to of Inl m \<Rightarrow> Inl m | Inr t \<Rightarrow> Inr (f, t)))"

definition rule_type_check :: "string \<Rightarrow> (db, http_error, unit) prog" where
  "rule_type_check ty = check (ty = [] \<or> ty = ''debit'' \<or> ty = ''credit'')
     (bad_request (''txnType must be '' @ in_quotes ''debit'' @ '' or '' @ in_quotes ''credit''))"

text \<open>The row a request asks for; the dates are text until they reach their columns.\<close>

definition rule_of ::
  "uuid \<Rightarrow> uuid \<Rightarrow> rule_request \<Rightarrow> string \<Rightarrow> string option \<times> string option \<Rightarrow> string list \<Rightarrow> rule_row" where
  "rule_of u i req matchType dates tags = \<lparr>rl_ID = i, rl_UserID = u, rl_Priority = rq_Priority req,
     rl_Pattern = rq_Pattern req, rl_MatchType = matchType, rl_CategoryID = rq_CategoryID req,
     rl_PayeeID = rq_PayeeID req, rl_AccountID = rq_AccountID req, rl_FilterCategoryID = rq_FilterCategoryID req,
     rl_FilterPayeeID = rq_FilterPayeeID req, rl_MinAmount = rq_MinAmount req, rl_MaxAmount = rq_MaxAmount req,
     rl_TxnType = (if rq_TxnType req = [] then None else Some (rq_TxnType req)),
     rl_DateFrom = Option.bind (fst dates) parse_ymd, rl_DateTo = Option.bind (snd dates) parse_ymd,
     rl_IsLinked = rq_IsLinked req, rl_IsRecurring = rq_IsRecurring req, rl_AddTags = tags, rl_Notes = rq_Notes req\<rparr>"

definition ruleEntryFromRequest :: "rule_request \<Rightarrow> string \<Rightarrow> string option \<times> string option \<Rightarrow> rule_entry" where
  "ruleEntryFromRequest req matchType dates = \<lparr>re_Pattern = rq_Pattern req, re_MatchType = matchType,
     re_CatID = rq_CategoryID req, re_PayeeID = rq_PayeeID req, re_AccountID = rq_AccountID req,
     re_FilterCategoryID = rq_FilterCategoryID req, re_FilterPayeeID = rq_FilterPayeeID req,
     re_MinAmount = rq_MinAmount req, re_MaxAmount = rq_MaxAmount req, re_TxnType = rq_TxnType req,
     re_DateFrom = fst dates, re_DateTo = snd dates, re_IsLinked = rq_IsLinked req,
     re_IsRecurring = rq_IsRecurring req, re_AddTags = rq_AddTags req, re_Notes = rq_Notes req\<rparr>"

section \<open>Statements\<close>

text \<open>What the parameters must be for their casts: a priority that is an \<open>int4\<close>, dates the \<open>DATE\<close> type has
  (there is no year 0), and one of the two types.\<close>

definition date_ok :: "date option \<Rightarrow> bool" where
  "date_ok v = (case v of None \<Rightarrow> True | Some t \<Rightarrow> 1 \<le> year_of t)"

definition casts_ok :: "rule_row \<Rightarrow> bool" where
  "casts_ok r \<longleftrightarrow> - (2 ^ 31) \<le> rl_Priority r \<and> rl_Priority r < 2 ^ 31 \<and> date_ok (rl_DateFrom r) \<and> date_ok (rl_DateTo r)"

definition sees_category :: "uuid \<Rightarrow> uuid \<Rightarrow> db \<Rightarrow> bool" where
  "sees_category u i d \<longleftrightarrow> list_ex (\<lambda>c. ct_ID c = i \<and> (ct_UserID c = Some u \<or> ct_UserID c = None)) (categories d)"

definition refs_ok :: "rule_row \<Rightarrow> db \<Rightarrow> bool" where
  "refs_ok r d \<longleftrightarrow> (let u = rl_UserID r in
     sees_category u (rl_CategoryID r) d \<and>
     (case rl_PayeeID r of None \<Rightarrow> True | Some p \<Rightarrow> owns_payee u p d) \<and>
     (case rl_AccountID r of None \<Rightarrow> True | Some a \<Rightarrow> owns_account u a d) \<and>
     (case rl_FilterCategoryID r of None \<Rightarrow> True | Some i \<Rightarrow> sees_category u i d) \<and>
     (case rl_FilterPayeeID r of None \<Rightarrow> True | Some p \<Rightarrow> owns_payee u p d))"

definition rule_key :: "rule_row \<Rightarrow> uuid \<times> uuid" where
  "rule_key r = (rl_UserID r, rl_ID r)"

definition insert_rule :: "rule_row \<Rightarrow> db \<Rightarrow> db_error + nat \<times> db" where
  "insert_rule r d =
     (if \<not> casts_ok r then Inl Constraint
      else if \<not> refs_ok r d then Inr (0, d)
      else if rule_key r \<in> set (map rule_key (rules d)) then Inl Unique
      else Inr (1, d\<lparr>rules := rules d @ [r]\<rparr>))"

definition replace_rule :: "rule_row \<Rightarrow> db \<Rightarrow> db_error + nat \<times> db" where
  "replace_rule r d =
     (if \<not> casts_ok r then Inl Constraint
      else if \<not> refs_ok r d \<or> rule_key r \<notin> set (map rule_key (rules d)) then Inr (0, d)
      else Inr (1, d\<lparr>rules := map (\<lambda>s. if rule_key s = rule_key r then r else s) (rules d)\<rparr>))"

definition delete_rule :: "uuid \<Rightarrow> uuid \<Rightarrow> db \<Rightarrow> db_error + nat \<times> db" where
  "delete_rule u i d = Inr (length (filter (\<lambda>r. rule_key r = (u, i)) (rules d)),
     d\<lparr>rules := filter (\<lambda>r. rule_key r \<noteq> (u, i)) (rules d)\<rparr>)"

definition preview_count :: "uuid \<Rightarrow> rule_entry \<Rightarrow> db \<Rightarrow> db_error + nat \<times> db" where
  "preview_count u r d =
     (if date_ok (Option.bind (re_DateFrom r) parse_ymd) \<and> date_ok (Option.bind (re_DateTo r) parse_ymd)
      then Inr (count_rule u r d, d) else Inl Constraint)"

section \<open>Endpoints\<close>

definition CreateRule :: "uuid \<Rightarrow> rule_request option \<Rightarrow> (db, http_error, rule_row) prog" where
  "CreateRule u body =
     seq (bind_rule create_binding body) (\<lambda>req.
     seq (or_400 (normalizeRuleMatchType (rq_MatchType req))) (\<lambda>matchType.
     seq (rule_type_check (rq_TxnType req)) (\<lambda>_.
     seq (or_400 (validateRuleDates (rq_DateFrom req) (rq_DateTo req))) (\<lambda>dates.
     seq (or_400 (normalizeTags (rq_AddTags req) ''addTags'')) (\<lambda>tags.
     seq new_id (\<lambda>i.
     let r = rule_of u i req matchType dates tags in
     seq (run_stmt (insert_rule r)) (\<lambda>n.
     seq (check (n \<noteq> 0) (bad_request ''referenced category, payee, or account not found'')) (\<lambda>_.
       ret r))))))))"

definition UpdateRule :: "uuid \<Rightarrow> uuid option \<Rightarrow> rule_request option \<Rightarrow> (db, http_error, rule_row) prog" where
  "UpdateRule u p body =
     seq (path_id ''invalid id'' p) (\<lambda>i.
     seq (bind_rule update_binding body) (\<lambda>req.
     seq (check (rq_Pattern req \<noteq> []) (bad_request ''pattern is required'')) (\<lambda>_.
     seq (check (rq_CategoryID req \<noteq> 0) (bad_request ''categoryId is required'')) (\<lambda>_.
     seq (or_400 (normalizeRuleMatchType (rq_MatchType req))) (\<lambda>matchType.
     seq (rule_type_check (rq_TxnType req)) (\<lambda>_.
     seq (or_400 (validateRuleDates (rq_DateFrom req) (rq_DateTo req))) (\<lambda>dates.
     seq (or_400 (normalizeTags (rq_AddTags req) ''addTags'')) (\<lambda>tags.
     let r = rule_of u i req matchType dates tags in
     seq (run_stmt (replace_rule r)) (\<lambda>n.
     seq (check (n \<noteq> 0) (not_found ''rule not found'')) (\<lambda>_.
       ret r))))))))))"

definition DeleteRule :: "uuid \<Rightarrow> uuid option \<Rightarrow> (db, http_error, unit) prog" where
  "DeleteRule u p =
     seq (path_id ''invalid id'' p) (\<lambda>i.
     seq (run_stmt (delete_rule u i)) (\<lambda>n.
       check (n \<noteq> 0) (not_found ''rule not found'')))"

definition PreviewRule :: "uuid \<Rightarrow> rule_request option \<Rightarrow> (db, http_error, nat) prog" where
  "PreviewRule u body =
     seq (bind_rule create_binding body) (\<lambda>req.
     seq (or_400 (normalizeRuleMatchType (rq_MatchType req))) (\<lambda>matchType.
     seq (rule_type_check (rq_TxnType req)) (\<lambda>_.
     seq (or_400 (validateRuleDates (rq_DateFrom req) (rq_DateTo req))) (\<lambda>dates.
     let entry = ruleEntryFromRequest req matchType dates in
     case rule_count u entry of
       None \<Rightarrow> ret 0
     | Some _ \<Rightarrow> run_stmt (preview_count u entry)))))"

end
