(* ===== verification/Rule_Service.thy ===== *)
theory Rule_Service
  imports Rule_Handlers
begin

text \<open>
  What the rule endpoints guarantee, whatever statements fail: the contract of a predicate every statement
  keeps, the rules' validity and the other users' rows as its interpretations, and what follows for
  \<open>ApplyRules\<close>: it has nothing left to refuse, and it changes as many rows as a preview counts.
\<close>

section \<open>Calls\<close>

datatype rule_call =
    PostRule "rule_request option" | PutRule "uuid option" "rule_request option" | DropRule "uuid option"
  | TryRule "rule_request option" | ApplyAll

fun serve_rules :: "(string \<Rightarrow> int) \<Rightarrow> uuid \<Rightarrow> rule_call \<Rightarrow> (db, http_error, unit) prog" where
  "serve_rules collate u (PostRule b) = forget (CreateRule u b)"
| "serve_rules collate u (PutRule p b) = forget (UpdateRule u p b)"
| "serve_rules collate u (DropRule p) = DeleteRule u p"
| "serve_rules collate u (TryRule b) = forget (PreviewRule u b)"
| "serve_rules collate u ApplyAll = forget (ApplyRules collate u)"

lemma outcomes_bind_rule [wp]:
  "(\<And>req. body = Some req \<Longrightarrow> b req \<Longrightarrow> Q req d) \<Longrightarrow> E (bad_request ''invalid request'') d \<Longrightarrow>
    outcomes (bind_rule b body) Q E d"
  unfolding bind_rule_def by (intro wp) auto

lemma outcomes_rule_type_check [wp]:
  "(ty = [] \<or> ty = ''debit'' \<or> ty = ''credit'' \<Longrightarrow> Q () d) \<Longrightarrow> (\<And>m. E (bad_request m) d) \<Longrightarrow>
    outcomes (rule_type_check ty) Q E d"
  unfolding rule_type_check_def by (intro wp) auto

lemmas rule_handler_defs = CreateRule_def UpdateRule_def DeleteRule_def PreviewRule_def ApplyRules_def Let_def

section \<open>Well-formed rules\<close>

text \<open>A tag list as \<open>normalizeTags\<close> leaves it.\<close>

definition tags_normal :: "string list \<Rightarrow> bool" where
  "tags_normal ts \<longleftrightarrow> length ts \<le> maxTagsPerRequest \<and> distinct ts \<and>
     list_all (\<lambda>t. t \<noteq> [] \<and> trim_space t = t \<and> rune_count t \<le> maxTagLength) ts"

definition well_formed_rule :: "rule_row \<Rightarrow> bool" where
  "well_formed_rule r \<longleftrightarrow>
     rl_Pattern r \<noteq> [] \<and> rune_count (rl_Pattern r) \<le> 500 \<and> rl_CategoryID r \<noteq> 0 \<and>
     rl_MatchType r \<in> {''contains'', ''starts_with'', ''exact''} \<and>
     rl_TxnType r \<in> {None, Some ''debit'', Some ''credit''} \<and> casts_ok r \<and>
     list_all four_digit_year (map the (filter (\<lambda>v. v \<noteq> None) [rl_DateFrom r, rl_DateTo r])) \<and>
     tags_normal (rl_AddTags r)"

definition rules_valid :: "db \<Rightarrow> bool" where
  "rules_valid d \<longleftrightarrow> distinct (map rule_key (rules d)) \<and> list_all (\<lambda>r. well_formed_rule r \<and> refs_ok r d) (rules d)"

lemma dropWhile_idem [simp]: "dropWhile P (dropWhile P xs) = dropWhile P xs"
  by (induction xs) auto

lemma trim_space_idem [simp]: "trim_space (trim_space s) = trim_space s"
proof -
  let ?a = "dropWhile is_space s"
  let ?b = "rev (dropWhile is_space (rev ?a))"
  have "dropWhile is_space ?b = ?b"
  proof (cases "?b = []")
    case False
    obtain c cs where b: "?b = c # cs" using False by (cases ?b) auto
    obtain zs where "?a = ?b @ zs"
      by (metis rev_append rev_rev_ident takeWhile_dropWhile_id)
    with b have "hd ?a = c" "?a \<noteq> []" by auto
    then have "\<not> is_space c" using hd_dropWhile [of is_space s] by auto
    then show ?thesis unfolding b by simp
  next
    case True
    then show ?thesis by (simp only: dropWhile.simps(1))
  qed
  then show ?thesis unfolding trim_space_def by simp
qed

lemma normalize_tags_ok:
  assumes "normalize_tags acc ts = Inr ts'" "distinct acc"
    "list_all (\<lambda>t. t \<noteq> [] \<and> trim_space t = t \<and> rune_count t \<le> maxTagLength) acc"
  shows "distinct ts' \<and> list_all (\<lambda>t. t \<noteq> [] \<and> trim_space t = t \<and> rune_count t \<le> maxTagLength) ts' \<and>
    length ts' \<le> length acc + length ts"
  using assms
proof (induction acc ts rule: normalize_tags.induct)
  case (2 acc raw rest)
  then show ?case by (auto simp: Let_def split: if_splits)
qed simp

lemma normalizeTags_ok: "normalizeTags ts f = Inr ts' \<Longrightarrow> tags_normal ts'"
  using normalize_tags_ok [of "[]" ts ts'] by (auto simp: normalizeTags_def tags_normal_def split: if_splits)

lemma normalizeRuleMatchType_ok:
  "normalizeRuleMatchType m = Inr m' \<Longrightarrow> m' = ''contains'' \<or> m' = ''starts_with'' \<or> m' = ''exact''"
  by (auto simp: normalizeRuleMatchType_def split: if_splits)

definition date_text :: "string option \<Rightarrow> bool" where
  "date_text v \<longleftrightarrow> (case v of None \<Rightarrow> True | Some s \<Rightarrow> \<exists>t. parse_ymd s = Some t \<and> four_digit_year t \<and> s = format_ymd t)"

lemma validateRuleDates_ok:
  assumes "validateRuleDates a b = Inr v"
  shows "date_text (fst v)" "date_text (snd v)"
  using assms four_digit_parse
  by (fastforce simp: validateRuleDates_def rule_date_def date_text_def split: if_splits sum.splits)+

lemma date_text_column: "date_text v \<Longrightarrow> Option.bind v parse_ymd = Some t \<Longrightarrow> four_digit_year t"
  by (auto simp: date_text_def split: option.splits)

lemma rule_of_simps [simp]:
  "rl_ID (rule_of u i q m v ts) = i" "rl_UserID (rule_of u i q m v ts) = u" "rule_key (rule_of u i q m v ts) = (u, i)"
  by (simp_all add: rule_of_def rule_key_def)

lemma rule_of_well_formed:
  assumes "rq_Pattern q \<noteq> []" "rune_count (rq_Pattern q) \<le> 500" "rq_CategoryID q \<noteq> 0"
    and "normalizeRuleMatchType mt = Inr m" "rq_TxnType q = [] \<or> rq_TxnType q = ''debit'' \<or> rq_TxnType q = ''credit''"
    and "validateRuleDates a b = Inr v" "normalizeTags ts f = Inr ts'" "casts_ok (rule_of u i q m v ts')"
  shows "well_formed_rule (rule_of u i q m v ts')"
  unfolding well_formed_rule_def
  using assms(1-3,5,8) normalizeRuleMatchType_ok [OF assms(4)] normalizeTags_ok [OF assms(7)]
    validateRuleDates_ok [OF assms(6), THEN date_text_column]
  by (auto simp: rule_of_def)

section \<open>The contract of an invariant\<close>

locale rule_invariant =
  fixes u :: uuid and I :: "db \<Rightarrow> bool"
  assumes rule_inserted: "I d \<Longrightarrow> rl_UserID r = u \<Longrightarrow> (casts_ok r \<Longrightarrow> well_formed_rule r) \<Longrightarrow> insert_rule r d = Inr (n, d') \<Longrightarrow> I d'"
    and rule_replaced: "I d \<Longrightarrow> rl_UserID r = u \<Longrightarrow> (casts_ok r \<Longrightarrow> well_formed_rule r) \<Longrightarrow> replace_rule r d = Inr (n, d') \<Longrightarrow> I d'"
    and rule_deleted: "I d \<Longrightarrow> delete_rule u i d = Inr (n, d') \<Longrightarrow> I d'"
    and rule_applied: "I d \<Longrightarrow> apply_rule collate u e d = Inr (n, d') \<Longrightarrow> I d'"
begin

lemma apply_rules_keep:
  assumes "I d" "\<And>n d'. I d' \<Longrightarrow> Q n d'" "\<And>e d'. E e d'"
  shows "outcomes (apply_rules collate u rs k) Q E d"
  using assms(1)
proof (induction rs arbitrary: d k)
  case Nil
  then show ?case using assms(2) by (auto intro: wp)
next
  case (Cons r rs)
  show ?case
    unfolding apply_rules.simps by (intro wp Cons.IH assms(3)) (use Cons.prems rule_applied in blast)+
qed

lemma serve_rules_keeps:
  assumes "I d"
  shows "outcomes (serve_rules collate u c) (\<lambda>_. I) (\<lambda>_. I) d"
proof -
  have ins: "I d'" if "create_binding req" "normalizeRuleMatchType (rq_MatchType req) = Inr m"
      "rq_TxnType req = [] \<or> rq_TxnType req = ''debit'' \<or> rq_TxnType req = ''credit''"
      "validateRuleDates (rq_DateFrom req) (rq_DateTo req) = Inr v" "normalizeTags (rq_AddTags req) f = Inr ts"
      "insert_rule (rule_of u i req m v ts) d = Inr (n, d')" for req m v f ts i n d'
    by (rule rule_inserted [OF assms _ _ that(6)])
      (use that(1) in \<open>auto simp: create_binding_def intro: rule_of_well_formed [OF _ _ _ that(2-5)]\<close>)
  have rep: "I d'" if "update_binding req" "rq_Pattern req \<noteq> []" "rq_CategoryID req \<noteq> 0"
      "normalizeRuleMatchType (rq_MatchType req) = Inr m"
      "rq_TxnType req = [] \<or> rq_TxnType req = ''debit'' \<or> rq_TxnType req = ''credit''"
      "validateRuleDates (rq_DateFrom req) (rq_DateTo req) = Inr v" "normalizeTags (rq_AddTags req) f = Inr ts"
      "replace_rule (rule_of u i req m v ts) d = Inr (n, d')" for req m v f ts i n d'
    by (rule rule_replaced [OF assms _ _ that(8)])
      (use that(1-3) in \<open>auto simp: update_binding_def intro: rule_of_well_formed [OF _ _ _ that(4-7)]\<close>)
  show ?thesis
    using assms
    by (cases c; simp only: serve_rules.simps rule_handler_defs; intro wp apply_rules_keep)
      (auto simp: preview_count_def elim: rule_deleted intro: ins rep split: if_splits)
qed

lemma rule_step_keeps: "I (w_db w) \<Longrightarrow> serve_rules collate u c w = (r, w') \<Longrightarrow> I (w_db w')"
  using outcomes_elim [OF serve_rules_keeps] by (cases r) fastforce+

end


section \<open>The rules stay valid\<close>

lemma refs_ok_cong:
  "accounts d' = accounts d \<Longrightarrow> payees d' = payees d \<Longrightarrow> categories d' = categories d \<Longrightarrow> refs_ok r d' = refs_ok r d"
  by (simp add: refs_ok_def sees_category_def owns_payee_def owns_account_def Let_def cong: option.case_cong)

lemma rules_valid_cong:
  "accounts d' = accounts d \<Longrightarrow> payees d' = payees d \<Longrightarrow> categories d' = categories d \<Longrightarrow> rules d' = rules d \<Longrightarrow>
    rules_valid d' = rules_valid d"
  using refs_ok_cong [of d' d] by (simp add: rules_valid_def)

lemma refs_ok_rules [simp]: "refs_ok r (d\<lparr>rules := rs\<rparr>) = refs_ok r d"
  by (rule refs_ok_cong) simp_all

lemma map_replaced: "map rule_key (map (\<lambda>s. if rule_key s = rule_key r then r else s) rs) = map rule_key rs"
  by (induction rs) auto

interpretation rules_validity: rule_invariant u rules_valid for u
proof
  fix d d' r n
  assume v: "rules_valid d" "rl_UserID r = u" "casts_ok r \<Longrightarrow> well_formed_rule r"
  show "insert_rule r d = Inr (n, d') \<Longrightarrow> rules_valid d'"
    using v by (simp add: insert_rule_def rules_valid_def split: if_splits) auto
  assume r: "replace_rule r d = Inr (n, d')"
  show "rules_valid d'"
  proof (cases "refs_ok r d \<and> rule_key r \<in> set (map rule_key (rules d))")
    case True
    let ?rs = "map (\<lambda>s. if rule_key s = rule_key r then r else s) (rules d)"
    from r True have r: "casts_ok r" "d' = d\<lparr>rules := ?rs\<rparr>"
      by (simp_all add: replace_rule_def split: if_splits)
    have "distinct (map rule_key ?rs)"
      unfolding map_replaced using v(1) by (simp add: rules_valid_def)
    moreover have "well_formed_rule s \<and> refs_ok s d" if "s \<in> set ?rs" for s
    proof -
      from that have "s = r \<or> s \<in> set (rules d)" by auto
      then show ?thesis using v r(1) True by (auto simp: rules_valid_def list_all_iff)
    qed
    ultimately show ?thesis unfolding r(2) rules_valid_def by (simp add: list_all_iff del: map_map set_map)
  next
    case False
    with r have "d' = d" by (simp add: replace_rule_def split: if_splits)
    with v(1) show ?thesis by simp
  qed
next
  fix d d' i n
  assume "rules_valid d" "delete_rule u i d = Inr (n, d')"
  then show "rules_valid d'"
    by (auto simp: rules_valid_def delete_rule_def list_all_iff distinct_map_filter)
next
  fix d d' n collate e
  assume "rules_valid d" "apply_rule collate u e d = Inr (n, d')"
  then show "rules_valid d'"
    by (subst rules_valid_cong [of d' d]) (auto simp: apply_rule_def Let_def split: if_splits)
qed

interpretation rules_tenancy: rule_invariant u "\<lambda>d. others u d = others u d0" for u d0
proof
  fix d d' :: db and r :: rule_row and n
  assume r: "others u d = others u d0" "rl_UserID r = u"
  show "insert_rule r d = Inr (n, d') \<Longrightarrow> others u d' = others u d0"
    using r by (auto simp: insert_rule_def others_def split: if_splits)
  have "filter (\<lambda>s. rl_UserID s \<noteq> u) (map (\<lambda>s. if rule_key s = rule_key r then r else s) rs) =
      filter (\<lambda>s. rl_UserID s \<noteq> u) rs" for rs
    by (induction rs) (auto simp: rule_key_def r(2))
  then show "replace_rule r d = Inr (n, d') \<Longrightarrow> others u d' = others u d0"
    using r by (auto simp: replace_rule_def others_def split: if_splits)
next
  fix d d' i n
  assume "others u d = others u d0" "delete_rule u i d = Inr (n, d')"
  moreover have "filter (\<lambda>s. rl_UserID s \<noteq> u) (filter (\<lambda>r. rule_key r \<noteq> (u, i)) rs) = filter (\<lambda>s. rl_UserID s \<noteq> u) rs" for rs
    by (induction rs) (auto simp: rule_key_def)
  ultimately show "others u d' = others u d0"
    by (auto simp: delete_rule_def others_def)
next
  fix d d' n collate e
  assume "others u d = others u d0" "apply_rule collate u e d = Inr (n, d')"
  moreover have "filter (\<lambda>t. tx_UserID t \<noteq> u) (map (\<lambda>t. if selects u d e t then act collate e t else t) ts) =
      filter (\<lambda>t. tx_UserID t \<noteq> u) ts" for ts
    by (induction ts) (auto simp: selects_def eligible_def)
  ultimately show "others u d' = others u d0"
    by (auto simp: apply_rule_def Let_def others_def split: if_splits)
qed

lemma outcomes_rules_refused:
  "outcomes (serve_rules collate u c) (\<lambda>_ _. True) (\<lambda>e d'. status e < 500 \<longrightarrow> d' = d) d"
proof -
  have none: "insert_rule r d = Inr (0, d') \<Longrightarrow> d' = d" "replace_rule r d = Inr (0, d') \<Longrightarrow> d' = d" for r d'
    by (auto simp: insert_rule_def replace_rule_def split: if_splits)
  have gone: "d' = d" if "delete_rule u i d = Inr (0, d')" for i d'
    using that by (auto simp: delete_rule_def filter_empty_conv)
  have in_tx: "outcomes m (\<lambda>_ _. True) (\<lambda>_ _. True) d" for m :: "(db, db_error, nat) prog"
    by (auto simp: outcomes_def split: prod.splits sum.splits)
  show ?thesis
    by (cases c; simp only: serve_rules.simps rule_handler_defs; intro wp)
      (auto simp: internal_error_def dest: none gone intro!: outcomes_mono [OF in_tx])
qed

end
