(* ===== verification/Ledger_Service.thy ===== *)
theory Ledger_Service
  imports Loan_Links Recurring_Views Cycle_Service Rule_Service
begin

text \<open>
  The loan, recurring, billing-cycle and rule endpoints as one service over one database: requests of any
  users in any order, each with its own clock, its own fresh identifiers and its own failing statements.
  Each component's invariant holds for the statements of the others, so the books of all stay
  consistent together, every request stays in its user's rows, and a refused one changes nothing.
\<close>

section \<open>The service\<close>

datatype request =
    Loan_request loan_call | Recurring_request recurring_call | Cycles_request "uuid option" | Rule_request rule_call

fun serve :: "(string \<Rightarrow> int) \<Rightarrow> date \<Rightarrow> uuid \<Rightarrow> request \<Rightarrow> (db, http_error, unit) prog" where
  "serve collate now u (Loan_request c) = serve_loan now u c"
| "serve collate now u (Recurring_request c) = serve_recurring collate now u c"
| "serve collate now u (Cycles_request p) = forget (GetBillingCycles now u p)"
| "serve collate now u (Rule_request c) = serve_rules collate u c"

inductive served :: "(string \<Rightarrow> int) \<Rightarrow> db \<Rightarrow> db \<Rightarrow> bool" for collate where
  served_start: "served collate d d"
| served_step: "served collate d (w_db w) \<Longrightarrow> serve collate now u c w = (r, w') \<Longrightarrow> served collate d (w_db w')"

inductive_cases served_cases: "served collate d d'"

text \<open>A predicate that the statements of every component keep.\<close>

locale ledger_invariant =
  loan_invariant u I + recurring_invariant u I + cycle_invariant u I + rule_invariant u I for u I
begin

lemma request_keeps:
  assumes "I (w_db w)" "serve collate now u c w = (r, w')"
  shows "I (w_db w')"
proof (cases c)
  case (Loan_request l)
  with assms(2) have "serve_loan now u l w = (r, w')" by simp
  with assms(1) show ?thesis by (rule loan_invariant.step_keeps [OF loan_invariant_axioms])
next
  case (Recurring_request q)
  with assms(2) have "serve_recurring collate now u q w = (r, w')" by simp
  with assms(1) show ?thesis by (rule recurring_invariant.step_keeps [OF recurring_invariant_axioms])
next
  case (Cycles_request p)
  with assms show ?thesis using cycle_step_keeps by simp
next
  case (Rule_request q)
  with assms show ?thesis using rule_step_keeps by simp
qed

end

section \<open>Each component's books under the other's statements\<close>

lemma loan_books_cong:
  "loan_attachments d' = loan_attachments d \<Longrightarrow> loan_disbursements d' = loan_disbursements d \<Longrightarrow>
    loan_schedules d' = loan_schedules d \<Longrightarrow> loan_transfers d' = loan_transfers d \<Longrightarrow> loan_books d' = loan_books d"
  by (simp add: loan_books_def exclusive_links_def keyed_terms_def)

lemma series_books_cong:
  "accounts d' = accounts d \<Longrightarrow> series d' = series d \<Longrightarrow> series_terms d' = series_terms d \<Longrightarrow>
    recurring_attachments d' = recurring_attachments d \<Longrightarrow> series_books d' = series_books d"
  by (simp add: series_books_def recurring_keys_def terms_apart_def all_have_terms_def term_refs_def owns_account_def)

text \<open>Billing cycles have two keys: their id and their first day.\<close>

definition cycle_keys :: "db \<Rightarrow> bool" where
  "cycle_keys d \<longleftrightarrow> distinct (map (\<lambda>c. (bc_UserID c, bc_ID c)) (billing_cycles d)) \<and>
     distinct (map (\<lambda>c. (bc_UserID c, bc_AccountID c, bc_StartDate c)) (billing_cycles d))"

lemma cycle_keys_cong: "billing_cycles d' = billing_cycles d \<Longrightarrow> cycle_keys d' = cycle_keys d"
  by (simp add: cycle_keys_def)

lemmas recurring_statements = insert_series_def update_series_def delete_series_def insert_term_def reprice_term_def
  close_term_def replace_term_def delete_term_def delete_terms_def attach_recurring_def detach_recurring_def Let_def

lemmas loan_statements = attach_payments_def detach_payments_def set_payee_def upsert_schedule_def open_schedule_def
  delete_schedule_def insert_transfer_def delete_transfer_def delete_opened_schedule_def put_disbursement_def
  delete_disbursement_def Let_def

lemmas cycle_statements = detach_from_cycles_def delete_cycles_def insert_cycle_def backfill_def

lemmas rule_statements = insert_rule_def replace_rule_def delete_rule_def apply_rule_def Let_def

interpretation recurring_loan_books: recurring_invariant u loan_books for u
  by unfold_locales (erule loan_books_cong [THEN iffD2, rotated 4]; auto simp: recurring_statements split: if_splits sum.splits)+

interpretation cycle_loan_books: cycle_invariant u loan_books for u
  by unfold_locales (erule loan_books_cong [THEN iffD2, rotated 4]; auto simp: cycle_statements split: if_splits)+

interpretation rule_loan_books: rule_invariant u loan_books for u
  by unfold_locales (erule loan_books_cong [THEN iffD2, rotated 4]; auto simp: rule_statements split: if_splits)+

interpretation ledger_loan_books: ledger_invariant u loan_books for u
  by unfold_locales

interpretation loan_series_books: loan_invariant u series_books for u
  by unfold_locales (erule series_books_cong [THEN iffD2, rotated 4]; auto simp: loan_statements split: if_splits sum.splits)+

interpretation cycle_series_books: cycle_invariant u series_books for u
  by unfold_locales (erule series_books_cong [THEN iffD2, rotated 4]; auto simp: cycle_statements split: if_splits)+

interpretation rule_series_books: rule_invariant u series_books for u
  by unfold_locales (erule series_books_cong [THEN iffD2, rotated 4]; auto simp: rule_statements split: if_splits)+

interpretation loan_rules: loan_invariant u rules_valid for u
  by unfold_locales (erule rules_valid_cong [THEN iffD2, rotated 4]; auto simp: loan_statements split: if_splits sum.splits)+

interpretation recurring_rules: recurring_invariant u rules_valid for u
  by unfold_locales (erule rules_valid_cong [THEN iffD2, rotated 4]; auto simp: recurring_statements split: if_splits sum.splits)+

interpretation cycle_rules: cycle_invariant u rules_valid for u
  by unfold_locales (erule rules_valid_cong [THEN iffD2, rotated 4]; auto simp: cycle_statements split: if_splits)+

interpretation ledger_rules: ledger_invariant u rules_valid for u
  by unfold_locales

interpretation loan_cycle_keys: loan_invariant u cycle_keys for u
  by unfold_locales (erule cycle_keys_cong [THEN iffD2, rotated]; auto simp: loan_statements split: if_splits sum.splits)+

interpretation recurring_cycle_keys: recurring_invariant u cycle_keys for u
  by unfold_locales (erule cycle_keys_cong [THEN iffD2, rotated]; auto simp: recurring_statements split: if_splits sum.splits)+

interpretation rule_cycle_keys: rule_invariant u cycle_keys for u
  by unfold_locales (erule cycle_keys_cong [THEN iffD2, rotated]; auto simp: rule_statements split: if_splits)+

interpretation cycle_cycle_keys: cycle_invariant u cycle_keys for u
proof
  fix d d' a and x :: unit
  assume k: "cycle_keys d"
  show "detach_from_cycles u a d = Inr (x, d') \<Longrightarrow> cycle_keys d'" "backfill u a d = Inr (x, d') \<Longrightarrow> cycle_keys d'"
    using k cycle_keys_cong [of d' d] by (auto simp: detach_from_cycles_def backfill_def)
  show "delete_cycles u a d = Inr (x, d') \<Longrightarrow> cycle_keys d'"
    using k by (auto simp: delete_cycles_def cycle_keys_def distinct_map_filter)
  fix c
  assume i: "insert_cycle c d = Inr (x, d')"
  let ?new = "d\<lparr>billing_cycles := billing_cycles d @ [c]\<rparr>"
  from i consider "d' = d" | "d' = ?new" "\<forall>b \<in> set (account_cycles (bc_UserID c) (bc_AccountID c) d). bc_StartDate b \<noteq> bc_StartDate c"
      "\<forall>b \<in> set (billing_cycles d). bc_UserID b = bc_UserID c \<longrightarrow> bc_ID b \<noteq> bc_ID c"
    by (auto simp: insert_cycle_def list_ex_iff split: if_splits)
  then show "cycle_keys d'"
  proof cases
    case 2
    have "(bc_UserID c, bc_ID c) \<notin> (\<lambda>c. (bc_UserID c, bc_ID c)) ` set (billing_cycles d)"
      using 2(3) by (metis (no_types, lifting) imageE prod.inject)
    moreover have "(bc_UserID c, bc_AccountID c, bc_StartDate c) \<notin>
        (\<lambda>c. (bc_UserID c, bc_AccountID c, bc_StartDate c)) ` set (billing_cycles d)"
      using 2(2) by (auto simp: account_cycles_def is_cycle_of_def)
    ultimately show ?thesis using k by (simp add: 2(1) cycle_keys_def)
  qed (use k in simp)
qed

interpretation ledger_cycle_keys: ledger_invariant u cycle_keys for u
  by unfold_locales

interpretation ledger_tenancy: ledger_invariant u "\<lambda>d. others u d = others u d0" for u d0
  by unfold_locales

lemma series_books_step:
  assumes "series_books (w_db w)" "serve collate now u c w = (r, w')"
  shows "series_books (w_db w')"
proof (cases c)
  case (Loan_request l)
  then show ?thesis using loan_series_books.step_keeps assms by simp
next
  case (Recurring_request q)
  then have "serve_recurring collate now u q w = (r, w')" using assms(2) by simp
  from outcomes_elim [OF outcomes_serve_books [OF assms(1)] this] show ?thesis by (cases r) simp_all
next
  case (Cycles_request p)
  then show ?thesis using cycle_series_books.cycle_step_keeps assms by simp
next
  case (Rule_request q)
  then show ?thesis using rule_series_books.rule_step_keeps assms by simp
qed

section \<open>What holds of the service\<close>

text \<open>C1. After any sequence of requests of any users, with any failures, the books of every component are
  consistent: a transaction is an EMI payment of one loan or the disbursement credit of one loan, never
  both; a loan has one schedule and one transfer out, within the declared checks; a transaction is
  attached to at most one series; the terms of a series are non-empty intervals that share no day,
  at least one of them, on accounts its user owns; a rule can fire, its conditions are well formed, and
  what it refers to exists and is its user's or global; and no two billing cycles of an account start on
  the same day.\<close>

theorem books_stay_consistent:
  assumes "served collate d d'" "loan_books d" "series_books d" "rules_valid d" "cycle_keys d"
  shows "loan_books d' \<and> series_books d' \<and> rules_valid d' \<and> cycle_keys d'"
  using assms
proof (induction rule: served.induct)
  case (served_step d w now u c r w')
  then show ?case
    using ledger_loan_books.request_keeps [OF _ served_step.hyps(2)] series_books_step [OF _ served_step.hyps(2)]
      ledger_rules.request_keeps [OF _ served_step.hyps(2)] ledger_cycle_keys.request_keeps [OF _ served_step.hyps(2)] by blast
qed simp

definition ex_day :: date where "ex_day = time_date 2024 6 1"

definition ex_attached :: "db world" where
  "ex_attached = snd (serve (\<lambda>_. 0) ex_day 1 (Loan_request (BulkLink (ex_attach [21] (Some 10)))) ex_world)"

theorem books_stay_consistent_witness:
  "let d = w_db (snd (serve (\<lambda>_. 0) ex_day 1 (Recurring_request (PostSeries (Some ex_create))) ex_attached)) in
     loan_books d \<and> series_books d \<and> rules_valid d \<and> cycle_keys d"
proof -
  have "served (\<lambda>_. 0) ex_db (w_db ex_world)"
    by (simp add: ex_world_def served_start)
  then have "served (\<lambda>_. 0) ex_db (w_db ex_attached)"
    unfolding ex_attached_def by (rule served_step) (rule prod.collapse [symmetric])
  then have "served (\<lambda>_. 0) ex_db
      (w_db (snd (serve (\<lambda>_. 0) ex_day 1 (Recurring_request (PostSeries (Some ex_create))) ex_attached)))"
    by (rule served_step) (rule prod.collapse [symmetric])
  moreover have "loan_books ex_db" by code_simp
  moreover have "series_books ex_db"
    by (simp add: series_books_def recurring_keys_def terms_apart_def all_have_terms_def unique_links_def ex_db_def ex_account_def)
  moreover have "rules_valid ex_db" "cycle_keys ex_db"
    by (simp_all add: rules_valid_def cycle_keys_def ex_db_def)
  ultimately show ?thesis unfolding Let_def by (rule books_stay_consistent)
qed

text \<open>C2. A request of one user changes no row of any other user in any table, and no account, payee,
  category or link between transactions at all, whatever statements fail.\<close>

theorem requests_stay_in_tenant:
  "others u (w_db (snd (serve collate now u c w))) = others u (w_db w)"
  using ledger_tenancy.request_keeps [of u w "w_db w", OF refl prod.collapse [symmetric]] .

text \<open>C13. A request that is refused (any status below 500) leaves every table as it was, whatever
  statements fail.\<close>

theorem refusal_changes_nothing:
  assumes "serve collate now u c w = (Inl e, w')" "status e < 500"
  shows "w_db w' = w_db w"
proof (cases c)
  case (Loan_request l)
  then show ?thesis using outcomes_elim [OF outcomes_refused [of now u l]] assms by fastforce
next
  case (Recurring_request q)
  then show ?thesis using outcomes_elim [OF outcomes_recurring_refused [of collate now u q]] assms by fastforce
next
  case (Cycles_request p)
  then show ?thesis using outcomes_elim [OF outcomes_cycles_refused [of now u p]] assms by fastforce
next
  case (Rule_request q)
  then show ?thesis using outcomes_elim [OF outcomes_rules_refused [of collate u q]] assms by fastforce
qed

theorem refusal_changes_nothing_witness:
  "w_db (snd (serve (\<lambda>_. 0) ex_day 1 (Loan_request (BulkLink (ex_attach [20] (Some 11)))) ex_world)) = ex_db"
proof -
  have "serve (\<lambda>_. 0) ex_day 1 (Loan_request (BulkLink (ex_attach [20] (Some 11)))) ex_world =
      (Inl (bad_request ''transactions can only be attached to a Loan / EMI account''),
       snd (serve (\<lambda>_. 0) ex_day 1 (Loan_request (BulkLink (ex_attach [20] (Some 11)))) ex_world))"
    by code_simp
  from refusal_changes_nothing [OF this] show ?thesis
    by (simp add: bad_request_def ex_world_def)
qed

end
