(* ===== verification/Cycle_Totals.thy ===== *)
theory Cycle_Totals
  imports Cycle_Books
begin

text \<open>
  The cycles as they are read: generating them again changes nothing, the running total of the list is
  the balance of the account on the cycle's last day when every transaction is in the cycle of its date,
  and, where the billing day was changed to a later one that ends the same months, two cycles share days.
\<close>

section \<open>Running twice\<close>

lemma insert_cycles_covered:
  "\<forall>ms \<in> set mss. ms \<in> set covered \<Longrightarrow> insert_cycles u a D covered mss = ret ()"
  by (induction mss) auto

lemma placed_again:
  fixes d :: db
  shows "placed u a (billing_cycles d) (placed u a (billing_cycles d) ts) = placed u a (billing_cycles d) ts"
proof -
  have "(if is_txn_of u a t \<and> unassigned t then assign_cycle (billing_cycles d) t else t) = t"
    if "t \<in> set (placed u a (billing_cycles d) ts)" for t
  proof (cases "is_txn_of u a t \<and> unassigned t")
    case True
    then have "find (\<lambda>c. covers c t) (account_cycles u a d) = None"
      using placed_settled [OF that] by (auto simp: find_None_iff)
    then show ?thesis using True assign_cycle_eq [of u a t d] by (simp add: unassigned_def)
  qed auto
  then show ?thesis by (subst (1) placed_def) (simp add: map_idI)
qed

lemma outcomes_ensure_again:
  assumes "D = effective_day day" "regular D u a d" "set (wanted_months now u a D d) \<subseteq> months_held u a d"
    and "placed u a (billing_cycles d) (transactions d) = transactions d"
  shows "outcomes (ensureBillingCycles now u a day) (\<lambda>_ d'. d' = d) (\<lambda>_ d'. d' = d) d"
proof -
  have D: "1 \<le> D" using assms(1) by simp
  have covered: "\<forall>ms \<in> set (map month_start (wanted_months now u a D d)). ms \<in> set (covered_months u a d)"
    using assms(3) by (auto simp: covered_iff)
  have "backfill u a d = Inr ((), d)" using assms(4) by (simp add: backfill_def placed_def)
  then show ?thesis
    unfolding ensureBillingCycles_def dropMisalignedCycles_def Let_def assms(1) [symmetric]
    by (intro wp)
      (auto simp: regular_aligned [OF assms(2)] wanted_eq [OF D] insert_cycles_covered [OF covered] intro!: wp)
qed

lemma first_date_ensured:
  "ensured now u a D d d' \<Longrightarrow> first_date now u a d' = first_date now u a d"
proof -
  assume "ensured now u a D d d'"
  from ensured_txns [OF this] have "map tx_Date (account_txns u a d') = map tx_Date (account_txns u a (dropped u a D d))"
    by (simp add: account_txns_def dates_placed)
  from first_date_cong [OF this, of now] show ?thesis by simp
qed

text \<open>C37. Generating the cycles is idempotent: after a run that succeeded, running again on the same day
  leaves every table as it is, whether the second run succeeds or fails.\<close>

theorem ensure_idempotent:
  assumes "D = effective_day day" "regular D u a (w_db w) \<or> misaligned u a D (w_db w)"
    and "ensureBillingCycles now u a day w = (Inr (), w')"
    and "w_db v = w_db w'" "ensureBillingCycles now u a day v = (r, v')"
  shows "w_db v' = w_db w'"
proof -
  have "outcomes (ensureBillingCycles now u a day) (\<lambda>_ d'. ensured now u a D (w_db w) d') (\<lambda>_ _. True) (w_db w)"
    by (rule outcomes_ensure [OF assms(1)]) (use assms(1,2) regular_follows [of D u a "w_db w"] in auto)
  from outcomes_elim [OF this assms(3)] have e: "ensured now u a D (w_db w) (w_db w')" by simp
  have D: "1 \<le> D" using assms(1) by simp
  note cycles = ensured_cycles [OF D assms(2) e]
  have "set (wanted_months now u a D (w_db w')) \<subseteq> months_held u a (w_db w')"
    using cycles(2) first_date_ensured [OF e] by (simp add: wanted_months_def)
  moreover have "placed u a (billing_cycles (w_db w')) (transactions (w_db w')) = transactions (w_db w')"
    unfolding ensured_txns [OF e] by (rule placed_again)
  ultimately have "outcomes (ensureBillingCycles now u a day) (\<lambda>_ d'. d' = w_db w') (\<lambda>_ d'. d' = w_db w') (w_db v)"
    using outcomes_ensure_again [OF assms(1) cycles(1)] assms(4) by simp
  from outcomes_elim [OF this assms(5)] show ?thesis by (simp split: sum.splits)
qed

text \<open>One run adds at most 600 cycles.\<close>

lemma wanted_bounded: "length (wanted_months now u a D d) \<le> 600"
  by (simp add: wanted_months_def)

section \<open>The running totals\<close>

lemma running_total:
  "i < length cs \<Longrightarrow> cv_TotalOutstanding (running a d b cs ! i) = i64 (b + (\<Sum>c \<leftarrow> take (Suc i) cs. net_activity d c))"
  "length (running a d b cs) = length cs"
  "i < length cs \<Longrightarrow> cv_EndDate (running a d b cs ! i) = bc_EndDate (cs ! i)"
  by (induction cs arbitrary: b i) (auto simp: Let_def nth_Cons i64_sums add.assoc split: nat.splits)

lemma net_sum:
  assumes "distinct (map bc_ID cs)"
  shows "(\<Sum>c \<leftarrow> cs. net_activity d c) =
    (\<Sum>t \<leftarrow> filter (\<lambda>t. tx_CycleID t \<in> Some ` bc_ID ` set cs) (transactions d). signed_amount t)"
proof -
  have "(\<Sum>c \<leftarrow> cs. \<Sum>t \<leftarrow> filter (\<lambda>t. tx_CycleID t = Some (bc_ID c)) ts. signed_amount t) =
    (\<Sum>t \<leftarrow> filter (\<lambda>t. tx_CycleID t \<in> Some ` bc_ID ` set cs) ts. signed_amount t)" for ts
  proof (induction ts)
    case (Cons t ts)
    have "(\<Sum>c \<leftarrow> cs. if tx_CycleID t = Some (bc_ID c) then signed_amount t else 0) =
        (if tx_CycleID t \<in> Some ` bc_ID ` set cs then signed_amount t else 0)"
      using assms by (induction cs) (auto simp: image_iff)
    moreover have "(\<Sum>c \<leftarrow> cs. \<Sum>t \<leftarrow> filter (\<lambda>t. tx_CycleID t = Some (bc_ID c)) (t # ts). signed_amount t) =
        (\<Sum>c \<leftarrow> cs. if tx_CycleID t = Some (bc_ID c) then signed_amount t else 0) +
        (\<Sum>c \<leftarrow> cs. \<Sum>t \<leftarrow> filter (\<lambda>t. tx_CycleID t = Some (bc_ID c)) ts. signed_amount t)"
      by (subst sum_list_addf [symmetric]) (intro arg_cong [of _ _ sum_list] map_cong refl, simp)
    ultimately show ?case using Cons by simp
  qed simp
  then show ?thesis by (simp add: net_activity_def attached_txns_def)
qed

text \<open>Every transaction of the account is in the cycle of its date, and no other transaction is in one.\<close>

definition in_date_order :: "uuid \<Rightarrow> uuid \<Rightarrow> db \<Rightarrow> bool" where
  "in_date_order u a d \<longleftrightarrow>
     (\<forall>t \<in> set (transactions d). \<forall>c \<in> set (account_cycles u a d).
        tx_CycleID t = Some (bc_ID c) \<longleftrightarrow> is_txn_of u a t \<and> covers c t) \<and>
     (\<forall>t \<in> set (account_txns u a d). \<exists>c \<in> set (account_cycles u a d). covers c t) \<and>
     distinct (map bc_ID (account_cycles u a d))"

lemma sorted_take:
  assumes "1 \<le> D" "regular D u a d" "i < length (account_cycles u a d)"
    and "cs = sort_key bc_StartDate (account_cycles u a d)" "c \<in> set cs"
  shows "c \<in> set (take (Suc i) cs) \<longleftrightarrow> end_month c \<le> end_month (cs ! i)"
proof -
  have w: "windowed D b" if "b \<in> set cs" for b
    using assms(2,4) that by (simp add: regular_def list_all_iff)
  have inj: "inj_on end_month (set cs)" "distinct cs"
    using assms(2,4) by (simp_all add: regular_def distinct_map)
  have mono: "bc_StartDate b \<le> bc_StartDate b' \<longleftrightarrow> end_month b \<le> end_month b'" if "b \<in> set cs" "b' \<in> set cs" for b b'
  proof -
    have "bill D (j - 1) \<le> bill D (k - 1) \<longleftrightarrow> j \<le> k" for j k
      using bill_mono [OF assms(1), of "j - 1" "k - 1"] bill_mono [OF assms(1), of "k - 1" "j - 1"]
      by (cases j k rule: linorder_cases) auto
    then show ?thesis using w that by (simp add: windowed_def)
  qed
  obtain j where j: "j < length cs" "c = cs ! j" using assms(5) by (auto simp: in_set_conv_nth)
  have i: "i < length cs" using assms(3,4) by simp
  have sorted: "sorted (map bc_StartDate cs)" using assms(4) by simp
  have le: "end_month (cs ! k) \<le> end_month (cs ! l)" if "k \<le> l" "l < length cs" for k l
    using sorted_nth_mono [OF sorted that(1)] that mono by auto
  have "c \<in> set (take (Suc i) cs) \<longleftrightarrow> j \<le> i"
  proof
    show "c \<in> set (take (Suc i) cs)" if "j \<le> i"
      using that j by (auto simp: in_set_conv_nth intro!: exI [of _ j])
  qed (use j i inj(2) in \<open>auto simp: in_set_conv_nth nth_eq_iff_index_eq\<close>)
  also have "\<dots> \<longleftrightarrow> end_month c \<le> end_month (cs ! i)"
  proof
    show "j \<le> i" if "end_month c \<le> end_month (cs ! i)"
    proof (rule ccontr)
      assume "\<not> j \<le> i"
      then have "end_month (cs ! i) = end_month (cs ! j)" using le [of i j] j that by simp
      with inj(1) have "cs ! i = cs ! j" using i j(1) by (auto simp: inj_on_def)
      with inj(2) i j(1) \<open>\<not> j \<le> i\<close> show False by (auto simp: nth_eq_iff_index_eq)
    qed
  qed (use le i j in auto)
  finally show ?thesis .
qed

lemma covering_cycle:
  assumes "1 \<le> D" "regular D u a d" "is_txn_of u a t" "b \<in> set (account_cycles u a d)"
  shows "covers b t \<longleftrightarrow> end_month b = cycle_month D (tx_Date t)"
proof (rule windowed_covers [OF assms(1) _ _ assms(3)])
  show "windowed D b" using assms(2,4) by (simp add: regular_def list_all_iff)
  show "is_cycle_of u a b" using assms(4) by (simp add: account_cycles_def)
qed

lemma window_before:
  assumes "1 \<le> D" "in_window D j t"
  shows "t \<le> bill D k \<longleftrightarrow> j \<le> k"
proof -
  have t: "bill D (j - 1) < t" "t \<le> bill D j" using assms(2) by (simp_all add: in_window_def)
  consider "j = k" | "j < k" | "k = j - 1" | "k < j - 1" by linarith
  then show ?thesis
  proof cases
    case 2
    with bill_mono [OF assms(1), of j k] t show ?thesis by simp
  next
    case 4
    with bill_mono [OF assms(1), of k "j - 1"] t show ?thesis by simp
  qed (use t in auto)
qed

lemma dated_up_to:
  assumes "1 \<le> D" "regular D u a d" "cs = sort_key bc_StartDate (account_cycles u a d)" "i < length cs"
    and "is_txn_of u a t" "c \<in> set (account_cycles u a d)" "covers c t"
  shows "(\<exists>b \<in> set (take (Suc i) cs). covers b t) \<longleftrightarrow> tx_Date t \<le> bc_EndDate (cs ! i)"
proof -
  note month = covering_cycle [OF assms(1,2,5)]
  have c: "end_month c = cycle_month D (tx_Date t)" using month [OF assms(6)] assms(7) by simp
  have only: "b = c" if "b \<in> set (account_cycles u a d)" "covers b t" for b
  proof -
    have "end_month b = end_month c" using month [OF that(1)] that(2) c by simp
    moreover have "inj_on end_month (set (account_cycles u a d))" using assms(2) by (simp add: regular_def distinct_map)
    ultimately show ?thesis using that(1) assms(6) by (simp add: inj_on_eq_iff)
  qed
  have "b \<in> set (account_cycles u a d)" if "b \<in> set (take (Suc i) cs)" for b
    using in_set_takeD [OF that] by (simp add: assms(3))
  then have "(\<exists>b \<in> set (take (Suc i) cs). covers b t) \<longleftrightarrow> c \<in> set (take (Suc i) cs)"
    using only assms(7) by blast
  also have "\<dots> \<longleftrightarrow> end_month c \<le> end_month (cs ! i)"
    by (rule sorted_take [OF assms(1,2) _ assms(3)]) (use assms(3,4,6) in simp_all)
  also have "\<dots> \<longleftrightarrow> tx_Date t \<le> bc_EndDate (cs ! i)"
  proof -
    have "cs ! i \<in> set (account_cycles u a d)" using nth_mem [OF assms(4)] by (simp add: assms(3))
    then have "bc_EndDate (cs ! i) = bill D (end_month (cs ! i))"
      using assms(2) by (simp add: regular_def list_all_iff windowed_def)
    moreover have "in_window D (end_month c) (tx_Date t)" using in_window_cycle_month [OF assms(1)] c by simp
    ultimately show ?thesis using window_before [OF assms(1)] by simp
  qed
  finally show ?thesis .
qed

text \<open>C15. The running total is the balance: while every transaction of the account is in the cycle of its
  date, the total outstanding shown for a cycle of a list that is answered is the sum, in \<open>int64\<close>, of the
  debits less the credits of all the account's transactions dated up to the cycle's last day; it is the sum
  itself where that fits.\<close>

theorem outstanding_is_balance:
  assumes "1 \<le> D" "regular D u a d" "in_date_order u a d"
    and "listBillingCycles u a d = Inr vs" "v \<in> set vs"
    and "B = (\<Sum>t \<leftarrow> filter (\<lambda>t. tx_Date t \<le> cv_EndDate v) (account_txns u a d). signed_amount t)"
  shows "cv_TotalOutstanding v = i64 B \<and> (in_i64 B \<longrightarrow> cv_TotalOutstanding v = B)"
proof -
  define cs where "cs = sort_key bc_StartDate (account_cycles u a d)"
  obtain i where i: "i < length cs" "v = running a d 0 cs ! i"
  proof -
    have "v \<in> set (running a d 0 cs)"
      using assms(4,5) by (auto simp: listBillingCycles_def cs_def Let_def split: if_splits)
    then show thesis using that by (auto simp: in_set_conv_nth running_total(2))
  qed
  have "distinct (map bc_ID (account_cycles u a d))" using assms(3) by (simp add: in_date_order_def)
  then have "distinct (map bc_ID cs)" by (simp add: cs_def distinct_map)
  then have ids: "distinct (map bc_ID (take (Suc i) cs))" unfolding take_map [symmetric] by (rule distinct_take)
  have total: "cv_TotalOutstanding v =
      i64 (\<Sum>t \<leftarrow> filter (\<lambda>t. tx_CycleID t \<in> Some ` bc_ID ` set (take (Suc i) cs)) (transactions d). signed_amount t)"
    unfolding i(2) running_total(1) [OF i(1)] net_sum [OF ids] by simp
  have sub: "b \<in> set (account_cycles u a d)" if "b \<in> set (take (Suc i) cs)" for b
    using in_set_takeD [OF that] by (simp add: cs_def)
  have "tx_CycleID t \<in> Some ` bc_ID ` set (take (Suc i) cs) \<longleftrightarrow> is_txn_of u a t \<and> tx_Date t \<le> bc_EndDate (cs ! i)"
    if t: "t \<in> set (transactions d)" for t
  proof -
    have each: "tx_CycleID t = Some (bc_ID c) \<longleftrightarrow> is_txn_of u a t \<and> covers c t" if "c \<in> set (take (Suc i) cs)" for c
      using assms(3) sub [OF that] t by (simp add: in_date_order_def)
    have "tx_CycleID t \<in> Some ` bc_ID ` set (take (Suc i) cs) \<longleftrightarrow> (\<exists>c \<in> set (take (Suc i) cs). tx_CycleID t = Some (bc_ID c))"
      by auto
    then have attached: "tx_CycleID t \<in> Some ` bc_ID ` set (take (Suc i) cs) \<longleftrightarrow>
        is_txn_of u a t \<and> (\<exists>c \<in> set (take (Suc i) cs). covers c t)"
      using each by (simp cong: bex_cong)
    show ?thesis
    proof (cases "is_txn_of u a t")
      case True
      then obtain c where "c \<in> set (account_cycles u a d)" "covers c t"
        using assms(3) t by (auto simp: in_date_order_def account_txns_def)
      from dated_up_to [OF assms(1,2) cs_def i(1) True this] attached True show ?thesis by simp
    qed (use attached in simp)
  qed
  then have "filter (\<lambda>t. tx_CycleID t \<in> Some ` bc_ID ` set (take (Suc i) cs)) (transactions d) =
      filter (\<lambda>t. tx_Date t \<le> bc_EndDate (cs ! i)) (account_txns u a d)"
    by (simp add: account_txns_def conj_commute cong: filter_cong)
  then have "cv_TotalOutstanding v = i64 B"
    unfolding total assms(6) running_total(3) [OF i(1), of a d 0, folded i(2)] by simp
  then show ?thesis by (simp add: i64_id)
qed

section \<open>A changed billing day\<close>

definition month_days :: "int \<Rightarrow> int" where
  "month_days k = month_length (k div 12) (k mod 12 + 1)"

lemma bill_day: "1 \<le> D \<Longrightarrow> day_of (bill D k) = min D (month_days k)"
  by (simp add: bill_def billing_civil month_start_civil month_days_def)

lemma bill_date: "1 \<le> D \<Longrightarrow> bill D k = month_start k + min D (month_days k) - 1"
proof -
  assume D: "1 \<le> D"
  have "bill D k - day_of (bill D k) = month_start k - day_of (month_start k)"
    using billing_civil [OF D, of "month_start k"] by (simp add: bill_def day_of_def)
  then show ?thesis by (simp add: bill_day [OF D] month_start_civil)
qed

lemma month_31: "m \<in> {1, 3, 5, 7, 8, 10, 12} \<Longrightarrow> month_length y m = 31"
  by (auto simp: month_length_def days_before_month_def)

lemma long_month_next: "month_days k = 31 \<or> month_days (k + 1) = 31"
proof -
  have long: "month_days j = 31" if "j mod 12 \<in> {0, 2, 4, 6, 7, 9, 11}" for j
    using that month_31 [of "j mod 12 + 1" "j div 12"] by (auto simp: month_days_def)
  have "k mod 12 \<in> {0, 2, 4, 6, 7, 9, 11} \<or> (k + 1) mod 12 \<in> {0, 2, 4, 6, 7, 9, 11}"
  proof -
    have "k mod 12 \<in> {0..<12}" by simp
    then have "k mod 12 \<in> {0, 1, 2, 3, 4, 5, 6, 7, 8, 9, 10, 11}" by (simp add: atLeastLessThan_iff) arith
    moreover have "(k + 1) mod 12 = (k mod 12 + 1) mod 12" by (simp add: mod_add_left_eq)
    ultimately show ?thesis by auto
  qed
  then show ?thesis by (elim disjE) (simp_all only: long simp_thms)
qed

text \<open>Two cycles in a row show every change of the day.\<close>

lemma day_change_noticed:
  assumes "1 \<le> D" "D \<le> 31" "1 \<le> D'" "D' \<le> 31" "D \<noteq> D'"
    and "regular D' u a d" "k \<in> months_held u a d" "k + 1 \<in> months_held u a d"
  shows "misaligned u a D d"
proof (rule ccontr)
  assume "\<not> misaligned u a D d"
  then have "bill D j = bill D' j" if "j \<in> months_held u a d" for j
    using that assms(6) by (fastforce simp: misaligned_iff months_held_def regular_def list_all_iff windowed_def)
  then have "min D (month_days j) = min D' (month_days j)" if "j \<in> months_held u a d" for j
    using that bill_day [OF assms(1), of j] bill_day [OF assms(3), of j] by simp
  from this [OF assms(7)] this [OF assms(8)] long_month_next [of k] assms(1-5) show False
    by (auto simp: min_def split: if_splits)
qed

text \<open>An account of user 1 whose only transaction is dated a month ahead has one cycle, of February. The
  billing day goes from 30 to 31 and a transaction of February is entered.\<close>

definition ex_spend :: "uuid \<Rightarrow> date \<Rightarrow> txn_row" where
  "ex_spend i t = \<lparr>tx_ID = i, tx_UserID = 1, tx_AccountID = 11, tx_Date = t, tx_Description = ''x'', tx_Amount = 100,
     tx_Type = ''debit'', tx_CategoryID = None, tx_PayeeID = None, tx_CycleID = None, tx_Detached = False,
     tx_CreatedAt = 0, tx_Tags = [], tx_Notes = Some [], tx_ClientKey = None\<rparr>"

definition ex_card :: "txn_row list \<Rightarrow> cycle_row list \<Rightarrow> db" where
  "ex_card ts cs = \<lparr>accounts = [\<lparr>ac_ID = 11, ac_UserID = 1, ac_Name = ''card'', ac_TypeID = ''credit_card'',
       ac_Closed = False, ac_BillingDay = Some 30\<rparr>],
     transactions = ts, payees = [], categories = [], loan_attachments = [], loan_disbursements = [],
     loan_schedules = [], loan_transfers = [], series = [], series_terms = [], recurring_attachments = [],
     billing_cycles = cs, txn_links = [], rules = []\<rparr>"

definition ex_today :: date where "ex_today = time_date 2023 2 10"

definition ex_month :: "uuid \<Rightarrow> date \<Rightarrow> date \<Rightarrow> string \<Rightarrow> cycle_row" where
  "ex_month i s e l = \<lparr>bc_ID = i, bc_UserID = 1, bc_AccountID = 11, bc_StartDate = s, bc_EndDate = e, bc_Label = l\<rparr>"

text \<open>31 January to 28 February 2023, and the whole of January.\<close>

definition ex_feb :: cycle_row where "ex_feb = ex_month 7 738550 738578 ''Feb 2023''"
definition ex_jan :: cycle_row where "ex_jan = ex_month 8 738520 738550 ''Jan 2023''"

definition ex_first :: "db world" where
  "ex_first = \<lparr>w_db = ex_card [ex_spend 5 (time_date 2023 3 5)] [], w_faults = [], w_ids = [7]\<rparr>"

definition ex_before :: "db world" where
  "ex_before = \<lparr>w_db = ex_card [ex_spend 5 (time_date 2023 3 5)] [ex_feb], w_faults = [], w_ids = []\<rparr>"

definition ex_entered :: "db world" where
  "ex_entered = \<lparr>w_db = ex_card [ex_spend 5 (time_date 2023 3 5), ex_spend 6 (time_date 2023 2 5)] [ex_feb],
     w_faults = [], w_ids = [8]\<rparr>"

definition ex_filled :: "db world" where
  "ex_filled = \<lparr>w_db = ex_card [ex_spend 5 (time_date 2023 3 5), ex_spend 6 (time_date 2023 2 5)] [ex_feb, ex_jan],
     w_faults = [], w_ids = []\<rparr>"

definition ex_after :: "db world" where
  "ex_after = \<lparr>w_db = ex_card [ex_spend 5 (time_date 2023 3 5), (ex_spend 6 (time_date 2023 2 5))\<lparr>tx_CycleID := Some 7\<rparr>]
     [ex_feb, ex_jan], w_faults = [], w_ids = []\<rparr>"

text \<open>A run in which nothing fails, step by step.\<close>

lemma ensure_run:
  assumes "w_faults w = []" "D = effective_day day" "\<not> misaligned u a D (w_db w)" "has_unassigned u a (w_db w)"
    and "insert_cycles u a D (covered_months u a (w_db w))
      (billingCycleMonths (first_date now u a (w_db w)) now D) w = (Inr (), w1)"
    and "w_faults w1 = []" "backfill u a (w_db w1) = Inr ((), d)" "w' = w1\<lparr>w_db := d\<rparr>"
  shows "ensureBillingCycles now u a day w = (Inr (), w')"
proof -
  have s: "sent v = v" "\<not> faulty v" if "w_faults v = []" for v :: "db world"
    using that by (simp_all add: sent_def faulty_def)
  show ?thesis
    unfolding ensureBillingCycles_def dropMisalignedCycles_def Let_def assms(2) [symmetric]
    using assms by (simp add: seq_def query_def exec_def ret_def s)
qed

lemma ex_before_run: "ensureBillingCycles ex_today 1 11 30 ex_first = (Inr (), ex_before)"
proof (rule ensure_run)
  show "w_faults ex_first = []" "30 = effective_day 30" "w_faults ex_before = []" by code_simp+
  show "\<not> misaligned 1 11 30 (w_db ex_first)" by code_simp
  show "has_unassigned 1 11 (w_db ex_first)" by code_simp
  show "insert_cycles 1 11 30 (covered_months 1 11 (w_db ex_first))
      (billingCycleMonths (first_date ex_today 1 11 (w_db ex_first)) ex_today 30) ex_first = (Inr (), ex_before)"
    by code_simp
  show "backfill 1 11 (w_db ex_before) = Inr ((), w_db ex_before)" by code_simp
qed simp

lemma ex_after_run: "ensureBillingCycles ex_today 1 11 31 ex_entered = (Inr (), ex_after)"
proof (rule ensure_run)
  show "w_faults ex_entered = []" "31 = effective_day 31" "w_faults ex_filled = []" by code_simp+
  show "\<not> misaligned 1 11 31 (w_db ex_entered)" by code_simp
  show "has_unassigned 1 11 (w_db ex_entered)" by code_simp
  have "covered_months 1 11 (w_db ex_entered) = [time_date 2023 2 1]"
    "billingCycleMonths (first_date ex_today 1 11 (w_db ex_entered)) ex_today 31 = [time_date 2023 1 1, time_date 2023 2 1]"
    by code_simp+
  moreover have "insert_cycle (new_cycle 8 1 11 31 (time_date 2023 1 1)) (w_db ex_entered) = Inr ((), w_db ex_filled)"
    by code_simp
  moreover have "time_date 2023 1 1 \<noteq> time_date 2023 2 1" by code_simp
  ultimately show "insert_cycles 1 11 31 (covered_months 1 11 (w_db ex_entered))
      (billingCycleMonths (first_date ex_today 1 11 (w_db ex_entered)) ex_today 31) ex_entered = (Inr (), ex_filled)"
    by (simp add: seq_def new_id_def exec_def faulty_def sent_def ret_def ex_entered_def ex_filled_def)
  show "backfill 1 11 (w_db ex_filled) = Inr ((), w_db ex_after)" by code_simp
  show "ex_after = ex_filled\<lparr>w_db := w_db ex_after\<rparr>" by (simp add: ex_filled_def ex_after_def)
qed

text \<open>C38. A change of the billing day to a later one can leave two cycles that share days. The test for it
  compares end dates only: where it does not notice that the cycle of a month was made for the earlier day,
  that cycle keeps its start, and when the month before is wanted, a run that returns without an error has
  generated that month for the new day, so that both cycles hold every day after the old billing date of
  the month before up to the new one, of which there is at least one.\<close>

theorem day_change_overlap:
  assumes "1 \<le> D" "D < D'" "D' \<le> 31"
    and "regular D u a (w_db w)" "\<not> misaligned u a D' (w_db w)"
    and "k \<in> months_held u a (w_db w)" "k - 1 \<in> set (wanted_months now u a D' (w_db w))"
    and "ensureBillingCycles now u a D' w = (Inr (), w')"
  shows "bill D (k - 1) < bill D' (k - 1) \<and>
    (\<exists>b \<in> set (account_cycles u a (w_db w')). \<exists>c \<in> set (account_cycles u a (w_db w')). b \<noteq> c \<and>
      {bill D (k - 1) <.. bill D' (k - 1)} \<subseteq> {bc_StartDate b .. bc_EndDate b} \<inter> {bc_StartDate c .. bc_EndDate c})"
proof -
  have day: "D' = effective_day D'" "1 \<le> D'" using assms(1-3) by (simp_all add: effective_day_def)
  have follows: "follows u a (w_db w)" by (rule regular_follows [OF assms(1,4)])
  obtain b where b: "b \<in> set (account_cycles u a (w_db w))" "end_month b = k"
    using assms(6) by (auto simp: months_held_def)
  have w: "windowed D b" using assms(4) b(1) by (simp add: regular_def list_all_iff)
  have "bill D k = bill D' k" using assms(5) b w by (force simp: misaligned_iff windowed_def)
  then have "month_days k \<noteq> 31" using assms(2,3) by (auto simp: bill_date day(2) assms(1))
  then have "month_days (k - 1) = 31" using long_month_next [of "k - 1"] by simp
  then have later: "bill D (k - 1) < bill D' (k - 1)" using assms(2,3) by (simp add: bill_date day(2) assms(1))
  have "k - 1 \<notin> months_held u a (w_db w)"
    using day_change_noticed [OF day(2) assms(3,1) _ _ assms(4), of "k - 1"] assms(2,3,5,6) by auto
  moreover have "ensured now u a D' (w_db w) (w_db w')"
  proof -
    have "outcomes (ensureBillingCycles now u a D') (\<lambda>_ d'. ensured now u a D' (w_db w) d') (\<lambda>_ _. True) (w_db w)"
      by (rule outcomes_ensure [OF day(1)]) (simp_all add: follows)
    from outcomes_elim [OF this assms(8)] show ?thesis by simp
  qed
  moreover have "dropped u a D' (w_db w) = w_db w" using assms(5) by (simp add: dropped_def)
  ultimately obtain c where c: "c \<in> set (account_cycles u a (w_db w'))" "windowed D' c" "end_month c = k - 1"
    and kept: "set (account_cycles u a (w_db w)) \<subseteq> set (account_cycles u a (w_db w'))"
    using ensured_adds [OF day(2)] assms(7) by metis
  have "{bill D (k - 1) <.. bill D' (k - 1)} \<subseteq> {bc_StartDate b .. bc_EndDate b} \<inter> {bc_StartDate c .. bc_EndDate c}"
    using w c(2) month_index_less [of "bill D' (k - 1)" "bill D k"] month_index_less [of "bill D' (k - 2)" "bill D (k - 1)"]
    by (auto simp: windowed_def b(2) c(3) assms(1) day(2))
  moreover have "b \<noteq> c" using b(2) c(3) by auto
  ultimately show ?thesis using later b(1) c(1) kept by blast
qed

theorem day_change_overlap_witness:
  "ensureBillingCycles ex_today 1 11 31 ex_entered = (Inr (), ex_after) \<and>
   (\<exists>b \<in> set (account_cycles 1 11 (w_db ex_after)). \<exists>c \<in> set (account_cycles 1 11 (w_db ex_after)). b \<noteq> c \<and>
      time_date 2023 1 31 \<in> {bc_StartDate b .. bc_EndDate b} \<inter> {bc_StartDate c .. bc_EndDate c})"
proof -
  have "regular 30 1 11 (w_db ex_entered)" "\<not> misaligned 1 11 31 (w_db ex_entered)"
    "24277 \<in> months_held 1 11 (w_db ex_entered)" "24277 - 1 \<in> set (wanted_months ex_today 1 11 31 (w_db ex_entered))"
    "time_date 2023 1 31 \<in> {bill 30 (24277 - 1) <.. bill 31 (24277 - 1)}"
    by code_simp+
  with day_change_overlap [of 30 31 1 11 ex_entered 24277 ex_today ex_after, OF _ _ _ _ _ _ _ ex_after_run]
  show ?thesis using ex_after_run by (simp del: greaterThanAtMost_iff atLeastAtMost_iff) blast
qed

lemma ex_first_regular: "regular 30 1 11 (w_db ex_first)"
  by (simp add: regular_def account_cycles_def ex_card_def ex_first_def)

theorem cycles_ensured_witness:
  "regular 30 1 11 (w_db ex_before) \<and> months_held 1 11 (w_db ex_before) \<noteq> {}"
proof -
  have "wanted_months ex_today 1 11 30 (w_db ex_first) \<noteq> []" by code_simp
  with cycles_ensured [of 30 30 "w_db ex_first", OF _ refl _ ex_before_run] ex_first_regular
  show ?thesis by (auto simp: effective_day_def)
qed

theorem ensure_idempotent_witness:
  "w_db (snd (ensureBillingCycles ex_today 1 11 30 ex_before)) = w_db ex_before"
  using ensure_idempotent [of 30 30 1 11 ex_first ex_today ex_before ex_before, OF _ _ ex_before_run refl prod.collapse [symmetric]]
    ex_first_regular by (simp add: effective_day_def)

text \<open>Two months of an account, each transaction in its cycle.\<close>

definition ex_listed :: db where
  "ex_listed = ex_card [(ex_spend 5 738550)\<lparr>tx_CycleID := Some 8\<rparr>, (ex_spend 6 738520)\<lparr>tx_CycleID := Some 7\<rparr>]
     [ex_month 7 738519 738549 [], ex_month 8 738550 738578 []]"

lemma ex_listed_order: "in_date_order 1 11 ex_listed"
  by (simp add: in_date_order_def ex_listed_def ex_card_def ex_spend_def ex_month_def account_cycles_def
      account_txns_def is_cycle_of_def is_txn_of_def covers_def)

theorem outstanding_is_balance_witness:
  "\<exists>vs v. listBillingCycles 1 11 ex_listed = Inr vs \<and> v \<in> set vs \<and>
     cv_EndDate v = time_date 2023 2 28 \<and> cv_TotalOutstanding v = 200"
proof -
  let ?vs = "projr (listBillingCycles 1 11 ex_listed)" and ?v = "projr (listBillingCycles 1 11 ex_listed) ! 1"
  have vs: "\<not> isl (listBillingCycles 1 11 ex_listed)" by code_simp
  have v: "?v \<in> set ?vs" "regular 30 1 11 ex_listed" "cv_EndDate ?v = time_date 2023 2 28"
    by code_simp+
  have "(\<Sum>t \<leftarrow> filter (\<lambda>t. tx_Date t \<le> time_date 2023 2 28) (account_txns 1 11 ex_listed). signed_amount t) = 200"
    by code_simp
  with outstanding_is_balance [of 30 1 11 ex_listed ?vs ?v 200, OF _ v(2) ex_listed_order _ v(1)] v(1,3) vs
  show ?thesis by (intro exI [of _ ?vs] exI [of _ ?v]) (simp add: in_i64_def)
qed

end
