(* ===== verification/Rule_Text.thy ===== *)
theory Rule_Text
  imports Rule_Match Query_Safety
begin

text \<open>
  The statement \<open>ApplyRules\<close> sends for a rule is assembled from fragments whose placeholders are numbered
  as the arguments are collected: the \<open>SET\<close> clauses first, then the predicate. Every number is used, none
  dangles, and no value of the rule is part of the text.
\<close>

section \<open>The predicate\<close>

abbreviation atom_size :: "rule_atom \<Rightarrow> nat" where
  "atom_size a \<equiv> length (rule_atom_args a)"

lemma rule_atom_heads: "rule_atom_text a n \<noteq> [] \<and> \<not> is_digit (hd (rule_atom_text a n))"
  by (cases a)
    (simp_all add: rule_atom_text_def rule_links_sql_def rule_recurring_sql_def escape_clause_def is_digit_def digit_val_def)

lemma rule_atom_prints: "prints (rule_atom_text a n) [Suc n..<Suc n + atom_size a]"
  by (cases a)
    (simp_all add: rule_atom_text_def prints_def digits_dec rule_links_sql_def rule_recurring_sql_def escape_clause_def)

lemma fold_rule_atoms:
  "tf_clauses (fold add_rule_atom as f) = tf_clauses f @ texts rule_atom_text atom_size as (length (tf_args f))"
  "tf_args (fold add_rule_atom as f) = tf_args f @ concat (map rule_atom_args as)"
  by (induction as arbitrary: f) (simp_all add: add_rule_atom_def)

lemma where_prints:
  "prints (join_with '' AND '' (texts rule_atom_text atom_size as n)) [Suc n..<Suc n + sum_list (map atom_size as)]"
  by (rule texts_prints [OF rule_atom_prints])
    (simp_all add: prints_plain rule_atom_heads)

lemma where_heads:
  "as \<noteq> [] \<Longrightarrow> \<not> is_digit (hd (join_with '' AND '' (texts rule_atom_text atom_size as n)))"
proof (cases as)
  case (Cons a bs)
  have "join_with s (x # xs) = x @ (if xs = [] then [] else s @ join_with s xs)" for s x and xs :: "string list"
    by (cases xs) simp_all
  then show ?thesis using rule_atom_heads [of a n] by (simp add: Cons hd_append)
qed simp

section \<open>The statement\<close>

definition rule_prefix :: "string list \<Rightarrow> string" where
  "rule_prefix sets = ''UPDATE transactions SET '' @ join_with '', '' sets @ '' WHERE user_id = $1 AND '' @
     ''category_id IS NULL'' @ '' AND '' @ closed_guard @ '' AND ''"

lemma rule_update_text:
  assumes "rule_update u r = Some (sql, args)" "rule_sets u r = (sets, given)"
  obtains a as where "rule_atoms r = Some (a # as)"
    "sql = rule_prefix sets @ join_with '' AND '' (texts rule_atom_text atom_size (a # as) (length given))"
    "args = given @ concat (map rule_atom_args (a # as))"
proof -
  from assms obtain b bs where r: "rule_atoms r = Some (b # bs)"
    by (auto simp: rule_update_def appendRulePredicate_atoms rule_atoms_def)
  have j: "join_with s (x # y # z # zs) = x @ s @ y @ s @ join_with s (z # zs)" for s x y z and zs :: "string list"
    by simp
  show thesis
    by (rule that [OF r])
      (use assms r in \<open>simp_all add: rule_update_def appendRulePredicate_atoms fold_rule_atoms rule_filter_def f_raw_def
         rule_prefix_def j del: fold_Cons join_with.simps\<close>)
qed

lemma set_prints:
  "prints ''category_id = $2'' [2] \<and> heads ''category_id = $2''"
  "prints (''payee_id = $'' @ dec n) [n] \<and> heads (''payee_id = $'' @ dec n)"
  "prints (sprintf tags_set [n]) [n] \<and> heads (sprintf tags_set [n])"
  "prints (sprintf notes_set [n, n]) [n, n] \<and> heads (sprintf notes_set [n, n])"
proof -
  have "dec 2 = ''2''" by code_simp
  then have "placeholders ''$2'' = [2]" using placeholders_end [of 2] by simp
  then show "prints ''category_id = $2'' [2] \<and> heads ''category_id = $2''"
    by (simp add: prints_def is_digit_def digit_val_def)
qed (simp_all add: prints_def digits_dec tags_set_def notes_set_def is_digit_def digit_val_def)

lemma join_prints:
  assumes "list_all2 (\<lambda>x ns. prints x ns \<and> heads x) xs nss" "prints sep []" "heads sep"
  shows "prints (join_with sep xs) (concat nss) \<and> (xs = [] \<or> heads (join_with sep xs))"
  using assms(1)
proof (induction rule: list_all2_induct)
  case Nil
  then show ?case by (simp add: prints_def)
next
  case (Cons x xs ns nss)
  show ?case
  proof (cases xs)
    case (Cons y ys)
    have "prints (sep @ join_with sep xs) ([] @ concat nss)"
      using Cons.IH assms(2) by (intro prints_append) (auto simp: Cons heads_def)
    then have "prints (x @ sep @ join_with sep xs) (ns @ ([] @ concat nss))"
      using Cons.hyps assms(3) by (intro prints_append [where ys = "sep @ join_with sep xs"]) (auto simp: heads_def)
    then show ?thesis using Cons.hyps by (simp add: Cons)
  qed (use Cons in simp)
qed

lemma upto_five:
  "{2..2::nat} = {2}" "{2..3::nat} = {2, 3}" "{2..4::nat} = {2, 3, 4}" "{2..5::nat} = {2, 3, 4, 5}"
  by auto

lemma prefix_prints:
  assumes "rule_sets u r = (sets, given)"
  shows "\<exists>ns. prints (rule_prefix sets) ns \<and> set ns = {1..length given}"
proof -
  define p where "p = (if re_PayeeID r = None then 0 else 1 :: nat)"
  define t where "t = (if re_AddTags r = [] then 0 else 1 :: nat)"
  define nss where "nss = [2] # (if p = 0 then [] else [[3]]) @ (if t = 0 then [] else [[3 + p]]) @
    (if re_Notes r = [] then [] else [[3 + p + t, 3 + p + t]])"
  have "list_all2 (\<lambda>x ns. prints x ns \<and> heads x) sets nss \<and> set (concat nss) = {2..length given}"
    using assms
    by (cases "re_PayeeID r"; cases "re_AddTags r = []"; cases "re_Notes r = []")
      (auto simp: rule_sets_def nss_def p_def t_def set_prints set_prints(2) [unfolded append.simps] upto_five simp del: sprintf_char sprintf_verb heads_Cons)
  then have nss: "list_all2 (\<lambda>x ns. prints x ns \<and> heads x) sets nss" "set (concat nss) = {2..length given}"
    by blast+
  define w where "w = '' WHERE user_id = $1 AND '' @ ''category_id IS NULL'' @ '' AND '' @ closed_guard @ '' AND ''"
  have "dec 1 = ''1''" by code_simp
  moreover have "prints ('' WHERE user_id = $'' @ dec 1 @ '' AND '' @ ''category_id IS NULL'' @ '' AND '' @ closed_guard @ '' AND '') [1]"
    by (simp add: prints_def closed_guard_def digits_dec placeholders_none del: One_nat_def)
  ultimately have w: "prints w [1]" by (simp add: w_def)
  have sets: "prints (join_with '', '' sets) (concat nss)" "sets = [] \<or> heads (join_with '', '' sets)"
    using join_prints [OF nss(1), of "'', ''"] by (auto simp: prints_plain)
  have "sets \<noteq> []" using nss(1) by (auto simp: nss_def)
  with sets have heads: "heads (join_with '', '' sets)" by blast
  have "prints (join_with '', '' sets @ w) (concat nss @ [1])"
    by (rule prints_append [OF sets(1) w]) (simp add: w_def is_digit_def digit_val_def)
  then have "prints (''UPDATE transactions SET '' @ join_with '', '' sets @ w) ([] @ concat nss @ [1])"
    using heads by (intro prints_append [where ys = "join_with '', '' sets @ w"]) (auto simp: prints_plain heads_def)
  moreover have "2 \<in> set (concat nss)" by (simp add: nss_def)
  then have "2 \<le> length given" unfolding nss(2) by simp
  then have "set (concat nss @ [1]) = {1..length given}" unfolding set_append nss(2) by (auto simp: numeral_2_eq_2)
  moreover have "rule_prefix sets = ''UPDATE transactions SET '' @ join_with '', '' sets @ w"
    by (simp only: rule_prefix_def w_def append_assoc)
  ultimately show ?thesis by (metis append_Nil)
qed

text \<open>C16. Every placeholder of the statement \<open>ApplyRules\<close> sends for a rule is the number of an argument, every
  argument is referred to, and no string literal is left open, whichever actions and conditions the rule has.\<close>

theorem rule_placeholders_bound:
  assumes "rule_update u r = Some (sql, args)"
  shows "\<not> in_literal False sql \<and> set (placeholders (outside False sql)) = {1..length args}"
proof -
  obtain sets given where s: "rule_sets u r = (sets, given)" by (cases "rule_sets u r")
  from rule_update_text [OF assms s] obtain a as where
    sql: "sql = rule_prefix sets @ join_with '' AND '' (texts rule_atom_text atom_size (a # as) (length given))"
    and args: "args = given @ concat (map rule_atom_args (a # as))" by blast
  from prefix_prints [OF s] obtain ns where ns: "prints (rule_prefix sets) ns" "set ns = {1..length given}" by blast
  have "prints sql (ns @ [Suc (length given)..<Suc (length given) + sum_list (map atom_size (a # as))])"
    unfolding sql by (intro prints_append ns(1) where_prints) (simp add: where_heads del: texts.simps)
  moreover have "length args = length given + sum_list (map atom_size (a # as))"
    by (simp add: args length_concat comp_def)
  ultimately show ?thesis using ns(2) by (auto simp: prints_def)
qed

definition ex_rule_entry :: rule_entry where
  "ex_rule_entry = \<lparr>re_Pattern = ''50%_off'', re_MatchType = ''contains'', re_CatID = 5, re_PayeeID = Some 6,
     re_AccountID = Some 10, re_FilterCategoryID = None, re_FilterPayeeID = None, re_MinAmount = Some 100,
     re_MaxAmount = None, re_TxnType = ''debit'', re_DateFrom = Some ''2024-01-01'', re_DateTo = None,
     re_IsLinked = Some False, re_IsRecurring = None, re_AddTags = [''sale''], re_Notes = ''by rule''\<rparr>"

theorem rule_placeholders_bound_witness:
  "let (sql, args) = the (rule_update 1 ex_rule_entry) in
     \<not> in_literal False sql \<and> set (placeholders (outside False sql)) = {1..length args}"
proof -
  have "rule_update 1 ex_rule_entry \<noteq> None"
    by (simp add: rule_update_def appendRulePredicate_atoms rule_atoms_def match_atom_def ex_rule_entry_def split: prod.split)
  then obtain sql args where "rule_update 1 ex_rule_entry = Some (sql, args)" by fast
  with rule_placeholders_bound [OF this] show ?thesis by simp
qed

end
