(* ===== verification/Rule_Trials.thy ===== *)
theory Rule_Trials
  imports Rule_Service
begin

text \<open>
  What a user may rely on when trying a rule out: \<open>ApplyRules\<close> succeeds on rules the endpoints accepted, and
  a rule that is created as it was previewed is applied to as many transactions as the preview counted.
  The concrete runs at the end are the instances of the theorems of \<open>Rule_Meaning\<close> and \<open>Rule_Apply\<close> too.
\<close>

section \<open>Applying valid rules succeeds\<close>

lemma refs_actions: "refs_ok r d \<Longrightarrow> actions_ok (rl_UserID r) (entry_of r) d"
  by (auto simp: refs_ok_def actions_ok_def entry_of_def sees_category_def category_exists_def list_ex_iff Let_def)

lemma actions_ok_txns [simp]: "actions_ok u r (d\<lparr>transactions := ts\<rparr>) = actions_ok u r d"
  by (simp add: actions_ok_def category_exists_def owns_payee_def cong: option.case_cong)

lemma loaded_actions:
  assumes "rules_valid d" "e \<in> set (loadRules u d)"
  shows "actions_ok u e d"
  using assms refs_actions by (fastforce simp: loadRules_def rules_valid_def list_all_iff)

lemma healthy_apply_rules:
  "\<forall>r \<in> set rs. actions_ok u r d \<Longrightarrow> healthy (apply_rules collate u rs k) (\<lambda>_ _. True) d"
proof (induction rs arbitrary: d k)
  case Nil
  then show ?case by (auto intro: healthy)
next
  case (Cons r rs)
  have "healthy (exec (apply_rule collate u r)) (\<lambda>n d'. healthy (apply_rules collate u rs (k + n)) (\<lambda>_ _. True) d') d"
    by (rule healthy_exec) (use Cons in \<open>auto simp: apply_rule_def Let_def\<close>)
  then show ?case
    using Cons by (auto intro!: healthy split: option.split)
qed

text \<open>C40. \<open>ApplyRules\<close> cannot fail on what the rules refer to: while the rules are the ones the endpoints keep
  and no statement fails, it answers with a count.\<close>

theorem apply_rules_succeeds:
  assumes "rules_valid (w_db w)" "w_faults w = []"
  shows "\<exists>n w'. ApplyRules collate u w = (Inr n, w')"
proof -
  have "healthy (ApplyRules collate u) (\<lambda>_ _. True) (w_db w)"
    unfolding ApplyRules_def
    by (intro healthy healthy_apply_rules) (use assms(1) loaded_actions in blast)
  from healthy_elim [OF this assms(2)] show ?thesis by blast
qed

section \<open>A preview and an apply agree\<close>

lemma entry_of_request:
  assumes "date_text (fst v)" "date_text (snd v)"
  shows "entry_of (rule_of u i q m v ts) = (ruleEntryFromRequest q m v)\<lparr>re_AddTags := ts\<rparr>"
proof -
  have "map_option format_ymd (Option.bind x parse_ymd) = x" if "date_text x" for x
    using that by (cases x) (auto simp: date_text_def)
  with assms show ?thesis by (simp add: entry_of_def rule_of_def ruleEntryFromRequest_def)
qed

lemma ruleMatches_tags [simp]: "ruleMatches (r\<lparr>re_AddTags := ts\<rparr>) ctx = ruleMatches r ctx"
  by (simp add: ruleMatches_def)

lemma condition_atoms_tags [simp]: "condition_atoms (r\<lparr>re_AddTags := ts\<rparr>) = condition_atoms r"
  by (cases r) (simp add: condition_atoms_def)

lemma sql_matches_tags [simp]: "sql_matches d (r\<lparr>re_AddTags := ts\<rparr>) t = sql_matches d r t"
  by (simp add: sql_matches_def rule_atoms_def)

lemma context_of_rules [simp]: "context_of (d\<lparr>rules := rs\<rparr>) t = context_of d t"
  by (simp add: context_of_def linked_txn_def attached_txn_def)

lemma eligible_rules [simp]: "eligible u (d\<lparr>rules := rs\<rparr>) t = eligible u d t"
  by (simp add: eligible_def on_closed_def)

lemma outcomes_preview:
  "outcomes (PreviewRule u (Some q)) (\<lambda>n d'. d' = d \<and> (\<exists>m v. normalizeRuleMatchType (rq_MatchType q) = Inr m \<and>
      validateRuleDates (rq_DateFrom q) (rq_DateTo q) = Inr v \<and> n = count_rule u (ruleEntryFromRequest q m v) d)) (\<lambda>_ _. True) d"
proof -
  have none: "count_rule u e d = 0" if "rule_count u e = None" for e
    using that by (simp add: rule_count_def appendRulePredicate_atoms count_rule_def selects_def sql_matches_def)
  show ?thesis
    unfolding PreviewRule_def Let_def
    by (intro wp) (auto simp: preview_count_def none split: if_splits)
qed

lemma outcomes_create:
  "outcomes (CreateRule u (Some q)) (\<lambda>r d'. \<exists>m v i ts. normalizeRuleMatchType (rq_MatchType q) = Inr m \<and>
      validateRuleDates (rq_DateFrom q) (rq_DateTo q) = Inr v \<and> r = rule_of u i q m v ts \<and>
      d' = d\<lparr>rules := rules d @ [r]\<rparr>) (\<lambda>_ _. True) d"
  unfolding CreateRule_def Let_def
  by (intro wp) (auto simp: insert_rule_def split: if_splits)

text \<open>Where a new rule stands: after the user's rules of a higher priority, or the same and no greater id.\<close>

definition rank :: "rule_row \<Rightarrow> int \<times> uuid" where
  "rank r = (- rl_Priority r, rl_ID r)"

definition ranked_ahead :: "rule_row \<Rightarrow> rule_row list \<Rightarrow> rule_entry list" where
  "ranked_ahead r rs = map entry_of (sort_key rank (filter (\<lambda>s. rank s \<le> rank r) (filter (\<lambda>s. rl_UserID s = rl_UserID r) rs)))"

definition ranked_behind :: "rule_row \<Rightarrow> rule_row list \<Rightarrow> rule_entry list" where
  "ranked_behind r rs = map entry_of (sort_key rank (filter (\<lambda>s. \<not> rank s \<le> rank r) (filter (\<lambda>s. rl_UserID s = rl_UserID r) rs)))"

lemma insort_append:
  "\<forall>b \<in> set bs. f x \<le> f b \<Longrightarrow> insort_key f x (as @ bs) = insort_key f x as @ bs"
  "\<forall>a \<in> set as. \<not> f x \<le> f a \<Longrightarrow> insort_key f x (as @ bs) = as @ insort_key f x bs"
  by (induction as) (auto simp: insort_is_Cons)

lemma sort_key_split:
  fixes f :: "'a \<Rightarrow> 'b :: linorder"
  shows "sort_key f xs = sort_key f (filter (\<lambda>x. f x \<le> c) xs) @ sort_key f (filter (\<lambda>x. \<not> f x \<le> c) xs)"
    "f r = c \<Longrightarrow> sort_key f (xs @ [r]) = sort_key f (filter (\<lambda>x. f x \<le> c) xs) @ r # sort_key f (filter (\<lambda>x. \<not> f x \<le> c) xs)"
proof (induction xs)
  case (Cons x xs)
  let ?as = "sort_key f (filter (\<lambda>x. f x \<le> c) xs)" and ?bs = "sort_key f (filter (\<lambda>x. \<not> f x \<le> c) xs)"
  have low: "insort_key f x (?as @ bs) = insort_key f x ?as @ bs" if "f x \<le> c" "\<forall>b \<in> set bs. c \<le> f b" for bs
    using that by (intro insort_append(1)) (auto intro: order_trans)
  have high: "insort_key f x (?as @ bs) = ?as @ insort_key f x bs" if "\<not> f x \<le> c" for bs
    using that by (intro insort_append(2)) auto
  have bs: "\<forall>b \<in> set ?bs. c \<le> f b" by (auto simp: not_le)
  {
    case 1
    show ?case using Cons(1) low [OF _ bs] high by (cases "f x \<le> c") auto
  next
    case 2
    then show ?case using Cons(2) low [of "r # ?bs"] bs high by (cases "f x \<le> c") auto
  }
qed simp_all

lemma loadRules_rank: "loadRules u d = map entry_of (sort_key rank (filter (\<lambda>r. rl_UserID r = u) (rules d)))"
  by (simp add: loadRules_def rank_def [abs_def])

lemma loadRules_split:
  "loadRules (rl_UserID r) d = ranked_ahead r (rules d) @ ranked_behind r (rules d)"
  "loadRules (rl_UserID r) (d\<lparr>rules := rules d @ [r]\<rparr>) = ranked_ahead r (rules d) @ entry_of r # ranked_behind r (rules d)"
  using sort_key_split [where f = rank and xs = "filter (\<lambda>s. rl_UserID s = rl_UserID r) (rules d)" and c = "rank r"]
  by (simp_all add: loadRules_rank ranked_ahead_def ranked_behind_def del: filter_filter)

lemma autoCategorize_append:
  "autoCategorize (rs @ ss) ctx = (case autoCategorize rs ctx of None \<Rightarrow> autoCategorize ss ctx | Some r \<Rightarrow> Some r)"
  by (induction rs) auto

lemma categorize_rules [simp]:
  "categorize collate u (d\<lparr>rules := rs\<rparr>) = categorize collate u d"
  "categorized u (d\<lparr>rules := rs\<rparr>) = categorized u d"
  by (simp_all add: categorize_def categorized_def fun_eq_iff)

lemma count_disjoint:
  "(\<And>x. x \<in> set xs \<Longrightarrow> P x \<Longrightarrow> \<not> Q x) \<Longrightarrow>
    length (filter (\<lambda>x. P x \<or> Q x) xs) = length (filter P xs) + length (filter Q xs)"
  by (induction xs) auto

text \<open>A new rule among the others: what it takes, and what it leaves as it would be without it.\<close>

definition rule_takes :: "db \<Rightarrow> rule_row \<Rightarrow> txn_row \<Rightarrow> bool" where
  "rule_takes d r t \<longleftrightarrow> eligible (rl_UserID r) d t \<and> ruleMatches (entry_of r) (context_of d t)"

lemma categorize_inserted:
  "categorize collate (rl_UserID r) d (ranked_ahead r rs @ entry_of r # ranked_behind r rs) t =
    (if rule_takes d r t \<and> autoCategorize (ranked_ahead r rs) (context_of d t) = None then act collate (entry_of r) t
     else categorize collate (rl_UserID r) d (ranked_ahead r rs @ ranked_behind r rs) t)"
  "categorized (rl_UserID r) d (ranked_ahead r rs @ entry_of r # ranked_behind r rs) t \<longleftrightarrow>
    rule_takes d r t \<or> \<not> rule_takes d r t \<and> categorized (rl_UserID r) d (ranked_ahead r rs @ ranked_behind r rs) t"
  by (auto simp: categorize_def categorized_def rule_takes_def autoCategorize_append split: option.splits)

lemma rule_of_facts:
  assumes "validateRuleDates (rq_DateFrom q) (rq_DateTo q) = Inr v" "r = rule_of u i q m v ts"
  shows "rl_UserID r = u" "entry_of r = (ruleEntryFromRequest q m v)\<lparr>re_AddTags := ts\<rparr>"
    "well_dated (ruleEntryFromRequest q m v)"
  using validateRuleDates_ok [OF assms(1)] entry_of_request [of v u i q m ts]
  by (auto simp: assms(2) rule_of_def well_dated_def ruleEntryFromRequest_def date_text_def split: option.splits)

text \<open>C14. The preview and the apply agree, whatever other rules the user has: when a request is previewed,
  then created, and the rules are applied to the same ledger, the preview answered the number of
  uncategorized transactions on open accounts that the new rule matches; the apply gives each of them the
  new rule's actions unless a rule ranked ahead of it matches, treats every other transaction as it would
  without the new rule, and answers the previewed number and that of the transactions which only the other
  rules match. With no other rule it answers the previewed number.\<close>

theorem preview_counts_apply:
  assumes "PreviewRule u (Some q) w = (Inr n, w1)" "CreateRule u (Some q) w1 = (Inr r, w2)"
    and "ApplyRules collate u w2 = (Inr k, w3)"
    and "rule_dates (w_db w)" "dated (w_db w)" "d = w_db w"
  shows "n = length (filter (rule_takes d r) (transactions d)) \<and>
    transactions (w_db w3) = map (\<lambda>t.
      if rule_takes d r t \<and> autoCategorize (ranked_ahead r (rules d)) (context_of d t) = None then act collate (entry_of r) t
      else categorize collate u d (loadRules u d) t) (transactions d) \<and>
    k = n + length (filter (\<lambda>t. \<not> rule_takes d r t \<and> categorized u d (loadRules u d) t) (transactions d)) \<and>
    (loadRules u d = [] \<longrightarrow> k = n)"
proof -
  from outcomes_elim [OF outcomes_preview assms(1)] obtain m v where
    p: "w_db w1 = d" "normalizeRuleMatchType (rq_MatchType q) = Inr m"
      "validateRuleDates (rq_DateFrom q) (rq_DateTo q) = Inr v" "n = count_rule u (ruleEntryFromRequest q m v) d"
    using assms(6) by auto
  let ?e = "ruleEntryFromRequest q m v"
  from outcomes_elim [OF outcomes_create assms(2)] p(1-3) obtain i ts where
    c: "w_db w2 = d\<lparr>rules := rules d @ [r]\<rparr>" "r = rule_of u i q m v ts" by auto
  note r = rule_of_facts [OF p(3) c(2)]
  have "selects u d ?e t \<longleftrightarrow> rule_takes d r t" if "t \<in> set (transactions d)" for t
    using sql_matches_iff [OF r(3), of t d] assms(5,6) that
    by (auto simp: r(1,2) selects_def rule_takes_def dated_def list_all_iff)
  then have n: "n = length (filter (rule_takes d r) (transactions d))"
    unfolding p(4) count_rule_def by (metis (mono_tags, lifting) filter_cong)
  note split = loadRules_split [of r d, unfolded r(1)]
  have "outcomes (ApplyRules collate u)
      (\<lambda>k d'. transactions d' = map (categorize collate u d (loadRules u (w_db w2))) (transactions d) \<and>
        k = length (filter (categorized u d (loadRules u (w_db w2))) (transactions d))) (\<lambda>_ _. True) (w_db w2)"
  proof -
    have "list_all well_dated (loadRules u d)" using loaded_dated [OF assms(4), of u] assms(6) by simp
    then have "list_all well_dated (loadRules u (w_db w2))"
      using r(2,3) by (simp add: c(1) split well_dated_def)
    then show ?thesis
      unfolding ApplyRules_def
      by (intro wp outcomes_apply_rules) (use assms(5,6) in \<open>simp_all add: c(1) dated_def\<close>)
  qed
  from outcomes_elim [OF this assms(3)]
  have after: "transactions (w_db w3) = map (categorize collate u d (loadRules u (w_db w2))) (transactions d)"
    "k = length (filter (categorized u d (loadRules u (w_db w2))) (transactions d))" by simp_all
  note inserted = categorize_inserted [where r = r and d = d and rs = "rules d", unfolded r(1)]
  have k: "k = n + length (filter (\<lambda>t. \<not> rule_takes d r t \<and> categorized u d (loadRules u d) t) (transactions d))"
    unfolding after(2) c(1) split inserted(2) n by (rule count_disjoint) simp
  moreover have "k = n" if "loadRules u d = []" using k that by (simp add: categorized_def)
  ultimately show ?thesis using n after(1) by (simp add: c(1) split inserted(1))
qed

section \<open>Concrete runs\<close>

definition shop_day :: date where "shop_day = time_date 2024 6 1"

definition shop_txn :: "uuid \<Rightarrow> string \<Rightarrow> cents \<Rightarrow> uuid option \<Rightarrow> txn_row" where
  "shop_txn i s m c = \<lparr>tx_ID = i, tx_UserID = 1, tx_AccountID = 10, tx_Date = shop_day, tx_Description = s,
     tx_Amount = m, tx_Type = ''debit'', tx_CategoryID = c, tx_PayeeID = None, tx_CycleID = None,
     tx_Detached = False, tx_CreatedAt = 0, tx_Tags = [], tx_Notes = Some [], tx_ClientKey = None\<rparr>"

definition shop_db :: db where
  "shop_db = \<lparr>accounts = [\<lparr>ac_ID = 10, ac_UserID = 1, ac_Name = ''Main'', ac_TypeID = ''bank'', ac_Closed = False,
       ac_BillingDay = None\<rparr>],
     transactions = [shop_txn 20 ''GREEN GROCER'' 900 None, shop_txn 21 ''Green Grocer'' 50 None,
       shop_txn 22 ''green grocer'' 900 (Some 7)],
     payees = [], categories = [\<lparr>ct_ID = 5, ct_UserID = None\<rparr>, \<lparr>ct_ID = 7, ct_UserID = Some 1\<rparr>],
     loan_attachments = [], loan_disbursements = [], loan_schedules = [], loan_transfers = [], series = [],
     series_terms = [], recurring_attachments = [], billing_cycles = [], txn_links = [], rules = []\<rparr>"

definition shop_world :: "db \<Rightarrow> db world" where
  "shop_world d = \<lparr>w_db = d, w_faults = [], w_ids = [30]\<rparr>"

definition grocer_request :: rule_request where
  "grocer_request = \<lparr>rq_Pattern = ''grocer'', rq_MatchType = [], rq_CategoryID = 5, rq_PayeeID = None, rq_Priority = 1,
     rq_AccountID = Some 10, rq_FilterCategoryID = None, rq_FilterPayeeID = None, rq_MinAmount = Some 100,
     rq_MaxAmount = None, rq_TxnType = ''debit'', rq_DateFrom = ''2024-01-01'', rq_DateTo = [], rq_IsLinked = None,
     rq_IsRecurring = Some False, rq_AddTags = ['' food '', ''food''], rq_Notes = []\<rparr>"

definition grocer_rule :: rule_row where
  "grocer_rule = rule_of 1 30 grocer_request ''contains'' (Some ''2024-01-01'', None) [''food'']"

definition grocer_db :: db where "grocer_db = shop_db\<lparr>rules := [grocer_rule]\<rparr>"

definition grocer_done :: "db" where
  "grocer_done = grocer_db\<lparr>transactions := map (\<lambda>t. if tx_ID t = 20 then t\<lparr>tx_CategoryID := Some 5, tx_Tags := [''food'']\<rparr> else t)
     (transactions grocer_db)\<rparr>"

lemma grocer_applied:
  "ApplyRules (\<lambda>_. 0) 1 ((shop_world grocer_db)\<lparr>w_ids := []\<rparr>) = (Inr 1, (shop_world grocer_done)\<lparr>w_ids := []\<rparr>)"
  by code_simp

lemma grocer_valid: "rules_valid grocer_db"
  by code_simp

lemma grocer_dated: "rule_dates grocer_db" "dated grocer_db" "dated shop_db"
  by (simp add: rule_dates_def grocer_db_def grocer_rule_def rule_of_def, code_simp) code_simp+

text \<open>The same request beside a rule of a higher priority that takes its row and one more.\<close>

definition rival_db :: db where
  "rival_db = shop_db\<lparr>rules := [grocer_rule\<lparr>rl_ID := 29, rl_Pattern := ''green'', rl_CategoryID := 7, rl_Priority := 2,
     rl_MinAmount := None\<rparr>]\<rparr>"

definition rival_world :: "db world" where
  "rival_world = (shop_world (rival_db\<lparr>rules := rules rival_db @ [grocer_rule]\<rparr>))\<lparr>w_ids := []\<rparr>"

lemma rival_previewed: "PreviewRule 1 (Some grocer_request) (shop_world rival_db) = (Inr 1, shop_world rival_db)"
  by code_simp

lemma rival_created: "CreateRule 1 (Some grocer_request) (shop_world rival_db) = (Inr grocer_rule, rival_world)"
  by code_simp

lemma rival_dated: "rule_dates rival_db" "dated rival_db"
  by (simp add: rule_dates_def rival_db_def grocer_rule_def rule_of_def, code_simp) code_simp

lemma rival_answered: "\<not> isl (fst (ApplyRules (\<lambda>_. 0) 1 rival_world))"
  by code_simp

lemma rival_counts:
  "length (filter (\<lambda>t. \<not> rule_takes rival_db grocer_rule t \<and> categorized 1 rival_db (loadRules 1 rival_db) t)
     (transactions rival_db)) = 1"
  by code_simp

theorem preview_counts_apply_witness:
  "fst (PreviewRule 1 (Some grocer_request) (shop_world rival_db)) = Inr 1 \<and>
   fst (ApplyRules (\<lambda>_. 0) 1 rival_world) = Inr (1 + 1)"
proof -
  have d: "w_db (shop_world rival_db) = rival_db" by (simp add: shop_world_def)
  obtain x w3 where x: "ApplyRules (\<lambda>_. 0) 1 rival_world = (x, w3)" by (rule prod.exhaust)
  with rival_answered obtain k where a: "ApplyRules (\<lambda>_. 0) 1 rival_world = (Inr k, w3)" by (cases x) simp_all
  note agree = preview_counts_apply [OF rival_previewed rival_created a, unfolded d, OF rival_dated refl]
  have "k = 1 + 1" using agree unfolding rival_counts by (elim conjE)
  then show ?thesis unfolding a rival_previewed by simp
qed

theorem apply_rules_succeeds_witness:
  "\<exists>n w'. ApplyRules (\<lambda>_. 0) 1 (shop_world grocer_db) = (Inr n, w')"
  by (rule apply_rules_succeeds) (simp_all add: shop_world_def grocer_valid)

theorem apply_first_match_witness:
  "w_db (shop_world grocer_done) = grocer_db\<lparr>transactions :=
     map (categorize (\<lambda>_. 0) 1 grocer_db (loadRules 1 grocer_db)) (transactions grocer_db)\<rparr> \<and>
   1 = length (filter (categorized 1 grocer_db (loadRules 1 grocer_db)) (transactions grocer_db))"
  using apply_first_match [OF _ _ grocer_applied] grocer_dated by (simp add: shop_world_def)

definition grocer_entry :: rule_entry where "grocer_entry = entry_of grocer_rule"

theorem rule_matching_agrees_witness:
  "appendRulePredicate grocer_entry (rule_filter []) =
     map_option (\<lambda>as. fold add_rule_atom as (rule_filter [])) (rule_atoms grocer_entry) \<and>
   sql_matches grocer_db grocer_entry (shop_txn 20 ''GREEN GROCER'' 900 None) \<and>
   ruleMatches grocer_entry (context_of grocer_db (shop_txn 20 ''GREEN GROCER'' 900 None))"
proof -
  have "well_dated grocer_entry"
    unfolding well_dated_def grocer_entry_def by code_simp
  moreover have "four_digit_year (tx_Date (shop_txn 20 ''GREEN GROCER'' 900 None))" by code_simp
  moreover have "ruleMatches grocer_entry (context_of grocer_db (shop_txn 20 ''GREEN GROCER'' 900 None))" by code_simp
  ultimately show ?thesis using rule_matching_agrees by blast
qed

theorem category_condition_never_fires_witness:
  "count_rule 1 (grocer_entry\<lparr>re_FilterCategoryID := Some 7\<rparr>) grocer_db = 0"
  using category_condition_never_fires [of "grocer_entry\<lparr>re_FilterCategoryID := Some 7\<rparr>" 7] by simp

end
