(* ===== verification/Spec2Isabelle.thy ===== *)
theory Spec2Isabelle
  imports Money Ranges Ratelimit Loan_Progress Loan_Transfers Loan_Race Recurring_Race Ledger_Service
    Query_Meaning Cycle_Totals Rule_Text Rule_Trials
begin

text \<open>
  \<^bold>\<open>FinTrak: a verification development\<close>

  FinTrak keeps a household's ledger. Its server (\<open>src/backend\<close>, Go over PostgreSQL) answers JSON
  requests; a terminal client, an MCP server, a web front end and a statement parser use it over HTTP.
  The development models the parts of the server that compute with money and time, and the handlers
  that keep them in the database.

  \<^bold>\<open>The parts and how they meet\<close>

  A request passes the throttle (\<open>handlers/ratelimit.go\<close> over \<open>internal/ratelimit\<close>) when it logs in. A
  handler decodes its body (\<open>internal/money\<close>, \<open>internal/validation\<close>), runs its guards, and then its
  statements, singly or inside one \<open>db.WithTx\<close>. \<open>handlers/loan.go\<close> builds the amortization table of a
  loan from its terms and the balance transfers on it, matches the payments attached to the loan to
  its rows, and quotes a settlement. \<open>handlers/recurring.go\<close> computes the occurrences of a recurring
  payment, resolves a date to one of its effective-dated terms, and scores transactions against it.
  Both share the accounts, payees and transactions of the ledger. The list of transactions is filtered by
  a query language: \<open>internal/query\<close> parses what a user types and compiles it into the \<open>WHERE\<close> of the list.
  \<open>handlers/billing_cycle.go\<close> cuts a card's transactions into cycles that it generates when they are read,
  and \<open>handlers/rule.go\<close> keeps the rules that categorize transactions, in Go where one is entered and in SQL
  where all are applied.

  \<^bold>\<open>Theories\<close>

  \<^item> \<open>Prelude\<close>, \<open>Go_Text\<close>, \<open>Float64\<close>, \<open>Civil_Date\<close>: what the source uses of Go. \<open>int64\<close> wraps through
    \<open>i64\<close>; strings are lists of bytes; \<open>float64\<close> is a rational with the rounding of IEEE 754 written out;
    a calendar day is a day number with \<open>time.Date\<close>, \<open>AddDate\<close> and \<open>Format\<close> on it.
  \<^item> \<open>Money\<close> is \<open>internal/money/money.go\<close>: \<open>Amount_String\<close>, \<open>Parse\<close>, \<open>FromFloat\<close>, \<open>UnmarshalJSON\<close>, \<open>Scan\<close>.
  \<^item> \<open>Validation\<close> is \<open>internal/validation/date.go\<close> with the calendar helpers of
    \<open>handlers/transaction_summary.go\<close>.
  \<^item> \<open>Ratelimit\<close> is \<open>internal/ratelimit/ratelimit.go\<close> and \<open>handlers/ratelimit.go\<close>: a limiter is a record of its
    configuration and an association list of keyed entries, and each method is a function on it.
  \<^item> \<open>Recurring\<close> holds the pure functions of \<open>handlers/recurring.go\<close>; \<open>Schedule\<close> proves the occurrences,
    \<open>Terms\<close> the resolution of dates to terms, \<open>Ranges\<close> the parsing of supplied ranges, \<open>Suggestions\<close> the
    scoring and the page of suggestions.
  \<^item> \<open>Loan\<close> holds the pure functions of \<open>handlers/loan.go\<close>; \<open>Loan_Table\<close> proves the amortization table,
    \<open>Loan_Progress\<close> the matching of payments and the quote.
  \<^item> \<open>Tables\<close> is the part of the schema (\<open>db/migrations\<close>) the two components touch, as a record of tables;
    \<open>Server\<close> is the program a handler is: statements in sequence over the tables, a refusal, a failing
    statement, and \<open>with_tx\<close> for \<open>db.WithTx\<close>.
  \<^item> \<open>Loan_Store\<close> and \<open>Recurring_Store\<close> are the SQL statements, \<open>Loan_Handlers\<close> and \<open>Recurring_Handlers\<close>
    the handlers, one definition each, and \<open>Loan_Service\<close>, \<open>Recurring_Service\<close> and \<open>Ledger_Service\<close> the
    sequences of requests.
  \<^item> \<open>Loan_Books\<close>, \<open>Loan_Links\<close>, \<open>Loan_Transfers\<close>, \<open>Recurring_Books\<close>, \<open>Recurring_Terms\<close>, \<open>Recurring_Changes\<close>,
    \<open>Recurring_Kept\<close>, \<open>Recurring_Edits\<close> and \<open>Recurring_Views\<close> prove what the handlers do to the tables;
    \<open>Loan_Race\<close> and \<open>Recurring_Race\<close> what two requests that overlap can do.
  \<^item> \<open>Query_Parse\<close> is \<open>internal/query/parse.go\<close> and \<open>fields.go\<close>; \<open>Query_Compile\<close> is \<open>compile.go\<close>, \<open>pattern.go\<close>,
    the expression of \<open>internal/currency\<close> and the \<open>txnFilter\<close> of \<open>handlers/transaction.go\<close> that it appends to.
    \<open>Query_Reads\<close> proves the parser, \<open>Query_Sql\<close> gives the clauses the compiler prints, \<open>Query_Safety\<close> proves
    the text safe, and \<open>Query_Meaning\<close> evaluates the clauses in SQL's three truth values.
  \<^item> \<open>Cycle_Dates\<close> has the windows of \<open>billing_cycle.go\<close> and shows that they tile the calendar, \<open>Cycle_Store\<close> its
    statements, \<open>ensureBillingCycles\<close> and the endpoint; \<open>Cycle_Books\<close> and \<open>Cycle_Totals\<close> prove what generating
    the cycles and adding them up does, \<open>Cycle_Service\<close> what it keeps.
  \<^item> \<open>Date_Text\<close> compares dates as text. \<open>Rule_Match\<close> is the matching of \<open>rule.go\<close> in Go and as statement text,
    \<open>Rule_Meaning\<close> the meaning of that text, \<open>Rule_Text\<close> its placeholders, \<open>Rule_Apply\<close> the endpoint
    \<open>ApplyRules\<close>, \<open>Rule_Handlers\<close> the others with \<open>normalizeTags\<close>, \<open>Rule_Service\<close> their sequences and
    \<open>Rule_Trials\<close> how previews, rules and applies fit together.

  \<^bold>\<open>What the lemmas show\<close>

  \<^item> Money: printing and parsing are inverse, an accepted amount is in range, and decoding a JSON number
    agrees with parsing its text.
  \<^item> Throttle: the map of a limiter never outgrows its bound, a bucket is only dropped when it is expired or
    the stalest, and a correct password restores the budget of failures.
  \<^item> Recurring, pure: stepping months does not drift, occurrences increase, the search loops find what a
    specification without a loop says, a date resolves to the one term that covers it, accepted ranges
    are disjoint, and a suggestion matches its account, its amount and an occurrence.
  \<^item> Loans, pure: the table repays the principal exactly, its rows add up, no sum wraps for accepted terms;
    the progress is the abstract matching \<open>the nth payment pays the nth installment\<close>, with the totals
    as \<open>int64\<close> sums that are exact within those bounds.
  \<^item> Handlers: each statement keeps the invariants of the tables (\<open>loan_invariant\<close>, \<open>recurring_invariant\<close>,
    \<open>cycle_invariant\<close>, \<open>rule_invariant\<close> and \<open>ledger_invariant\<close> are the contracts, interpreted on the books, on the rows of other users and
    on the failed requests); a transfer, a price change, an attach and an edit of ranges do what they
    say; deleting a transfer undoes it; the list of series and its detail agree.
  \<^item> Query language: parsing returns for every query and keeps well-formed terms only; the compiled text has
    one placeholder per argument, in order, and what a user types stays in arguments and string literals; the
    number of terms and arguments is bounded; the clauses keep the transactions the terms ask for.
  \<^item> Billing cycles: the windows tile the calendar; generating them leaves every month covered once and every
    transaction in the cycle of its date, and is idempotent; the running total is the balance,
    summed in \<open>int64\<close>.
  \<^item> Rules: matching in Go and in SQL agree; applying the rules gives each transaction the actions of the first
    rule that matches; a preview counts what the rule, created beside any others, matches when they are
    applied; the statement's placeholders are bound.
  \<^item> Where the code does less than it means to, the theorem says so: a rule with a category condition never
    fires, a change of the billing day can leave cycles that overlap, the rate of a transfer's target is
    bounded by its column only, an onward transfer survives the deletion of the transfer that funded it, two requests
    that overlap can break what each checks alone, and some negations of the query language are lost or
    applied twice.

  \<^bold>\<open>Correspondence\<close>

  \<^item> Records carry the fields of the source's structs, prefixed by two letters; fields that are only joined in
    for display (names, colours) are left out. Errors are values of a sum type, each message verbatim, with
    the source's long dash written \<open>-\<close>.
  \<^item> A statement is a function on the tables that returns an error, with the constraint it violates, or a
    result and new tables. A fault script says which statements fail for a reason of their own (a lost
    connection); no theorem excludes such faults unless it says so.
  \<^item> A handler is a sequence of such statements. Requests run one after the other, except in the two race
    theories, where a request is split where READ COMMITTED lets another in.
  \<^item> \<open>time.Now()\<close> and \<open>CURRENT_DATE\<close> are an argument \<open>now\<close>; fresh identifiers are drawn from a supply that the
    state carries; \<open>uuid.Parse\<close> on a query's values, the order of text in the database's collation, the token bucket of \<open>golang.org/x/time/rate\<close>
    and \<open>strconv.ParseFloat\<close> are arguments.

  \<^bold>\<open>Bounds\<close>

  The loops of the source are bounded by its own constants, and the model has no fuel besides them:
  \<open>maxRecurringSteps\<close> (20000 steps of a schedule) is where \<open>recurringUpcoming\<close> and
  \<open>nearestRecurringOccurrence\<close> stop; \<open>maxBillingCycleMonths\<close> (600) bounds the cycles one read generates; the tenure of a loan bounds its table; \<open>maxBulkBatch\<close> (5000) bounds a batch.
  The theorems on the loops speak about the bounded loop the code runs. The loop of \<open>query.Parse\<close> has no bound
  in the source; it is a \<open>partial_function\<close> into \<open>option\<close>, and \<open>parse_returns\<close> shows that it returns.
  \<open>MaxQueryChars\<close> (2000) and \<open>MaxTerms\<close> (32) are the source's. A query is a list of single-byte runes.

  \<^bold>\<open>Not modelled\<close>

  Sign-in and sessions, the dashboards, calendars and money-flow reports, backup, import and
  export, linking of transfers between accounts, statements and Paperless, the catalogs of
  categories, payees, tags and account types, the connection pool and its migrations, logging and
  configuration; and everything outside \<open>src/backend\<close>. These are I/O, presentation, or further components that
  the modelled ones do not call.
\<close>

end
